(* ===== verification/Rtmp_Prelude.thy ===== *)
theory Rtmp_Prelude
  imports Main "HOL-Library.Word" "HOL-Library.Sublist"
begin

text \<open>
  Shared vocabulary of the development: the machine types of the C++ code, the big-endian
  byte codecs every layer uses, and the two contracts that the byte-level components keep.

  \<^item> A \<open>std::istream\<close> is the list of the bytes not yet read. A reader takes that list and
    returns its value, \<open>None\<close> where the C++ function returns false, with the bytes left;
    the bytes a failing reader has already consumed stay consumed, as in the code.
  \<^item> A \<open>std::ostream\<close> with the running \<open>writed\<close> counter is a pair of the bytes written
    and the count; a writer maps such a pair to the next one.

  The locale \<open>stream_reader\<close> is the contract of a reader (what is left is a suffix of
  what was there) and \<open>appender\<close> that of a writer (it appends fixed bytes and counts each).
\<close>

unbundle bit_operations_syntax

type_synonym byte = "8 word"
type_synonym u16 = "16 word"
type_synonym u32 = "32 word"
type_synonym u64 = "64 word"
type_synonym bytes = "byte list"

text \<open>The bytes of a string literal of the code.\<close>

definition ascii :: "string \<Rightarrow> bytes" where
  "ascii s = map of_char s"

lemma length_ascii [simp]: "length (ascii s) = length s"
  by (simp add: ascii_def)

text \<open>\<open>std::to_string\<close> of a number that is not negative.\<close>

function decimal :: "nat \<Rightarrow> bytes" where
  "decimal n = (if n < 10 then [of_nat (48 + n)] else decimal (n div 10) @ [of_nat (48 + n mod 10)])"
  by pat_completeness auto
termination by (relation "measure id") auto

declare decimal.simps [simp del]

definition digit_value :: "byte \<Rightarrow> nat" where
  "digit_value c = unat c - 48"

definition digits_value :: "bytes \<Rightarrow> nat" where
  "digits_value = foldl (\<lambda>n c. 10 * n + digit_value c) 0"

definition is_digit :: "byte \<Rightarrow> bool" where
  "is_digit c \<longleftrightarrow> 48 \<le> c \<and> c \<le> 57"

lemma small_digit:
  assumes "n < 10"
  shows "is_digit (of_nat (48 + n))" and "digit_value (of_nat (48 + n)) = n"
proof -
  have "unat (of_nat (48 + n) :: byte) = 48 + n"
    using assms by (simp only: unat_of_nat) simp
  then show "is_digit (of_nat (48 + n))" and "digit_value (of_nat (48 + n)) = n"
    using assms by (simp_all add: is_digit_def digit_value_def word_le_nat_alt)
qed

lemma decimal_digits: "\<forall>c\<in>set (decimal n). is_digit c"
proof (induction n rule: decimal.induct)
  case (1 n)
  then show ?case
    using small_digit(1) [of n] small_digit(1) [of "n mod 10"]
    by (subst decimal.simps) (auto simp del: of_nat_add)
qed

lemma decimal_nonempty [simp]: "decimal n \<noteq> []"
  by (subst decimal.simps) simp

lemma digits_value_decimal [simp]: "digits_value (decimal n) = n"
proof (induction n rule: decimal.induct)
  case (1 n)
  then show ?case
    using small_digit(2) [of n] small_digit(2) [of "n mod 10"]
    by (subst decimal.simps) (simp add: digits_value_def del: of_nat_add)
qed

lemma decimal_inject [simp]: "decimal m = decimal n \<longleftrightarrow> m = n"
  by (metis digits_value_decimal)

text \<open>Rewrite rules that turn the byte-level definitions into list equations.\<close>

named_theorems byte_simps
named_theorems reader_rest

subsection \<open>Big-endian codecs\<close>

definition be16 :: "u16 \<Rightarrow> bytes" where
  "be16 v = [ucast (drop_bit 8 v), ucast v]"

definition be24 :: "u32 \<Rightarrow> bytes" where
  "be24 v = [ucast (drop_bit 16 v), ucast (drop_bit 8 v), ucast v]"

definition be32 :: "u32 \<Rightarrow> bytes" where
  "be32 v = [ucast (drop_bit 24 v), ucast (drop_bit 16 v), ucast (drop_bit 8 v), ucast v]"

definition be64 :: "u64 \<Rightarrow> bytes" where
  "be64 v = [ucast (drop_bit 56 v), ucast (drop_bit 48 v), ucast (drop_bit 40 v),
    ucast (drop_bit 32 v), ucast (drop_bit 24 v), ucast (drop_bit 16 v), ucast (drop_bit 8 v),
    ucast v]"

definition le32 :: "u32 \<Rightarrow> bytes" where
  "le32 v = [ucast v, ucast (drop_bit 8 v), ucast (drop_bit 16 v), ucast (drop_bit 24 v)]"

definition of_be16 :: "byte \<Rightarrow> byte \<Rightarrow> u16" where
  "of_be16 a b = push_bit 8 (ucast a) OR ucast b"

definition of_be24 :: "byte \<Rightarrow> byte \<Rightarrow> byte \<Rightarrow> u32" where
  "of_be24 a b c = push_bit 16 (ucast a) OR push_bit 8 (ucast b) OR ucast c"

definition of_be32 :: "byte \<Rightarrow> byte \<Rightarrow> byte \<Rightarrow> byte \<Rightarrow> u32" where
  "of_be32 a b c d = push_bit 24 (ucast a) OR push_bit 16 (ucast b) OR push_bit 8 (ucast c) OR ucast d"

definition of_be64 :: "byte \<Rightarrow> byte \<Rightarrow> byte \<Rightarrow> byte \<Rightarrow> byte \<Rightarrow> byte \<Rightarrow> byte \<Rightarrow> byte \<Rightarrow> u64" where
  "of_be64 a b c d e f g h = push_bit 56 (ucast a) OR push_bit 48 (ucast b) OR push_bit 40 (ucast c)
    OR push_bit 32 (ucast d) OR push_bit 24 (ucast e) OR push_bit 16 (ucast f)
    OR push_bit 8 (ucast g) OR ucast h"

lemma not_bit_byte [simp]: "8 \<le> n \<Longrightarrow> \<not> bit (b :: byte) n"
  using bit_imp_le_length [of b n] by auto

lemma bit_byte_less: "bit (b :: byte) n \<Longrightarrow> n < 8"
  using bit_imp_le_length [of b n] by simp

lemmas codec_bit_simps =
  bit_or_iff bit_and_iff bit_push_bit_iff bit_drop_bit_eq bit_ucast_iff bit_mask_iff

lemma be16_of_be16 [simp]: "be16 (of_be16 a b) = [a, b]"
  unfolding be16_def of_be16_def
  by (auto intro!: bit_word_eqI simp: codec_bit_simps)

lemma be24_of_be24 [simp]: "be24 (of_be24 a b c) = [a, b, c]"
  unfolding be24_def of_be24_def
  by (auto intro!: bit_word_eqI simp: codec_bit_simps)

lemma be32_of_be32 [simp]: "be32 (of_be32 a b c d) = [a, b, c, d]"
  unfolding be32_def of_be32_def
  by (auto intro!: bit_word_eqI simp: codec_bit_simps)

lemma be64_of_be64 [simp]: "be64 (of_be64 a b c d e f g h) = [a, b, c, d, e, f, g, h]"
  unfolding be64_def of_be64_def
  by (auto intro!: bit_word_eqI simp: codec_bit_simps)

lemma of_be16_split: "of_be16 (ucast (drop_bit 8 v)) (ucast v) = v"
proof (rule bit_word_eqI)
  fix n assume "n < LENGTH(16)"
  then show "bit (of_be16 (ucast (drop_bit 8 v)) (ucast v)) n = bit v n"
    by (cases "n < 8") (auto simp: of_be16_def codec_bit_simps less_diff_conv2)
qed

lemma of_be24_split:
  "of_be24 (ucast (drop_bit 16 v)) (ucast (drop_bit 8 v)) (ucast v) = v AND mask 24"
proof (rule bit_word_eqI)
  fix n assume "n < LENGTH(32)"
  then show "bit (of_be24 (ucast (drop_bit 16 v)) (ucast (drop_bit 8 v)) (ucast v)) n
      = bit (v AND mask 24) n"
    by (cases "n < 8"; cases "n < 16"; cases "n < 24")
      (auto simp: of_be24_def codec_bit_simps less_diff_conv2)
qed

lemma of_be32_split:
  "of_be32 (ucast (drop_bit 24 v)) (ucast (drop_bit 16 v)) (ucast (drop_bit 8 v)) (ucast v) = v"
proof (rule bit_word_eqI)
  fix n assume "n < LENGTH(32)"
  then show "bit (of_be32 (ucast (drop_bit 24 v)) (ucast (drop_bit 16 v)) (ucast (drop_bit 8 v))
      (ucast v)) n = bit v n"
    by (cases "n < 8"; cases "n < 16"; cases "n < 24")
      (auto simp: of_be32_def codec_bit_simps less_diff_conv2)
qed

lemma of_be64_split:
  "of_be64 (ucast (drop_bit 56 v)) (ucast (drop_bit 48 v)) (ucast (drop_bit 40 v))
     (ucast (drop_bit 32 v)) (ucast (drop_bit 24 v)) (ucast (drop_bit 16 v))
     (ucast (drop_bit 8 v)) (ucast v) = v"
proof (rule bit_word_eqI)
  fix n assume n: "n < LENGTH(64)"
  then consider "n < 8" | "8 \<le> n" "n < 16" | "16 \<le> n" "n < 24" | "24 \<le> n" "n < 32"
    | "32 \<le> n" "n < 40" | "40 \<le> n" "n < 48" | "48 \<le> n" "n < 56" | "56 \<le> n" "n < 64"
    by fastforce
  then show "bit (of_be64 (ucast (drop_bit 56 v)) (ucast (drop_bit 48 v)) (ucast (drop_bit 40 v))
     (ucast (drop_bit 32 v)) (ucast (drop_bit 24 v)) (ucast (drop_bit 16 v))
     (ucast (drop_bit 8 v)) (ucast v)) n = bit v n"
    by cases (auto simp: of_be64_def codec_bit_simps less_diff_conv2)
qed

lemmas of_be_split [simp] = of_be16_split of_be24_split of_be32_split of_be64_split

lemma length_be [simp]:
  "length (be16 v) = 2" "length (be24 w) = 3" "length (be32 w) = 4" "length (be64 x) = 8"
  "length (le32 w) = 4"
  by (simp_all add: be16_def be24_def be32_def be64_def le32_def)

lemma le32_rev: "le32 v = rev (be32 v)"
  by (simp add: le32_def be32_def)

lemma and_mask_24_small:
  assumes "v < 0x1000000"
  shows "v AND mask 24 = (v :: u32)"
  using assms by (intro less_mask_eq) simp

subsection \<open>The contract of a writer\<close>

type_synonym wst = "bytes \<times> nat"

locale appender =
  fixes w :: "wst \<Rightarrow> wst" and bs :: bytes
  assumes appends: "w (out, n) = (out @ bs, n + length bs)"
begin

lemma emitted: "fst (w s) = fst s @ bs"
  by (cases s) (simp add: appends)

lemma counted: "snd (w s) = snd s + length bs"
  by (cases s) (simp add: appends)

lemma count_invariant: "snd s = length (fst s) \<Longrightarrow> snd (w s) = length (fst (w s))"
  by (simp add: emitted counted)

lemma from_empty: "w ([], 0) = (bs, length bs)"
  by (simp add: appends)

end

text \<open>The C++ code passes one stream and one counter through a sequence of write calls.\<close>

definition writes :: "(wst \<Rightarrow> wst) list \<Rightarrow> wst \<Rightarrow> wst" where
  "writes ws s = fold (\<lambda>w s. w s) ws s"

lemma writes_Nil [byte_simps]: "writes [] s = s"
  by (simp add: writes_def)

lemma writes_Cons [byte_simps]: "writes (w # ws) s = writes ws (w s)"
  by (simp add: writes_def)

lemma appender_writes:
  "list_all2 appender ws bss \<Longrightarrow> appender (writes ws) (concat bss)"
proof (induction ws bss rule: list_all2_induct)
  case Nil
  show ?case by unfold_locales (simp add: writes_Nil)
next
  case (Cons w ws b bss)
  show ?case
    by unfold_locales
      (simp add: writes_Cons appender.appends [OF Cons.hyps(1)] appender.appends [OF Cons.IH])
qed

text \<open>A writer that appends the same bytes in every state, without naming them.\<close>

definition emits :: "(wst \<Rightarrow> wst) \<Rightarrow> bool" where
  "emits w \<longleftrightarrow> appender w (fst (w ([], 0)))"

lemma emits_appender: "appender w bs \<Longrightarrow> emits w"
  by (simp add: emits_def appender.from_empty)

lemma emitsD: "emits w \<Longrightarrow> w (out, n) = (out @ fst (w ([], 0)), n + length (fst (w ([], 0))))"
  unfolding emits_def by (rule appender.appends)

lemma emits_writes: "\<forall>w \<in> set ws. emits w \<Longrightarrow> emits (writes ws)"
proof -
  assume "\<forall>w \<in> set ws. emits w"
  then have "list_all2 appender ws (map (\<lambda>w. fst (w ([], 0))) ws)"
    by (simp add: list.rel_map list.rel_refl_strong emits_def)
  then show ?thesis by (rule emits_appender [OF appender_writes])
qed

subsection \<open>The contract of a reader\<close>

definition ret :: "'a \<Rightarrow> bytes \<Rightarrow> 'a option \<times> bytes" where
  "ret v s = (Some v, s)"

definition fail :: "bytes \<Rightarrow> 'a option \<times> bytes" where
  "fail s = (None, s)"

text \<open>\<open>if (!read(stream, v)) return false; \<dots>\<close>\<close>

definition and_then ::
  "(bytes \<Rightarrow> 'a option \<times> bytes) \<Rightarrow> ('a \<Rightarrow> bytes \<Rightarrow> 'b option \<times> bytes) \<Rightarrow> bytes \<Rightarrow> 'b option \<times> bytes"
  where "and_then p f s = (case p s of (None, r) \<Rightarrow> (None, r) | (Some v, r) \<Rightarrow> f v r)"

text \<open>\<open>check_redable_length\<close> in front of a read.\<close>

definition need :: "nat \<Rightarrow> (bytes \<Rightarrow> 'a option \<times> bytes) \<Rightarrow> bytes \<Rightarrow> 'a option \<times> bytes" where
  "need n p s = (if length s < n then (None, s) else p s)"

locale stream_reader =
  fixes rd :: "bytes \<Rightarrow> 'a option \<times> bytes"
  assumes rest_suffix: "suffix (snd (rd s)) s"
begin

lemma rest_length: "length (snd (rd s)) \<le> length s"
  using rest_suffix by (rule suffix_length_le)

lemma consumed: "take (length s - length (snd (rd s))) s @ snd (rd s) = s"
proof -
  from rest_suffix [of s] obtain zs where "s = zs @ snd (rd s)"
    by (auto simp: suffix_def)
  then have "length s - length (snd (rd s)) = length zs"
    by (metis add_diff_cancel_right' length_append)
  then show ?thesis
    using \<open>s = zs @ snd (rd s)\<close> by (metis append_eq_conv_conj)
qed

end

locale progress_reader = stream_reader +
  assumes progress: "rd s = (Some v, r) \<Longrightarrow> length r < length s"
begin

lemma nothing_from_nothing: "fst (rd []) = None"
  using progress [of "[]"] by (cases "rd []"; cases "fst (rd [])") auto

lemma progress_snd: "fst (rd s) \<noteq> None \<Longrightarrow> length (snd (rd s)) < length s"
  using progress [of s] by (cases "rd s") auto

end

text \<open>A reader with an encoder it undoes, on the values in range.\<close>

locale byte_codec = stream_reader rd for rd :: "bytes \<Rightarrow> 'a option \<times> bytes" +
  fixes enc :: "'a \<Rightarrow> bytes" and valid :: "'a \<Rightarrow> bool"
  assumes decode: "valid v \<Longrightarrow> rd (enc v @ r) = (Some v, r)"
begin

lemma decode_whole: "valid v \<Longrightarrow> rd (enc v) = (Some v, [])"
  using decode [of v "[]"] by simp

lemma enc_prefix_free: "valid v \<Longrightarrow> valid w \<Longrightarrow> enc v @ r = enc w @ r' \<Longrightarrow> v = w \<and> r = r'"
  by (metis decode option.inject prod.inject)

lemma decode_then: "valid v \<Longrightarrow> and_then rd f (enc v @ r) = f v r"
  by (simp add: and_then_def decode)

end

lemma stream_reader_ret [reader_rest]: "stream_reader (ret v)"
  by unfold_locales (simp add: ret_def)

lemma stream_reader_fail [reader_rest]: "stream_reader fail"
  by unfold_locales (simp add: fail_def)

lemma stream_reader_and_then [reader_rest]:
  assumes "stream_reader p" and "\<And>v. stream_reader (f v)"
  shows "stream_reader (and_then p f)"
proof
  fix s
  have p: "suffix (snd (p s)) s" by (rule stream_reader.rest_suffix [OF assms(1)])
  have f: "suffix (snd (f v r)) r" for v r by (rule stream_reader.rest_suffix [OF assms(2)])
  show "suffix (snd (and_then p f s)) s"
    using p by (cases "p s"; cases "fst (p s)")
      (auto simp: and_then_def intro: suffix_order.trans [OF f])
qed

lemma stream_reader_need [reader_rest]: "stream_reader p \<Longrightarrow> stream_reader (need n p)"
  by (auto simp: stream_reader_def need_def)

lemma stream_reader_if [reader_rest]:
  "stream_reader p \<Longrightarrow> stream_reader q \<Longrightarrow> stream_reader (if b then p else q)"
  by simp

lemma and_then_need: "n \<le> length s \<Longrightarrow> and_then (need n p) f s = and_then p f s"
  by (simp add: and_then_def need_def)

subsection \<open>Bytes bit by bit\<close>

lemma byte_eqI:
  "list_all (\<lambda>i. bit x i \<longleftrightarrow> bit y i) [0..<8] \<Longrightarrow> x = (y :: byte)"
  by (rule bit_word_eqI) (simp add: list_all_iff)

lemma upt_8: "[0..<8] = [0, 1, 2, 3, 4, 5, 6, 7 :: nat]"
  by code_simp

lemmas byte_bit_simps = upt_8 list.pred_inject codec_bit_simps comp_apply

end
