(* ===== verification/Stream_Util.thy ===== *)
theory Stream_Util
  imports Rtmp_Prelude
begin

text \<open>
  The byte-order and stream helpers of \<open>rtmps/src/common\<close>: \<open>NetworkUtil.cpp\<close> and
  \<open>StreamUtil.cpp\<close>. The target is a little-endian host with 64-bit \<open>unsigned long\<close>
  (Linux x86-64), so an integer lies in memory with its lowest byte first (\<open>mem16\<close>,
  \<open>mem32\<close>, \<open>mem64\<close>), and Boost's \<open>host_to_network_long\<close> and
  \<open>host_to_network_short\<close>, that is POSIX \<open>htonl\<close> and \<open>htons\<close>, reverse the bytes.
  The lemmas show that every pair of a conversion and a memory copy is a big-endian codec,
  and the interpretations give the readers and writers the contracts of the prelude.
\<close>

subsection \<open>Integers in memory\<close>

definition mem16 :: "u16 \<Rightarrow> bytes" where
  "mem16 v = [ucast v, ucast (drop_bit 8 v)]"

definition mem32 :: "u32 \<Rightarrow> bytes" where
  "mem32 v = le32 v"

definition mem64 :: "u64 \<Rightarrow> bytes" where
  "mem64 v = rev (be64 v)"

definition load16 :: "byte \<Rightarrow> byte \<Rightarrow> u16" where
  "load16 a b = of_be16 b a"

definition load32 :: "byte \<Rightarrow> byte \<Rightarrow> byte \<Rightarrow> byte \<Rightarrow> u32" where
  "load32 a b c d = of_be32 d c b a"

definition load64 :: "byte \<Rightarrow> byte \<Rightarrow> byte \<Rightarrow> byte \<Rightarrow> byte \<Rightarrow> byte \<Rightarrow> byte \<Rightarrow> byte \<Rightarrow> u64" where
  "load64 a b c d e f g h = of_be64 h g f e d c b a"

subsection \<open>NetworkUtil.cpp\<close>

definition host_to_network_long :: "u32 \<Rightarrow> u32" where
  "host_to_network_long v =
     of_be32 (ucast v) (ucast (drop_bit 8 v)) (ucast (drop_bit 16 v)) (ucast (drop_bit 24 v))"

definition host_to_network_short :: "u16 \<Rightarrow> u16" where
  "host_to_network_short v = of_be16 (ucast v) (ucast (drop_bit 8 v))"

definition hton_4 :: "u64 \<Rightarrow> u64" where
  "hton_4 v = ucast (host_to_network_long (ucast v))"

definition hton_8 :: "u64 \<Rightarrow> u64" where
  "hton_8 value = (if 1 = hton_4 1 then value else
     drop_bit 56 (value AND 0xff00000000000000)
     OR drop_bit 40 (value AND 0x00ff000000000000)
     OR drop_bit 24 (value AND 0x0000ff0000000000)
     OR drop_bit 8 (value AND 0x000000ff00000000)
     OR push_bit 8 (value AND 0x00000000ff000000)
     OR push_bit 24 (value AND 0x0000000000ff0000)
     OR push_bit 40 (value AND 0x000000000000ff00)
     OR push_bit 56 (value AND 0x00000000000000ff))"

definition hton_3 :: "u64 \<Rightarrow> u64" where
  "hton_3 value = (if 1 = hton_4 1 then value else drop_bit 8 (hton_4 value))"

definition hton_2 :: "u16 \<Rightarrow> u16" where
  "hton_2 value = host_to_network_short value"

definition ntoh_4 :: "u64 \<Rightarrow> u64" where
  "ntoh_4 v = ucast (host_to_network_long (ucast v))"

definition ntoh_8 :: "u64 \<Rightarrow> u64" where
  "ntoh_8 value = (if 1 = ntoh_4 1 then value else
     drop_bit 56 (value AND 0xff00000000000000)
     OR drop_bit 40 (value AND 0x00ff000000000000)
     OR drop_bit 24 (value AND 0x0000ff0000000000)
     OR drop_bit 8 (value AND 0x000000ff00000000)
     OR push_bit 8 (value AND 0x00000000ff000000)
     OR push_bit 24 (value AND 0x0000000000ff0000)
     OR push_bit 40 (value AND 0x000000000000ff00)
     OR push_bit 56 (value AND 0x00000000000000ff))"

definition ntoh_3 :: "u64 \<Rightarrow> u64" where
  "ntoh_3 value = (if 1 = ntoh_4 1 then value else drop_bit 8 (ntoh_4 value))"

definition ntoh_2 :: "u16 \<Rightarrow> u16" where
  "ntoh_2 value = host_to_network_short value"

lemma hton_4_1: "hton_4 1 = 0x1000000" "ntoh_4 1 = 0x1000000"
  by code_simp+

lemma mask_bytes:
  "(0xff :: u64) = push_bit 0 (mask 8)" "(0xff00 :: u64) = push_bit 8 (mask 8)"
  "(0xff0000 :: u64) = push_bit 16 (mask 8)" "(0xff000000 :: u64) = push_bit 24 (mask 8)"
  "(0xff00000000 :: u64) = push_bit 32 (mask 8)" "(0xff0000000000 :: u64) = push_bit 40 (mask 8)"
  "(0xff000000000000 :: u64) = push_bit 48 (mask 8)"
  "(0xff00000000000000 :: u64) = push_bit 56 (mask 8)"
  by code_simp+

text \<open>The eight masked shifts reverse the bytes; an 8-byte conversion is its own inverse.\<close>

lemma ntoh_8_load: "ntoh_8 (load64 a b c d e f g h) = of_be64 a b c d e f g h"
proof (rule bit_word_eqI)
  fix n assume n: "n < LENGTH(64)"
  then consider "n < 8" | "8 \<le> n" "n < 16" | "16 \<le> n" "n < 24" | "24 \<le> n" "n < 32"
    | "32 \<le> n" "n < 40" | "40 \<le> n" "n < 48" | "48 \<le> n" "n < 56" | "56 \<le> n" "n < 64"
    by fastforce
  then show "bit (ntoh_8 (load64 a b c d e f g h)) n = bit (of_be64 a b c d e f g h) n"
    unfolding ntoh_8_def load64_def of_be64_def hton_4_1 mask_bytes
    by cases (auto simp: codec_bit_simps less_diff_conv2)
qed

lemma hton_8_ntoh_8: "hton_8 = ntoh_8"
  by (rule ext) (simp only: hton_8_def ntoh_8_def hton_4_1)

lemma ucast_u32_u64 [simp]: "ucast (ucast (v :: u32) :: u64) = v"
  by (rule bit_word_eqI) (simp add: bit_ucast_iff)

lemma mem32_hton_4 [byte_simps]: "mem32 (ucast (hton_4 (ucast v))) = be32 v"
  by (simp add: mem32_def hton_4_def host_to_network_long_def le32_rev) (simp add: be32_def)

lemma mem16_hton_2 [byte_simps]: "mem16 (hton_2 v) = be16 v"
proof -
  have "mem16 w = rev (be16 w)" for w by (simp add: mem16_def be16_def)
  then show ?thesis
    using be16_of_be16 [of "ucast v" "ucast (drop_bit 8 v)"]
    by (simp add: hton_2_def host_to_network_short_def) (simp add: be16_def)
qed

lemma mem64_ntoh_8 [byte_simps]: "mem64 (ntoh_8 v) = be64 v"
proof -
  have v: "v = load64 (ucast v) (ucast (drop_bit 8 v)) (ucast (drop_bit 16 v))
      (ucast (drop_bit 24 v)) (ucast (drop_bit 32 v)) (ucast (drop_bit 40 v))
      (ucast (drop_bit 48 v)) (ucast (drop_bit 56 v))"
    by (simp add: load64_def)
  show ?thesis
    by (subst v, subst ntoh_8_load) (simp add: mem64_def be64_def [of v])
qed

lemma hton_3_eq: "hton_3 v = drop_bit 8 (hton_4 v)"
  by (simp add: hton_3_def hton_4_1)

lemma mem32_hton_3 [byte_simps]: "take 3 (mem32 (ucast (hton_3 (ucast v)))) = be24 v"
proof -
  have "ucast (drop_bit 8 (ucast w :: u64)) = drop_bit 8 (w :: u32)" for w
    by (rule bit_word_eqI) (auto simp: codec_bit_simps dest: bit_imp_le_length)
  moreover have "le32 (drop_bit 8 w) = rev (take 3 (be32 w)) @ [0]" for w :: u32
    by (auto simp: le32_def be32_def codec_bit_simps dest: bit_imp_le_length intro!: bit_word_eqI)
  ultimately show ?thesis
    by (simp add: hton_3_eq hton_4_def mem32_def host_to_network_long_def) (simp add: be24_def)
qed

text \<open>
  A read into three bytes of an uninitialised \<open>unsigned int\<close>: the fourth byte in memory
  is whatever was there, and \<open>ntoh_3\<close> shifts it out.
\<close>

lemma ntoh_3_load [byte_simps]:
  "(ucast (ntoh_3 (ucast (load32 a b c junk))) :: u32) = of_be24 a b c"
proof -
  have sw: "host_to_network_long (load32 a b c junk) = of_be32 a b c junk"
    using be32_of_be32 [of junk c b a]
    by (simp add: host_to_network_long_def load32_def be32_def)
  have "ucast (drop_bit 8 (ucast (of_be32 a b c junk) :: u64)) = of_be24 a b c"
    by (rule bit_word_eqI)
      (auto simp: codec_bit_simps of_be32_def of_be24_def less_diff_conv2)
  then show ?thesis
    by (simp add: ntoh_3_def hton_4_1) (simp add: ntoh_4_def sw)
qed

lemma ntoh_4_load [byte_simps]:
  "(ucast (ntoh_4 (ucast (load32 a b c d))) :: u32) = of_be32 a b c d"
  using be32_of_be32 [of d c b a]
  by (simp add: ntoh_4_def host_to_network_long_def load32_def be32_def)

lemma ntoh_2_load [byte_simps]: "ntoh_2 (load16 a b) = of_be16 a b"
  using be16_of_be16 [of b a] by (simp add: ntoh_2_def host_to_network_short_def load16_def be16_def)

subsection \<open>StreamUtil.cpp: reading\<close>

text \<open>
  \<open>check_redable_length\<close> compares \<open>in_avail\<close> with a \<open>size_t\<close>. The reads themselves do not
  check ("need stream size checking"); a read past the end takes what is left and fails the
  stream, which the model returns as \<open>None\<close>.
\<close>

definition get_readable_length :: "bytes \<Rightarrow> nat" where
  "get_readable_length s = length s"

definition check_redable_length :: "bytes \<Rightarrow> nat \<Rightarrow> bool" where
  "check_redable_length s len = (if get_readable_length s < len then False else True)"

text \<open>\<open>seekg\<close> by a positive offset; the negative offsets of the code undo a read and are
  modelled by keeping the stream of before the read.\<close>

definition change_relative_position_istream :: "bytes \<Rightarrow> nat \<Rightarrow> bytes" where
  "change_relative_position_istream s relative_position = drop relative_position s"

definition read_char :: "bytes \<Rightarrow> byte option \<times> bytes" where
  "read_char s = (case s of a # r \<Rightarrow> (Some a, r) | _ \<Rightarrow> (None, []))"

definition read_uchar :: "bytes \<Rightarrow> byte option \<times> bytes" where
  "read_uchar s = (case s of a # r \<Rightarrow> (Some a, r) | _ \<Rightarrow> (None, []))"

definition read_short :: "bool \<Rightarrow> bytes \<Rightarrow> u16 option \<times> bytes" where
  "read_short use_ntoh s = (case s of
     a # b # r \<Rightarrow> (Some (if use_ntoh then ntoh_2 (load16 a b) else load16 a b), r)
   | _ \<Rightarrow> (None, []))"

definition read_ushort :: "bool \<Rightarrow> bytes \<Rightarrow> u16 option \<times> bytes" where
  "read_ushort use_ntoh s = (case s of
     a # b # r \<Rightarrow> (Some (if use_ntoh then ntoh_2 (load16 a b) else load16 a b), r)
   | _ \<Rightarrow> (None, []))"

text \<open>\<open>read_int\<close> reads two bytes over the low half of the caller's variable \<open>readed\<close>.\<close>

definition read_int :: "u32 \<Rightarrow> bool \<Rightarrow> bytes \<Rightarrow> u32 option \<times> bytes" where
  "read_int readed use_ntoh s = (case s of
     a # b # r \<Rightarrow>
       (let v = load32 a b (ucast (drop_bit 16 readed)) (ucast (drop_bit 24 readed))
        in (Some (if use_ntoh then ucast (ntoh_4 (ucast v)) else v), r))
   | _ \<Rightarrow> (None, []))"

definition read_uint :: "bool \<Rightarrow> bytes \<Rightarrow> u32 option \<times> bytes" where
  "read_uint use_ntoh s = (case s of
     a # b # c # d # r \<Rightarrow>
       (Some (if use_ntoh then ucast (ntoh_4 (ucast (load32 a b c d))) else load32 a b c d), r)
   | _ \<Rightarrow> (None, []))"

text \<open>A \<open>double\<close> is its 64-bit IEEE 754 pattern.\<close>

definition read_double :: "bool \<Rightarrow> bytes \<Rightarrow> u64 option \<times> bytes" where
  "read_double use_ntoh s = (case s of
     a # b # c # d # e # f # g # h # r \<Rightarrow>
       (Some (if use_ntoh then ntoh_8 (load64 a b c d e f g h) else load64 a b c d e f g h), r)
   | _ \<Rightarrow> (None, []))"

subsection \<open>StreamUtil.cpp: writing\<close>

definition write_char :: "byte \<Rightarrow> wst \<Rightarrow> wst" where
  "write_char data os = (fst os @ [data], snd os + 1)"

definition write_uchar :: "byte \<Rightarrow> wst \<Rightarrow> wst" where
  "write_uchar data os = (fst os @ [data], snd os + 1)"

definition write_short :: "u16 \<Rightarrow> bool \<Rightarrow> wst \<Rightarrow> wst" where
  "write_short data use_hton os =
     (let data = (if use_hton then hton_2 data else data)
      in (fst os @ mem16 data, snd os + 2))"

definition write_int :: "u32 \<Rightarrow> bool \<Rightarrow> wst \<Rightarrow> wst" where
  "write_int data use_hton os =
     (let data = (if use_hton then ucast (hton_4 (ucast data)) else data)
      in (fst os @ mem32 data, snd os + 4))"

definition write_double :: "u64 \<Rightarrow> bool \<Rightarrow> wst \<Rightarrow> wst" where
  "write_double data use_hton os =
     (let data = (if use_hton then ntoh_8 data else data)
      in (fst os @ mem64 data, snd os + 8))"

definition write_ushort :: "u16 \<Rightarrow> bool \<Rightarrow> wst \<Rightarrow> wst" where
  "write_ushort data use_hton os =
     (let data = (if use_hton then hton_2 data else data)
      in (fst os @ mem16 data, snd os + 2))"

definition write_uint :: "u32 \<Rightarrow> bool \<Rightarrow> wst \<Rightarrow> wst" where
  "write_uint data use_hton os =
     (let data = (if use_hton then ucast (hton_4 (ucast data)) else data)
      in (fst os @ mem32 data, snd os + 4))"

definition write_uint_3 :: "u32 \<Rightarrow> bool \<Rightarrow> wst \<Rightarrow> wst" where
  "write_uint_3 data use_hton os =
     (let data = (if use_hton then ucast (hton_3 (ucast data)) else data)
      in (fst os @ take 3 (mem32 data), snd os + 3))"

text \<open>\<open>stream.write(buf, len)\<close> with the counter advanced by \<open>len\<close>.\<close>

definition write_bytes :: "bytes \<Rightarrow> wst \<Rightarrow> wst" where
  "write_bytes bs os = (fst os @ bs, snd os + length bs)"

subsection \<open>The contracts\<close>

interpretation write_char: appender "write_char b" "[b]"
  by unfold_locales (simp add: write_char_def)

interpretation write_uchar: appender "write_uchar b" "[b]"
  by unfold_locales (simp add: write_uchar_def)

interpretation write_short: appender "write_short v True" "be16 v"
  by unfold_locales (simp add: write_short_def byte_simps)

interpretation write_ushort: appender "write_ushort v True" "be16 v"
  by unfold_locales (simp add: write_ushort_def byte_simps)

interpretation write_int: appender "write_int w True" "be32 w"
  by unfold_locales (simp add: write_int_def byte_simps)

interpretation write_uint: appender "write_uint w True" "be32 w"
  by unfold_locales (simp add: write_uint_def byte_simps)

interpretation write_uint_le: appender "write_uint w False" "le32 w"
  by unfold_locales (simp add: write_uint_def mem32_def)

interpretation write_uint_3: appender "write_uint_3 w True" "be24 w"
  by unfold_locales (simp add: write_uint_3_def byte_simps)

interpretation write_double: appender "write_double x True" "be64 x"
  by unfold_locales (simp add: write_double_def byte_simps)

interpretation write_bytes: appender "write_bytes bs" bs
  by unfold_locales (simp add: write_bytes_def)

lemmas stream_writers [byte_simps] =
  write_char.appends write_uchar.appends write_short.appends write_ushort.appends
  write_int.appends write_uint.appends write_uint_le.appends write_uint_3.appends
  write_double.appends write_bytes.appends

interpretation read_uchar: byte_codec read_uchar "\<lambda>b. [b]" "\<lambda>_. True"
  by unfold_locales (auto simp: read_uchar_def split: list.split intro: suffix_ConsI)

interpretation read_char: byte_codec read_char "\<lambda>b. [b]" "\<lambda>_. True"
  by unfold_locales (auto simp: read_char_def split: list.split intro: suffix_ConsI)

interpretation read_short: byte_codec "read_short True" be16 "\<lambda>_. True"
  by unfold_locales
    (auto simp: read_short_def be16_def byte_simps split: list.split intro: suffix_ConsI)

interpretation read_ushort: byte_codec "read_ushort True" be16 "\<lambda>_. True"
  by unfold_locales
    (auto simp: read_ushort_def be16_def byte_simps split: list.split intro: suffix_ConsI)

interpretation read_uint: byte_codec "read_uint True" be32 "\<lambda>_. True"
  by unfold_locales
    (auto simp: read_uint_def be32_def byte_simps split: list.split intro: suffix_ConsI)

interpretation read_double: byte_codec "read_double True" be64 "\<lambda>_. True"
  by unfold_locales
    (auto simp: read_double_def be64_def ntoh_8_load suffix_Cons split: list.split)

lemmas stream_readers [reader_rest] =
  read_uchar.stream_reader_axioms read_char.stream_reader_axioms read_short.stream_reader_axioms
  read_ushort.stream_reader_axioms read_uint.stream_reader_axioms read_double.stream_reader_axioms

end
