(* ===== verification/Serial_Number.thy ===== *)
theory Serial_Number
  imports Rtmp_Prelude
begin

text \<open>
  RFC 1982 serial numbers, \<open>rtmps/src/sna.h\<close>: the arithmetic the payload parser uses to turn
  the 32-bit timestamps of RTMP messages into unbounded ones. The class is a record of its
  members; \<open>uint64_t\<close> is a 64-bit word and \<open>uint32_t rollover_count\<close> a 32-bit word, so every
  wrap-around of the code is one of the model. A function that throws returns \<open>Inl\<close> of the
  exception, and a reference parameter is returned beside the result. The lemmas relate a
  serial number to the number it abbreviates.
\<close>

datatype sna_error = different_serialbits | fails_to_add_too_big_value

record serialnumber =
  serialbits :: nat
  divisor :: u64
  half_divisor :: u64
  number :: u64
  max_add_number :: u64

text \<open>The constructor; \<open>std::pow(2, n)\<close> is exact for the sizes below 64 bits.\<close>

definition make_sn :: "u64 \<Rightarrow> nat \<Rightarrow> serialnumber" where
  "make_sn value size_in_bits = (let d = push_bit size_in_bits 1; h = push_bit (size_in_bits - 1) 1 in
     \<lparr> serialbits = size_in_bits, divisor = d, half_divisor = h, number = value mod d,
       max_add_number = h - 1 \<rparr>)"

definition sn_eq :: "serialnumber \<Rightarrow> serialnumber \<Rightarrow> bool" where
  "sn_eq n p \<longleftrightarrow> number n = number p"

definition sn_ne :: "serialnumber \<Rightarrow> serialnumber \<Rightarrow> bool" where
  "sn_ne n p \<longleftrightarrow> number n \<noteq> number p"

definition sn_lt :: "serialnumber \<Rightarrow> serialnumber \<Rightarrow> bool" where
  "sn_lt n p \<longleftrightarrow> (number n < number p \<and> number p - number n < half_divisor n)
     \<or> (number n > number p \<and> number n - number p > half_divisor n)"

definition sn_gt :: "serialnumber \<Rightarrow> serialnumber \<Rightarrow> bool" where
  "sn_gt n p \<longleftrightarrow> (number n < number p \<and> number p - number n > half_divisor n)
     \<or> (number n > number p \<and> number n - number p < half_divisor n)"

definition sn_le :: "serialnumber \<Rightarrow> serialnumber \<Rightarrow> bool" where
  "sn_le n p \<longleftrightarrow> sn_eq n p \<or> sn_lt n p"

definition sn_ge :: "serialnumber \<Rightarrow> serialnumber \<Rightarrow> bool" where
  "sn_ge n p \<longleftrightarrow> sn_eq n p \<or> sn_gt n p"

text \<open>The member function \<open>add\<close>, which changes the object.\<close>

definition sn_add :: "serialnumber \<Rightarrow> serialnumber \<Rightarrow> sna_error + u64 \<times> serialnumber" where
  "sn_add n p =
     (if serialbits n \<noteq> serialbits p then Inl different_serialbits
      else if number p \<le> max_add_number n then
        (let m = (number n + number p) mod divisor n in Inr (m, n\<lparr>number := m\<rparr>))
      else Inl fails_to_add_too_big_value)"

definition is_rolled_over :: "serialnumber \<Rightarrow> serialnumber \<Rightarrow> bool" where
  "is_rolled_over pre next \<longleftrightarrow>
     serialbits pre = serialbits next \<and> number next < number pre \<and> sn_gt next pre"

definition unroll_count :: "serialnumber \<Rightarrow> u32 \<Rightarrow> u64" where
  "unroll_count sn rollover_count = divisor sn * ucast rollover_count + number sn"

definition unroll :: "serialnumber \<Rightarrow> serialnumber \<Rightarrow> u32 \<Rightarrow> sna_error + u64 \<times> u32" where
  "unroll sn pre rollover_count =
     (if serialbits pre \<noteq> serialbits sn then Inl different_serialbits
      else if is_rolled_over pre sn then
        (let rollover_count = rollover_count + 1
         in Inr (unroll_count sn rollover_count, rollover_count))
      else Inr (unroll_count sn rollover_count, rollover_count))"

definition add :: "serialnumber \<Rightarrow> u64 \<Rightarrow> u32 \<Rightarrow> sna_error + serialnumber \<times> u32" where
  "add s1 delta rollover_count =
     (if delta \<le> max_add_number s1 then
        (let s2 = make_sn (number s1 + delta) (serialbits s1)
         in Inr (s2, if is_rolled_over s1 s2 then rollover_count + 1 else rollover_count))
      else Inl fails_to_add_too_big_value)"

subsection \<open>Serial numbers of 32 bits as natural numbers\<close>

text \<open>Every serial number of the server has 32 bits, the default of the constructor.\<close>

abbreviation sn32 :: "u64 \<Rightarrow> serialnumber" where
  "sn32 v \<equiv> make_sn v 32"

abbreviation wrap :: nat where
  "wrap \<equiv> 4294967296"

lemma sn32_fields [simp]:
  "serialbits (sn32 v) = 32" "divisor (sn32 v) = 0x100000000" "half_divisor (sn32 v) = 0x80000000"
  "max_add_number (sn32 v) = 0x7FFFFFFF" "number (sn32 v) = v mod 0x100000000"
  by (simp_all add: make_sn_def Let_def push_bit_eq_mult)

lemma unat_number [simp]: "unat (number (sn32 v)) = unat v mod wrap"
  by (simp add: unat_mod)

lemma unat_diff: "unat b < unat a \<Longrightarrow> unat (a - b :: u64) = unat a - unat b"
  by (simp add: unat_sub word_le_nat_alt)

lemma sn_gt_nat:
  "sn_gt n p \<longleftrightarrow> (unat (number n) < unat (number p) \<and> unat (number p) - unat (number n) > unat (half_divisor n))
     \<or> (unat (number n) > unat (number p) \<and> unat (number n) - unat (number p) < unat (half_divisor n))"
  by (auto simp: sn_gt_def word_less_nat_alt unat_diff)

lemma sn_lt_nat:
  "sn_lt n p \<longleftrightarrow> (unat (number n) < unat (number p) \<and> unat (number p) - unat (number n) < unat (half_divisor n))
     \<or> (unat (number n) > unat (number p) \<and> unat (number n) - unat (number p) > unat (half_divisor n))"
  by (auto simp: sn_lt_def word_less_nat_alt unat_diff)

lemma is_rolled_over_32:
  "is_rolled_over (sn32 a) (sn32 b) \<longleftrightarrow> unat b mod wrap + 2147483648 < unat a mod wrap"
  by (auto simp: is_rolled_over_def sn_gt_nat word_less_nat_alt unat_mod)

text \<open>Over a step of less than half the range, a wrap is a change of the quotient.\<close>

lemma step_mod_wrap:
  assumes "a \<le> b" and "b < a + 2147483648"
  shows "b mod wrap + 2147483648 < a mod wrap \<longleftrightarrow> b div wrap = Suc (a div wrap)"
    and "b div wrap = a div wrap \<or> b div wrap = Suc (a div wrap)"
proof -
  let ?q = "a div wrap" and ?p = "b div wrap"
  have a: "a = wrap * ?q + a mod wrap" and b: "b = wrap * ?p + b mod wrap" by simp_all
  have ra: "a mod wrap < wrap" and rb: "b mod wrap < wrap" by simp_all
  have "?q \<le> ?p" using assms(1) by (rule div_le_mono)
  moreover have "?p < ?q + 2" using a b ra rb assms by linarith
  ultimately show two: "?p = ?q \<or> ?p = Suc ?q" by linarith
  show "b mod wrap + 2147483648 < a mod wrap \<longleftrightarrow> ?p = Suc ?q"
  proof (cases "?p = ?q")
    case True
    then have "b = wrap * ?q + b mod wrap" using b by simp
    then have "a mod wrap \<le> b mod wrap" using a assms(1) by linarith
    then show ?thesis using True by simp
  next
    case False
    then have p: "?p = Suc ?q" using two by blast
    then have "b = wrap * ?q + wrap + b mod wrap" using b by simp
    then have "b mod wrap + 2147483648 < a mod wrap" using a assms(2) by linarith
    then show ?thesis using p by simp
  qed
qed

lemma unat_unroll_count:
  assumes "unat v div wrap < wrap" and "r = of_nat (unat v div wrap)"
  shows "unroll_count (sn32 v) r = v"
proof -
  have "unat (0x100000000 * ucast r + v mod 0x100000000 :: u64) = unat v"
  proof -
    have r: "unat (ucast r :: u64) = unat v div wrap"
      using assms by (simp add: unsigned_ucast_eq take_bit_nat_eq_self unsigned_of_nat take_bit_eq_mod)
    have "wrap * (unat v div wrap) + unat v mod wrap = unat v" by simp
    moreover have "unat v < 2 ^ 64" using unsigned_less [of v] by simp
    ultimately show ?thesis
      by (simp add: unat_word_ariths r unat_mod)
  qed
  then show ?thesis
    unfolding unroll_count_def sn32_fields by (rule unsigned_word_eqI)
qed

text \<open>The wire carries the low 32 bits.\<close>

lemma sn32_wire: "sn32 (ucast (ucast t :: u32)) = sn32 t"
proof -
  have "(ucast (ucast t :: u32) :: u64) mod 0x100000000 = t mod 0x100000000"
    by (simp add: word_unat_eq_iff unat_mod unsigned_ucast_eq take_bit_eq_mod)
  then show ?thesis by (simp add: make_sn_def Let_def push_bit_eq_mult)
qed

definition epoch :: "u64 \<Rightarrow> u32" where
  "epoch t = of_nat (unat t div wrap)"

lemma epoch_small: "unat (t :: u64) div wrap < wrap"
proof -
  have "unat t < 2 ^ 64" using unsigned_less [of t] by simp
  then show ?thesis by simp
qed

lemma unroll_count_epoch: "unroll_count (sn32 t) (epoch t) = t"
  using epoch_small by (intro unat_unroll_count) (auto simp: epoch_def)

lemma unroll_step:
  assumes "unat t0 \<le> unat t1" and "unat t1 < unat t0 + 2147483648"
  shows "unroll (sn32 t1) (sn32 t0) (epoch t0) = Inr (t1, epoch t1)"
proof -
  note step = step_mod_wrap [OF assms]
  have e: "(if is_rolled_over (sn32 t0) (sn32 t1) then epoch t0 + 1 else epoch t0) = epoch t1"
    using step by (auto simp: is_rolled_over_32 epoch_def)
  then show ?thesis
    using unroll_count_epoch [of t1] by (auto simp: unroll_def Let_def split: if_splits)
qed

subsection \<open>Unrolling a stream of timestamps\<close>

text \<open>
  What the payload parser does with the timestamps of consecutive full headers: each is
  unrolled against the one before, and the rollover count is carried along.
\<close>

fun unroll_stream :: "u32 \<Rightarrow> u32 \<Rightarrow> u32 list \<Rightarrow> u64 list option" where
  "unroll_stream pre rollover_count [] = Some []"
| "unroll_stream pre rollover_count (t # ts) =
     (case unroll (sn32 (ucast t)) (sn32 (ucast pre)) rollover_count of
        Inl e \<Rightarrow> None
      | Inr (v, r) \<Rightarrow> map_option ((#) v) (unroll_stream t r ts))"

fun steps_ok :: "u64 \<Rightarrow> u64 list \<Rightarrow> bool" where
  "steps_ok t0 [] \<longleftrightarrow> True"
| "steps_ok t0 (t # ts) \<longleftrightarrow> unat t0 \<le> unat t \<and> unat t < unat t0 + 2147483648 \<and> steps_ok t ts"

text \<open>C29: timestamps that never go back and advance by less than half the 32-bit range between
  two messages are recovered exactly from their low 32 bits, over any number of rollovers.\<close>

theorem unroll_stream_exact:
  assumes "steps_ok t0 ts"
  shows "unroll_stream (ucast t0) (epoch t0) (map ucast ts) = Some ts"
  using assms
  by (induction ts arbitrary: t0) (auto simp: sn32_wire unroll_step)

theorem unroll_stream_exact_witness:
  "unroll_stream 0xFFFFFF00 0 (map ucast [0xFFFFFFFF :: u64, 0x100000010, 0x100000010, 0x17FFFFFFF])
     = Some [0xFFFFFFFF, 0x100000010, 0x100000010, 0x17FFFFFFF]"
  using unroll_stream_exact
    [of "0xFFFFFF00" "[0xFFFFFFFF, 0x100000010, 0x100000010, 0x17FFFFFFF]"]
  by (simp add: epoch_def)

text \<open>A timestamp that goes back over a rollover is placed one full range too late: the
  count is never decremented. Within the same range a backward step is exact.\<close>

theorem unroll_backwards:
  assumes "unat t1 \<le> unat t0" and "unat t0 < unat t1 + 2147483648"
  shows "unroll (sn32 t1) (sn32 t0) (epoch t0) =
    Inr (if epoch t1 = epoch t0 then t1 else t1 + 0x100000000, epoch t0)"
proof -
  note step = step_mod_wrap [OF assms]
  note small = epoch_small
  have eq: "epoch t1 = epoch t0 \<longleftrightarrow> unat t1 div wrap = unat t0 div wrap"
    using small [of t0] small [of t1]
    by (auto simp: epoch_def word_unat_eq_iff unsigned_of_nat take_bit_nat_eq_self)
  have "\<not> is_rolled_over (sn32 t0) (sn32 t1)"
  proof
    assume "is_rolled_over (sn32 t0) (sn32 t1)"
    then have "unat t1 mod wrap + 2147483648 < unat t0 mod wrap" by (simp add: is_rolled_over_32)
    moreover have "wrap * (unat t1 div wrap) \<le> wrap * (unat t0 div wrap)"
      using step(2) by auto
    moreover have "wrap * (unat t0 div wrap) + unat t0 mod wrap = unat t0"
      and "wrap * (unat t1 div wrap) + unat t1 mod wrap = unat t1" by simp_all
    ultimately show False using assms(2) by linarith
  qed
  moreover have "unroll_count (sn32 t1) (epoch t0) =
      (if epoch t1 = epoch t0 then t1 else t1 + 0x100000000)"
  proof (cases "epoch t1 = epoch t0")
    case True
    then show ?thesis using unroll_count_epoch [of t1] by simp
  next
    case False
    then have "epoch t0 = epoch t1 + 1" using step(2) eq by (auto simp: epoch_def)
    moreover have "(ucast (epoch t1 + 1) :: u64) = ucast (epoch t1) + 1"
      using False step(2) eq small [of t0]
      by (auto simp: epoch_def word_unat_eq_iff unsigned_ucast_eq unat_word_ariths unsigned_of_nat
          take_bit_nat_eq_self)
    ultimately have "unroll_count (sn32 t1) (epoch t0)
        = unroll_count (sn32 t1) (epoch t1) + 0x100000000"
      by (simp add: unroll_count_def algebra_simps)
    then show ?thesis using False by (simp add: unroll_count_epoch)
  qed
  ultimately show ?thesis by (simp add: unroll_def)
qed

theorem unroll_backwards_witness:
  "unroll (sn32 0xFFFFFFF0) (sn32 0x100000010) 1 = Inr (0x1FFFFFFF0, 1)"
  using unroll_backwards [of "0xFFFFFFF0" "0x100000010"] by (simp add: epoch_def)

subsection \<open>Order and addition\<close>

lemma sn_lt_32:
  "sn_lt (sn32 a) (sn32 b) \<longleftrightarrow>
     (unat a mod wrap < unat b mod wrap \<and> unat b mod wrap < unat a mod wrap + 2147483648)
   \<or> (unat b mod wrap + 2147483648 < unat a mod wrap)"
  by (auto simp: sn_lt_nat unat_mod)

lemma sn_gt_32: "sn_gt (sn32 a) (sn32 b) \<longleftrightarrow> sn_lt (sn32 b) (sn32 a)"
  by (auto simp: sn_lt_32 sn_gt_nat unat_mod)

text \<open>The order of RFC 1982: \<open>gt\<close> is the converse of \<open>lt\<close>, never both hold, and two
  different numbers are unrelated exactly when they are half the range apart.\<close>

theorem sn_order:
  fixes a b :: u64
  defines "x \<equiv> sn32 a" and "y \<equiv> sn32 b"
  shows "(sn_gt x y \<longleftrightarrow> sn_lt y x) \<and> \<not> (sn_lt x y \<and> sn_gt x y)
    \<and> (sn_eq x y \<or> sn_lt x y \<or> sn_gt x y
        \<longleftrightarrow> unat (number x) \<noteq> unat (number y) + 2147483648
          \<and> unat (number y) \<noteq> unat (number x) + 2147483648)"
proof -
  define i j where "i = unat a mod wrap" and "j = unat b mod wrap"
  have "i < wrap" "j < wrap" by (simp_all add: i_def j_def)
  moreover have "sn_eq x y \<longleftrightarrow> i = j"
    by (auto simp: sn_eq_def x_def y_def i_def j_def word_unat_eq_iff unat_mod)
  ultimately show ?thesis
    unfolding x_def y_def sn_gt_32 sn_lt_32 unat_number i_def [symmetric] j_def [symmetric]
    by auto
qed

theorem sn_order_witness:
  "(sn_gt (sn32 5) (sn32 0xFFFFFFFF) \<longleftrightarrow> sn_lt (sn32 0xFFFFFFFF) (sn32 5))
    \<and> sn_lt (sn32 0xFFFFFFFF) (sn32 5)"
  using sn_order [of 5 "0xFFFFFFFF"] by (simp add: sn_lt_32)

text \<open>C30: adding a delta to a serial number is addition of the numbers behind it, the rollover
  count counting the full ranges; a delta of half the range or more throws.\<close>

theorem add_exact:
  assumes "unat t + unat delta < 2 ^ 64"
  shows "add (sn32 t) delta (epoch t) =
    (if unat delta < 2147483648 then Inr (sn32 (t + delta), epoch (t + delta))
     else Inl fails_to_add_too_big_value)"
proof -
  have sum: "unat (t + delta) = unat t + unat delta"
    using assms by (simp add: unat_word_ariths)
  have part: "unat (t mod 0x100000000 + delta) = unat t mod wrap + unat delta"
  proof -
    have "unat t mod wrap \<le> unat t" by (rule mod_less_eq_dividend)
    then have "unat t mod wrap + unat delta < 2 ^ 64" using assms by linarith
    then show ?thesis by (simp add: unat_word_ariths unat_mod)
  qed
  have same: "sn32 (t mod 0x100000000 + delta) = sn32 (t + delta)"
    by (simp add: make_sn_def Let_def push_bit_eq_mult word_unat_eq_iff unat_mod part sum mod_add_left_eq)
  have le: "delta \<le> 0x7FFFFFFF \<longleftrightarrow> unat delta < 2147483648"
    by (auto simp: word_le_nat_alt)
  have "(if is_rolled_over (sn32 t) (sn32 (t + delta)) then epoch t + 1 else epoch t)
      = epoch (t + delta)" if "unat delta < 2147483648"
    using step_mod_wrap [of "unat t" "unat (t + delta)"] that
    by (auto simp: is_rolled_over_32 epoch_def sum)
  then show ?thesis by (simp add: add_def same le)
qed

theorem add_exact_witness:
  "add (sn32 0xFFFFFFF0) 0x20 0 = Inr (sn32 0x100000010, 1)
    \<and> add (sn32 0) 0x80000000 0 = Inl fails_to_add_too_big_value"
  using add_exact [of "0xFFFFFFF0" "0x20"] add_exact [of 0 "0x80000000"]
  by (simp add: epoch_def)

end
