(* ===== verification/Rtmp_Header.thy ===== *)
theory Rtmp_Header
  imports Stream_Util
begin

text \<open>
  The chunk headers of RTMP: \<open>protocol/RtmpHeader.hpp\<close>, \<open>RtmpHeader.cpp\<close> (the header and
  how it is written) and \<open>RtmpHeaderParser.cpp\<close> (the resumable state machine that reads it).
  The parser keeps one header object for the whole connection; the fields a short header does
  not carry keep the value of the header parsed before. \<open>buf_size\<close> is the number of bytes in
  the stream, as every caller passes it. The \<open>message_id\<close>, a number for the log, is left out.

  Shown: every state transition moves forward, so the loop ends; a header that has been
  written is read back whatever follows it; and a header that arrives in pieces is read as if it
  had arrived at once.
\<close>

subsection \<open>Header formats and message types\<close>

datatype format_type = FULL | SAME_STREAM | SAME_LENGTH_AND_STREAM | CONTINUATION | FORMAT_UNKNOWN

definition format_value :: "format_type \<Rightarrow> byte" where
  "format_value f = (case f of FULL \<Rightarrow> 0 | SAME_STREAM \<Rightarrow> 1 | SAME_LENGTH_AND_STREAM \<Rightarrow> 2
     | CONTINUATION \<Rightarrow> 3 | FORMAT_UNKNOWN \<Rightarrow> 0xFF)"

definition get_type :: "byte \<Rightarrow> format_type" where
  "get_type v =
     (if v \<noteq> 0 \<and> v \<noteq> 1 \<and> v \<noteq> 2 \<and> v \<noteq> 3 then FORMAT_UNKNOWN
      else if v = 0 then FULL else if v = 1 then SAME_STREAM
      else if v = 2 then SAME_LENGTH_AND_STREAM else CONTINUATION)"

datatype msg_type = CHUNKSIZE | ABORTMESSAGE | ACK | USRCTRL | WINACKSIZE | PEERBANDWIDTH
  | AUDIODATA | VIDEODATA | DATA_AMF3 | COMMAND_AMF3 | DATA_AMF0 | COMMAND_AMF0 | TYPE_UNKNOWN

definition msg_type_value :: "msg_type \<Rightarrow> byte" where
  "msg_type_value t = (case t of CHUNKSIZE \<Rightarrow> 1 | ABORTMESSAGE \<Rightarrow> 2 | ACK \<Rightarrow> 3 | USRCTRL \<Rightarrow> 4
     | WINACKSIZE \<Rightarrow> 5 | PEERBANDWIDTH \<Rightarrow> 6 | AUDIODATA \<Rightarrow> 8 | VIDEODATA \<Rightarrow> 9 | DATA_AMF3 \<Rightarrow> 15
     | COMMAND_AMF3 \<Rightarrow> 17 | DATA_AMF0 \<Rightarrow> 18 | COMMAND_AMF0 \<Rightarrow> 20 | TYPE_UNKNOWN \<Rightarrow> 0xFF)"

definition get_id :: "byte \<Rightarrow> msg_type" where
  "get_id v =
     (if v = 1 then CHUNKSIZE else if v = 2 then ABORTMESSAGE else if v = 3 then ACK
      else if v = 4 then USRCTRL else if v = 5 then WINACKSIZE else if v = 6 then PEERBANDWIDTH
      else if v = 8 then AUDIODATA else if v = 9 then VIDEODATA else if v = 15 then DATA_AMF3
      else if v = 17 then COMMAND_AMF3 else if v = 18 then DATA_AMF0
      else if v = 20 then COMMAND_AMF0 else TYPE_UNKNOWN)"

lemma get_type_value: "f \<noteq> FORMAT_UNKNOWN \<Longrightarrow> get_type (format_value f) = f"
  by (cases f) (simp_all add: get_type_def format_value_def)

lemma get_id_value [simp]: "get_id (msg_type_value t) = t"
  by (cases t) (simp_all add: get_id_def msg_type_value_def)

subsection \<open>The header\<close>

record rtmp_header =
  format_type :: format_type
  chunk_stream_id :: u32
  timestamp :: u32
  msg_length :: u32
  msg_type_id :: msg_type
  msg_stream_id :: u32
  timestamp_delta :: u32
  abs_timestamp :: u64

definition header_reset :: rtmp_header where
  "header_reset = \<lparr> format_type = FULL, chunk_stream_id = 0, timestamp = 0, msg_length = 0,
     msg_type_id = TYPE_UNKNOWN, msg_stream_id = 0, timestamp_delta = 0, abs_timestamp = 0 \<rparr>"

definition is_1byte_basic_header :: "rtmp_header \<Rightarrow> bool" where
  "is_1byte_basic_header h \<longleftrightarrow> chunk_stream_id h \<ge> 2 \<and> chunk_stream_id h \<le> 63"

definition is_2byte_basic_header :: "rtmp_header \<Rightarrow> bool" where
  "is_2byte_basic_header h \<longleftrightarrow> chunk_stream_id h \<ge> 64 \<and> chunk_stream_id h \<le> 319"

definition is_3byte_basic_header :: "rtmp_header \<Rightarrow> bool" where
  "is_3byte_basic_header h \<longleftrightarrow> chunk_stream_id h > 319 \<and> chunk_stream_id h \<le> 6559"

definition has_msg_len_and_type :: "rtmp_header \<Rightarrow> bool" where
  "has_msg_len_and_type h \<longleftrightarrow> format_type h = FULL \<or> format_type h = SAME_STREAM"

definition is_control_msg :: "rtmp_header \<Rightarrow> bool" where
  "is_control_msg h \<longleftrightarrow>
     msg_type_value (msg_type_id h) \<ge> 1 \<and> msg_type_value (msg_type_id h) \<le> 7"

definition is_command_msg :: "rtmp_header \<Rightarrow> bool" where
  "is_command_msg h \<longleftrightarrow> msg_type_id h = COMMAND_AMF0 \<or> msg_type_id h = COMMAND_AMF3"

definition is_data_msg :: "rtmp_header \<Rightarrow> bool" where
  "is_data_msg h \<longleftrightarrow> msg_type_id h = DATA_AMF0 \<or> msg_type_id h = DATA_AMF3"

definition is_video_msg :: "rtmp_header \<Rightarrow> bool" where
  "is_video_msg h \<longleftrightarrow> msg_type_id h = VIDEODATA"

definition is_audio_msg :: "rtmp_header \<Rightarrow> bool" where
  "is_audio_msg h \<longleftrightarrow> msg_type_id h = AUDIODATA"

text \<open>\<open>get_msg_length_pos\<close>: where the length field is in the written header; \<open>-1\<close> is \<open>None\<close>.\<close>

definition get_msg_length_pos :: "rtmp_header \<Rightarrow> nat option" where
  "get_msg_length_pos h =
     (if \<not> has_msg_len_and_type h then None
      else Some ((if is_1byte_basic_header h then 1 else if is_2byte_basic_header h then 2
        else if is_3byte_basic_header h then 3 else 0) + 3))"

subsection \<open>Writing a header\<close>

definition write_basic_header :: "rtmp_header \<Rightarrow> wst \<Rightarrow> wst" where
  "write_basic_header h =
     (if is_1byte_basic_header h then
        write_uchar (push_bit 6 (format_value (format_type h)) + ucast (chunk_stream_id h))
      else if is_2byte_basic_header h then
        writes [write_uchar (push_bit 6 (format_value (format_type h))),
          write_uchar (ucast (chunk_stream_id h - 64))]
      else if is_3byte_basic_header h then
        (let id_temp = chunk_stream_id h - 64 in
         writes [write_uchar (push_bit 6 (format_value (format_type h)) + 1),
           write_uchar (ucast (id_temp div 256)), write_uchar (ucast (id_temp mod 256))])
      else writes [])"

definition write_message_header :: "rtmp_header \<Rightarrow> wst \<Rightarrow> wst" where
  "write_message_header h = (case format_type h of
      FULL \<Rightarrow> writes [write_uint_3 (timestamp h) True, write_uint_3 (msg_length h) True,
        write_uchar (msg_type_value (msg_type_id h)), write_uint (msg_stream_id h) False]
    | SAME_STREAM \<Rightarrow> writes [write_uint_3 (timestamp_delta h) True,
        write_uint_3 (msg_length h) True, write_uchar (msg_type_value (msg_type_id h))]
    | SAME_LENGTH_AND_STREAM \<Rightarrow> writes [write_uint_3 (timestamp_delta h) True]
    | _ \<Rightarrow> writes [])"

definition write_header :: "rtmp_header \<Rightarrow> bytes \<Rightarrow> bytes \<times> nat" where
  "write_header h os = writes [write_basic_header h, write_message_header h] (os, 0)"

text \<open>The bytes of a header; \<open>write_header\<close> appends them and returns their number.\<close>

definition basic_header_bytes :: "rtmp_header \<Rightarrow> bytes" where
  "basic_header_bytes h =
     (let f = push_bit 6 (format_value (format_type h)); c = chunk_stream_id h in
      if is_1byte_basic_header h then [f + ucast c]
      else if is_2byte_basic_header h then [f, ucast (c - 64)]
      else if is_3byte_basic_header h
        then [f + 1, ucast ((c - 64) div 256), ucast ((c - 64) mod 256)]
      else [])"

definition message_header_bytes :: "rtmp_header \<Rightarrow> bytes" where
  "message_header_bytes h = (case format_type h of
      FULL \<Rightarrow> be24 (timestamp h) @ be24 (msg_length h) @ [msg_type_value (msg_type_id h)]
        @ le32 (msg_stream_id h)
    | SAME_STREAM \<Rightarrow> be24 (timestamp_delta h) @ be24 (msg_length h)
        @ [msg_type_value (msg_type_id h)]
    | SAME_LENGTH_AND_STREAM \<Rightarrow> be24 (timestamp_delta h)
    | _ \<Rightarrow> [])"

definition header_bytes :: "rtmp_header \<Rightarrow> bytes" where
  "header_bytes h = basic_header_bytes h @ message_header_bytes h"

interpretation write_basic_header: appender "write_basic_header h" "basic_header_bytes h"
  by unfold_locales (simp add: write_basic_header_def basic_header_bytes_def Let_def byte_simps)

interpretation write_message_header: appender "write_message_header h" "message_header_bytes h"
  by unfold_locales
    (simp add: write_message_header_def message_header_bytes_def byte_simps split: format_type.split)

lemma write_header_bytes [byte_simps]:
  "write_header h os = (os @ header_bytes h, length (header_bytes h))"
  by (simp add: write_header_def header_bytes_def byte_simps write_basic_header.appends
      write_message_header.appends)

subsection \<open>The parser\<close>

datatype parsing_state = BASIC_HEADER_1BYTE | BASIC_HEADER_2BYTE | BASIC_HEADER_3BYTE
  | CHUNK_MSG_HEADER_TYPE0 | CHUNK_MSG_HEADER_TYPE1 | CHUNK_MSG_HEADER_TYPE2
  | CHUNK_MSG_HEADER_TYPE3 | EXTENDED_TIMESTAMP | COMPLETE

record header_parser =
  parsing_state :: parsing_state
  parsed_msg :: rtmp_header

text \<open>\<open>boost::tribool\<close>.\<close>

datatype tribool = Yes | No | Indeterminate

text \<open>What a step returns: the result, \<open>readed_size\<close>, the stream and the parser after it.\<close>

type_synonym header_step = "tribool \<times> nat \<times> bytes \<times> header_parser"

definition header_parser_reset :: header_parser where
  "header_parser_reset = \<lparr> parsing_state = BASIC_HEADER_1BYTE, parsed_msg = header_reset \<rparr>"

definition get_chunk_header_parsing_state :: "byte \<Rightarrow> parsing_state" where
  "get_chunk_header_parsing_state header_format =
     (if header_format = 0 then CHUNK_MSG_HEADER_TYPE0
      else if header_format = 1 then CHUNK_MSG_HEADER_TYPE1
      else if header_format = 2 then CHUNK_MSG_HEADER_TYPE2
      else if header_format = 3 then CHUNK_MSG_HEADER_TYPE3
      else CHUNK_MSG_HEADER_TYPE0)"

text \<open>
  Three bytes read into the low end of an \<open>unsigned int\<close> and converted by \<open>ntoh_3\<close>; the
  uninitialised fourth byte is shifted out (\<open>ntoh_3_load\<close>) and taken to be 0.
\<close>

definition read_3 :: "byte \<Rightarrow> byte \<Rightarrow> byte \<Rightarrow> u32" where
  "read_3 a b c = ucast (ntoh_3 (ucast (load32 a b c 0)))"

definition parse_basic_header_1byte :: "header_parser \<Rightarrow> bytes \<Rightarrow> header_step" where
  "parse_basic_header_1byte p s = (case s of
     header1 # r \<Rightarrow>
       (let fmt = drop_bit 6 header1;
            cs_id = header1 AND 0x3F;
            m = (parsed_msg p)\<lparr>format_type := get_type fmt\<rparr>
        in if format_type m = FORMAT_UNKNOWN then (No, 0, r, p\<lparr>parsed_msg := m\<rparr>)
           else (Yes, 1, r,
             \<lparr> parsing_state = (if cs_id = 0 then BASIC_HEADER_2BYTE
                 else if cs_id = 1 then BASIC_HEADER_3BYTE
                 else get_chunk_header_parsing_state fmt),
               parsed_msg = m\<lparr>chunk_stream_id := ucast cs_id\<rparr> \<rparr>))
   | _ \<Rightarrow> (Indeterminate, 0, s, p))"

definition parse_basic_header_2byte :: "header_parser \<Rightarrow> bytes \<Rightarrow> header_step" where
  "parse_basic_header_2byte p s = (case s of
     cs_id_minus_64 # r \<Rightarrow> (Yes, 1, r,
       \<lparr> parsing_state = get_chunk_header_parsing_state (format_value (format_type (parsed_msg p))),
         parsed_msg = (parsed_msg p)\<lparr>chunk_stream_id := ucast (ucast cs_id_minus_64 + 64 :: u16)\<rparr> \<rparr>)
   | _ \<Rightarrow> (Indeterminate, 0, s, p))"

definition parse_basic_header_3byte :: "header_parser \<Rightarrow> bytes \<Rightarrow> header_step" where
  "parse_basic_header_3byte p s = (case s of
     a # b # r \<Rightarrow>
       (let cs_id_field = ntoh_2 (load16 a b);
            cs_id_low = (ucast (cs_id_field AND 0xFF) :: u32);
            cs_id_high = (ucast (drop_bit 8 (cs_id_field AND 0xFF00)) :: u32)
        in (Yes, 2, r,
          \<lparr> parsing_state = get_chunk_header_parsing_state (format_value (format_type (parsed_msg p))),
            parsed_msg = (parsed_msg p)\<lparr>chunk_stream_id := cs_id_high * 256 + cs_id_low + 64\<rparr> \<rparr>))
   | _ \<Rightarrow> (Indeterminate, 0, s, p))"

definition parse_chunk_header_type0 :: "header_parser \<Rightarrow> bytes \<Rightarrow> header_step" where
  "parse_chunk_header_type0 p s = (case s of
     t1 # t2 # t3 # l1 # l2 # l3 # ty # s1 # s2 # s3 # s4 # r \<Rightarrow>
       (let ts = read_3 t1 t2 t3;
            ts = (if ts > 0x00FFFFFF then 0x00FFFFFF else ts);
            m = (parsed_msg p)\<lparr>timestamp := ts, msg_length := read_3 l1 l2 l3,
                  msg_type_id := get_id ty, msg_stream_id := load32 s1 s2 s3 s4\<rparr>;
            p' = \<lparr> parsing_state = (if timestamp m = 0x00FFFFFF then EXTENDED_TIMESTAMP else COMPLETE),
                   parsed_msg = m \<rparr>
        in if msg_type_id m = TYPE_UNKNOWN then (No, 0, r, p') else (Yes, 11, r, p'))
   | _ \<Rightarrow> (Indeterminate, 0, s, p))"

definition parse_chunk_header_type1 :: "header_parser \<Rightarrow> bytes \<Rightarrow> header_step" where
  "parse_chunk_header_type1 p s = (case s of
     t1 # t2 # t3 # l1 # l2 # l3 # ty # r \<Rightarrow>
       (let m = (parsed_msg p)\<lparr>timestamp_delta := read_3 t1 t2 t3, msg_length := read_3 l1 l2 l3,
                  msg_type_id := get_id ty\<rparr>;
            p' = \<lparr> parsing_state =
                     (if timestamp_delta m = 0x00FFFFFF then EXTENDED_TIMESTAMP else COMPLETE),
                   parsed_msg = m \<rparr>
        in if msg_type_id m = TYPE_UNKNOWN then (No, 0, r, p') else (Yes, 7, r, p'))
   | _ \<Rightarrow> (Indeterminate, 0, s, p))"

definition parse_chunk_header_type2 :: "header_parser \<Rightarrow> bytes \<Rightarrow> header_step" where
  "parse_chunk_header_type2 p s = (case s of
     t1 # t2 # t3 # r \<Rightarrow>
       (let m = (parsed_msg p)\<lparr>timestamp_delta := read_3 t1 t2 t3\<rparr>
        in (Yes, 3, r,
          \<lparr> parsing_state =
              (if timestamp_delta m = 0x00FFFFFF then EXTENDED_TIMESTAMP else COMPLETE),
            parsed_msg = m \<rparr>))
   | _ \<Rightarrow> (Indeterminate, 0, s, p))"

definition parse_chunk_header_type3 :: "header_parser \<Rightarrow> bytes \<Rightarrow> header_step" where
  "parse_chunk_header_type3 p s = (Yes, 0, s, p\<lparr>parsing_state := COMPLETE\<rparr>)"

definition parse_extended_timestamp :: "header_parser \<Rightarrow> bytes \<Rightarrow> header_step" where
  "parse_extended_timestamp p s = (case s of
     a # b # c # d # r \<Rightarrow>
       (let ts = ucast (ntoh_4 (ucast (load32 a b c d)));
            m = parsed_msg p
        in if format_type m = CONTINUATION then (No, 0, r, p)
           else (Yes, 4, r,
             \<lparr> parsing_state = COMPLETE,
               parsed_msg =
                 (if format_type m = FULL then m\<lparr>timestamp := ts\<rparr>
                  else if format_type m = SAME_STREAM then m\<lparr>timestamp_delta := ts\<rparr>
                  else if format_type m = SAME_LENGTH_AND_STREAM then m\<lparr>timestamp_delta := ts\<rparr>
                  else m) \<rparr>))
   | _ \<Rightarrow> (Indeterminate, 0, s, p))"

definition parse_in_current_state :: "header_parser \<Rightarrow> bytes \<Rightarrow> header_step" where
  "parse_in_current_state p s = (case parsing_state p of
      BASIC_HEADER_1BYTE \<Rightarrow> parse_basic_header_1byte p s
    | BASIC_HEADER_2BYTE \<Rightarrow> parse_basic_header_2byte p s
    | BASIC_HEADER_3BYTE \<Rightarrow> parse_basic_header_3byte p s
    | CHUNK_MSG_HEADER_TYPE0 \<Rightarrow> parse_chunk_header_type0 p s
    | CHUNK_MSG_HEADER_TYPE1 \<Rightarrow> parse_chunk_header_type1 p s
    | CHUNK_MSG_HEADER_TYPE2 \<Rightarrow> parse_chunk_header_type2 p s
    | CHUNK_MSG_HEADER_TYPE3 \<Rightarrow> parse_chunk_header_type3 p s
    | EXTENDED_TIMESTAMP \<Rightarrow> parse_extended_timestamp p s
    | COMPLETE \<Rightarrow> (Yes, 0, s, p))"

text \<open>Each state has a rank; a step that succeeds goes to a state of smaller rank.\<close>

fun state_rank :: "parsing_state \<Rightarrow> nat" where
  "state_rank BASIC_HEADER_1BYTE = 4"
| "state_rank BASIC_HEADER_2BYTE = 3"
| "state_rank BASIC_HEADER_3BYTE = 3"
| "state_rank EXTENDED_TIMESTAMP = 1"
| "state_rank COMPLETE = 0"
| "state_rank _ = 2"

lemmas header_step_defs =
  parse_basic_header_1byte_def parse_basic_header_2byte_def parse_basic_header_3byte_def
  parse_chunk_header_type0_def parse_chunk_header_type1_def parse_chunk_header_type2_def
  parse_chunk_header_type3_def parse_extended_timestamp_def

lemma rank_chunk_header [simp]: "state_rank (get_chunk_header_parsing_state f) = 2"
  by (simp add: get_chunk_header_parsing_state_def)

lemma step_rank:
  "parse_in_current_state p s = (Yes, n, r, p') \<Longrightarrow> parsing_state p \<noteq> COMPLETE
    \<Longrightarrow> state_rank (parsing_state p') < state_rank (parsing_state p)"
  by (cases "parsing_state p")
    (auto simp: parse_in_current_state_def header_step_defs Let_def
      split: list.splits if_splits)

text \<open>The loop of \<open>parse_header\<close>, with the \<open>total_readed_size\<close> of the rest.\<close>

function parse_header :: "header_parser \<Rightarrow> bytes \<Rightarrow> header_step" where
  "parse_header p s =
     (if parsing_state p = COMPLETE then (Yes, 0, s, p\<lparr>parsing_state := BASIC_HEADER_1BYTE\<rparr>)
      else case parse_in_current_state p s of
        (Yes, n, r, p') \<Rightarrow> (case parse_header p' r of (res, m, r', p'') \<Rightarrow> (res, n + m, r', p''))
      | (res, n, r, p') \<Rightarrow> (res, 0, r, p'))"
  by pat_completeness auto
termination
  by (relation "measure (\<lambda>(p, s). state_rank (parsing_state p))") (auto dest: step_rank [OF sym])

declare parse_header.simps [simp del]

subsection \<open>Arrival in pieces\<close>

lemma step_extend:
  "parse_in_current_state p s = (res, n, r, p') \<Longrightarrow> res \<noteq> Indeterminate
    \<Longrightarrow> parse_in_current_state p (s @ t) = (res, n, r @ t, p')"
  by (cases "parsing_state p")
    (auto simp: parse_in_current_state_def header_step_defs Let_def
      split: list.splits if_splits)

lemma step_wait:
  "parse_in_current_state p s = (Indeterminate, n, r, p') \<Longrightarrow> n = 0 \<and> r = s \<and> p' = p"
  by (cases "parsing_state p")
    (auto simp: parse_in_current_state_def header_step_defs Let_def
      split: list.splits if_splits)

lemma step_consumes:
  "parse_in_current_state p s = (Yes, n, r, p') \<Longrightarrow> \<exists>pre. s = pre @ r \<and> length pre = n"
  by (cases "parsing_state p")
    (auto simp: parse_in_current_state_def header_step_defs Let_def
      split: list.splits if_splits)

lemma parse_header_induct [case_names step]:
  assumes "\<And>p s. (\<And>n r p'. parsing_state p \<noteq> COMPLETE
      \<Longrightarrow> parse_in_current_state p s = (Yes, n, r, p') \<Longrightarrow> P p' r) \<Longrightarrow> P p s"
  shows "P p s"
  by (induction p s rule: parse_header.induct) (rule assms, simp)

lemma parse_header_extend:
  "parse_header p s = (res, n, r, p') \<Longrightarrow> res \<noteq> Indeterminate
    \<Longrightarrow> parse_header p (s @ t) = (res, n, r @ t, p')"
proof (induction p s arbitrary: n r p' rule: parse_header_induct)
  case (step p s)
  show ?case
  proof (cases "parsing_state p = COMPLETE")
    case True
    then show ?thesis using step(2) by (simp add: parse_header.simps [of p])
  next
    case False
    obtain r0 n0 s0 p0 where st: "parse_in_current_state p s = (r0, n0, s0, p0)"
      by (metis prod_cases4)
    note unf = parse_header.simps [of p s] parse_header.simps [of p "s @ t"]
    show ?thesis
    proof (cases r0)
      case Yes
      obtain r1 n1 s1 p1 where rest: "parse_header p0 s0 = (r1, n1, s1, p1)"
        by (metis prod_cases4)
      show ?thesis
        using step(2,3) step(1) [OF False, of n0 s0 p0, of n1 s1 p1] Yes False st rest
          step_extend [OF st]
        by (auto simp: unf)
    next
      case No
      then show ?thesis using step(2,3) False st step_extend [OF st] by (auto simp: unf)
    next
      case Indeterminate
      then show ?thesis using step(2,3) False st by (auto simp: unf)
    qed
  qed
qed

lemma header_resumes:
  assumes "parse_header p s = (Indeterminate, n, r, p')"
  shows "parse_header p (s @ t) =
    (case parse_header p' (r @ t) of (res, m, r', p'') \<Rightarrow> (res, n + m, r', p''))"
  using assms
proof (induction p s arbitrary: n r p' rule: parse_header_induct)
  case (step p s)
  have False: "parsing_state p \<noteq> COMPLETE"
    using step(2) by (auto simp: parse_header.simps [of p s])
  obtain r0 n0 s0 p0 where st: "parse_in_current_state p s = (r0, n0, s0, p0)"
    by (metis prod_cases4)
  show ?case
  proof (cases r0)
    case Yes
    obtain r1 n1 s1 p1 where rest: "parse_header p0 s0 = (r1, n1, s1, p1)"
      by (metis prod_cases4)
    have "r1 = Indeterminate" "n = n0 + n1" "r = s1" "p' = p1"
      using step(2) False st Yes rest by (auto simp: parse_header.simps [of p s])
    moreover have "parse_in_current_state p (s @ t) = (Yes, n0, s0 @ t, p0)"
      using step_extend [OF st] Yes by simp
    ultimately show ?thesis
      using step(1) [OF False, of n0 s0 p0, of n1 s1 p1] Yes False st rest
      by (simp add: parse_header.simps [of p "s @ t"] split: prod.splits)
  next
    case No
    then show ?thesis using step(2) False st by (auto simp: parse_header.simps [of p s])
  next
    case Indeterminate
    then have "n = 0 \<and> r = s \<and> p' = p"
      using step(2) False st step_wait by (auto simp: parse_header.simps [of p s])
    then show ?thesis by (simp split: prod.split)
  qed
qed

text \<open>C23: a header that arrives in pieces is parsed as if it had arrived at once: after an
  indeterminate result, going on with the bytes left and those that arrive later gives the
  result, the stream, the parser and (with the bytes already counted) the size that parsing the
  whole at once gives.\<close>

theorem parse_header_resume:
  assumes "parse_header p s = (Indeterminate, n, r, p')"
  shows "parse_header p (s @ t) =
    (case parse_header p' (r @ t) of (res, m, r', p'') \<Rightarrow> (res, n + m, r', p''))"
  by (rule header_resumes [OF assms])

theorem parse_header_resume_witness:
  "parse_header header_parser_reset ([0x43] @ [0, 0, 1] @ [0, 0, 2, 20, 9]) =
    (case parse_header
        \<lparr> parsing_state = CHUNK_MSG_HEADER_TYPE1, parsed_msg = header_reset
            \<lparr>format_type := SAME_STREAM, chunk_stream_id := 3\<rparr> \<rparr> ([0, 0, 1] @ [0, 0, 2, 20, 9])
      of (res, m, r', p'') \<Rightarrow> (res, 1 + m, r', p''))"
proof -
  have "parse_header header_parser_reset ([0x43] @ [0, 0, 1]) =
      (Indeterminate, 1, [0, 0, 1], \<lparr> parsing_state = CHUNK_MSG_HEADER_TYPE1,
         parsed_msg = header_reset\<lparr>format_type := SAME_STREAM, chunk_stream_id := 3\<rparr> \<rparr>)"
    by code_simp
  from parse_header_resume [OF this, of "[0, 0, 2, 20, 9]"] show ?thesis by simp
qed

lemma parse_header_consumes:
  "parse_header p s = (Yes, n, r, p') \<Longrightarrow> \<exists>pre. s = pre @ r \<and> length pre = n"
proof (induction p s arbitrary: n r p' rule: parse_header_induct)
  case (step p s)
  obtain r0 n0 s0 p0 where st: "parse_in_current_state p s = (r0, n0, s0, p0)"
    by (metis prod_cases4)
  obtain r1 n1 s1 p1 where rest: "parse_header p0 s0 = (r1, n1, s1, p1)"
    by (metis prod_cases4)
  show ?case
  proof (cases "parsing_state p = COMPLETE")
    case True
    then show ?thesis using step(2) by (simp add: parse_header.simps [of p])
  next
    case False
    then have *: "r0 = Yes" "r1 = Yes" "n = n0 + n1" "r = s1"
      using step(2) st rest by (auto simp: parse_header.simps [of p s] split: tribool.splits)
    obtain pre0 where "s = pre0 @ s0" "length pre0 = n0" using step_consumes st * by blast
    moreover obtain pre1 where "s0 = pre1 @ s1" "length pre1 = n1"
      using step(1) [OF False, of n0 s0 p0, of n1 s1 p1] * st rest by auto
    ultimately have "s = (pre0 @ pre1) @ r" "length (pre0 @ pre1) = n" using * by simp_all
    then show ?thesis by blast
  qed
qed

subsection \<open>Round trip\<close>

text \<open>The ranges in which a header can be written and read back.\<close>

definition writable :: "rtmp_header \<Rightarrow> bool" where
  "writable h \<longleftrightarrow> 2 \<le> chunk_stream_id h \<and> chunk_stream_id h \<le> 6559
    \<and> format_type h \<noteq> FORMAT_UNKNOWN
    \<and> (format_type h = FULL \<longrightarrow> timestamp h < 0xFFFFFF)
    \<and> (format_type h = SAME_STREAM \<or> format_type h = SAME_LENGTH_AND_STREAM
        \<longrightarrow> timestamp_delta h < 0xFFFFFF)
    \<and> (has_msg_len_and_type h \<longrightarrow> msg_length h < 0x1000000 \<and> msg_type_id h \<noteq> TYPE_UNKNOWN)"

text \<open>What a header of the wire leaves of the one before.\<close>

definition inherit :: "rtmp_header \<Rightarrow> rtmp_header \<Rightarrow> rtmp_header" where
  "inherit old h =
     (let m = old\<lparr>format_type := format_type h, chunk_stream_id := chunk_stream_id h\<rparr> in
      case format_type h of
        FULL \<Rightarrow> m\<lparr>timestamp := timestamp h, msg_length := msg_length h,
          msg_type_id := msg_type_id h, msg_stream_id := msg_stream_id h\<rparr>
      | SAME_STREAM \<Rightarrow> m\<lparr>timestamp_delta := timestamp_delta h, msg_length := msg_length h,
          msg_type_id := msg_type_id h\<rparr>
      | SAME_LENGTH_AND_STREAM \<Rightarrow> m\<lparr>timestamp_delta := timestamp_delta h\<rparr>
      | _ \<Rightarrow> m)"

lemma read_3_be24:
  assumes "v < 0x1000000"
  shows "read_3 (ucast (drop_bit 16 v)) (ucast (drop_bit 8 v)) (ucast v) = v"
proof -
  have "of_be24 (ucast (drop_bit 16 v)) (ucast (drop_bit 8 v)) (ucast v) = v"
    using assms by (simp only: of_be24_split and_mask_24_small)
  then show ?thesis by (simp only: read_3_def ntoh_3_load)
qed

lemma load32_le32:
  "load32 (ucast v) (ucast (drop_bit 8 v)) (ucast (drop_bit 16 v)) (ucast (drop_bit 24 v)) = v"
  by (simp add: load32_def)

lemma format_bits:
  assumes "f \<noteq> FORMAT_UNKNOWN" and "c < 64"
  shows "drop_bit 6 (push_bit 6 (format_value f) + c) = format_value f"
    and "(push_bit 6 (format_value f) + c) AND 0x3F = (c :: byte)"
proof -
  have c: "unat c < 64" using assms(2) by (simp add: word_less_nat_alt)
  have sum: "unat (push_bit 6 (format_value f) + c) = 64 * unat (format_value f) + unat c"
    using assms(1) c by (cases f) (simp_all add: format_value_def push_bit_eq_mult unat_word_ariths)
  have div: "drop_bit 6 w = w div 64" for w :: byte by (simp add: drop_bit_eq_div)
  have mod: "w AND 0x3F = w mod 64" for w :: byte
    using take_bit_eq_mask [of 6 w] by (simp add: take_bit_eq_mod mask_eq_exp_minus_1)
  show "drop_bit 6 (push_bit 6 (format_value f) + c) = format_value f"
    and "(push_bit 6 (format_value f) + c) AND 0x3F = c"
    using c by (simp_all add: div mod word_unat_eq_iff unat_div unat_mod sum)
qed

text \<open>How the loop unfolds over a step that succeeds.\<close>

lemma parse_header_Yes:
  "parsing_state p \<noteq> COMPLETE \<Longrightarrow> parse_in_current_state p s = (Yes, n, r, p')
    \<Longrightarrow> parse_header p s = (case parse_header p' r of (res, m, r', p'') \<Rightarrow> (res, n + m, r', p''))"
  by (simp add: parse_header.simps [of p] split: prod.split)

lemma parse_header_COMPLETE:
  "parsing_state p = COMPLETE
    \<Longrightarrow> parse_header p s = (Yes, 0, s, p\<lparr>parsing_state := BASIC_HEADER_1BYTE\<rparr>)"
  by (simp add: parse_header.simps [of p])

definition after_basic :: "header_parser \<Rightarrow> rtmp_header \<Rightarrow> header_parser" where
  "after_basic p h =
     \<lparr> parsing_state = get_chunk_header_parsing_state (format_value (format_type h)),
       parsed_msg = (parsed_msg p)
         \<lparr>format_type := format_type h, chunk_stream_id := chunk_stream_id h\<rparr> \<rparr>"

lemma cs_id_2byte:
  assumes "64 \<le> c" and "c \<le> (319 :: u32)"
  shows "(ucast (ucast (ucast (c - 64) :: byte) + 64 :: u16) :: u32) = c"
proof -
  have c: "64 \<le> unat c" "unat c \<le> 319" using assms by (simp_all add: word_le_nat_alt)
  then have "unat (c - 64) = unat c - 64" using assms by (simp add: unat_sub)
  then show ?thesis
    using c by (simp add: word_unat_eq_iff unsigned_ucast_eq take_bit_eq_mod unat_word_ariths)
qed

lemma cs_id_field:
  "ucast (ntoh_2 (load16 a b) AND 0xFF) = (ucast b :: u32)"
  "ucast (drop_bit 8 (ntoh_2 (load16 a b) AND 0xFF00)) = (ucast a :: u32)"
proof -
  have masks: "(0xFF :: u16) = mask 8" "(0xFF00 :: u16) = push_bit 8 (mask 8)"
    by code_simp+
  show "ucast (ntoh_2 (load16 a b) AND 0xFF) = (ucast b :: u32)"
    "ucast (drop_bit 8 (ntoh_2 (load16 a b) AND 0xFF00)) = (ucast a :: u32)"
    unfolding ntoh_2_load of_be16_def masks
    by (auto intro!: bit_word_eqI simp: codec_bit_simps dest!: bit_byte_less)
qed

lemma cs_id_3byte:
  fixes c :: u32
  assumes "319 < c" and "c \<le> 6559"
  defines "v \<equiv> ntoh_2 (load16 (ucast ((c - 64) div 256)) (ucast ((c - 64) mod 256)))"
  shows "ucast (drop_bit 8 (v AND 0xFF00)) * 256 + ucast (v AND 0xFF) + 64 = c"
proof -
  have c: "319 < unat c" "unat c \<le> 6559"
    using assms by (simp_all add: word_le_nat_alt word_less_nat_alt)
  then have x: "unat (c - 64) = unat c - 64" by (simp add: unat_sub word_le_nat_alt)
  have hi: "unat (ucast (ucast ((c - 64) div 256) :: byte) :: u32) = unat (c - 64) div 256"
    and lo: "unat (ucast (ucast ((c - 64) mod 256) :: byte) :: u32) = unat (c - 64) mod 256"
    using c x by (simp_all add: unsigned_ucast_eq take_bit_eq_mod unat_div unat_mod)
  have "(unat c - 64) div 256 * 256 + (unat c - 64) mod 256 = unat c - 64" by simp
  moreover have "(unat c - 64) div 256 \<le> 25" using c by simp
  ultimately show ?thesis
    unfolding v_def cs_id_field using c
    by (simp add: word_unat_eq_iff unat_word_ariths hi lo x)
qed

lemma after_basic_header:
  assumes "writable h" and "parsing_state p = BASIC_HEADER_1BYTE"
  shows "parse_header p (basic_header_bytes h @ s) =
    (case parse_header (after_basic p h) s of
       (res, m, r', p'') \<Rightarrow> (res, length (basic_header_bytes h) + m, r', p''))"
proof -
  let ?c = "chunk_stream_id h" and ?f = "push_bit 6 (format_value (format_type h))"
  let ?q = "\<lambda>st c. \<lparr> parsing_state = st, parsed_msg = (parsed_msg p)
    \<lparr>format_type := format_type h, chunk_stream_id := c\<rparr> \<rparr>"
  have f: "format_type h \<noteq> FORMAT_UNKNOWN" and c: "2 \<le> ?c" "?c \<le> 6559"
    using assms(1) by (simp_all add: writable_def)
  have first: "parse_in_current_state p ((?f + b) # r) =
      (Yes, 1, r, ?q (if b = 0 then BASIC_HEADER_2BYTE else if b = 1 then BASIC_HEADER_3BYTE
         else get_chunk_header_parsing_state (format_value (format_type h))) (ucast b))"
    if "b < 64" for b r
    using f assms(2) format_bits [OF f that]
    by (simp add: parse_in_current_state_def parse_basic_header_1byte_def Let_def get_type_value)
  have p: "parsing_state p \<noteq> COMPLETE" using assms(2) by simp
  note one = parse_header_Yes [OF p first] and defs = basic_header_bytes_def Let_def
    is_1byte_basic_header_def is_2byte_basic_header_def is_3byte_basic_header_def
  consider "?c \<le> 63" | "64 \<le> ?c" "?c \<le> 319" | "319 < ?c"
    by (simp add: word_le_nat_alt word_less_nat_alt) linarith
  then show ?thesis
  proof cases
    case 1
    then have u: "unat ?c < 64" "2 \<le> unat ?c" using c by (simp_all add: word_le_nat_alt)
    then have "unat (ucast ?c :: byte) = unat ?c" by (simp add: unsigned_ucast_eq take_bit_eq_mod)
    then have "(ucast ?c :: byte) < 64" "(ucast ?c :: byte) \<noteq> 0" "(ucast ?c :: byte) \<noteq> 1"
      and "ucast (ucast ?c :: byte) = ?c"
      using u by (auto simp: word_less_nat_alt word_unat_eq_iff unat_mod unsigned_ucast_eq take_bit_eq_mod)
    then show ?thesis
      using 1 c one [of "ucast ?c" s] by (simp add: defs after_basic_def)
  next
    case 2
    have "parse_in_current_state (?q BASIC_HEADER_2BYTE 0) (ucast (?c - 64) # s)
        = (Yes, 1, s, after_basic p h)"
      using cs_id_2byte [OF 2]
      by (simp add: parse_in_current_state_def parse_basic_header_2byte_def after_basic_def)
    from parse_header_Yes [OF _ this] show ?thesis
      using 2 c one [of 0 "ucast (?c - 64) # s"]
      by (simp add: defs word_le_nat_alt split: prod.splits)
  next
    case 3
    have "parse_in_current_state (?q BASIC_HEADER_3BYTE 1)
        (ucast ((?c - 64) div 256) # ucast ((?c - 64) mod 256) # s) = (Yes, 2, s, after_basic p h)"
      using cs_id_3byte [OF 3 c(2)]
      by (simp add: parse_in_current_state_def parse_basic_header_3byte_def after_basic_def Let_def)
    from parse_header_Yes [OF _ this] show ?thesis
      using 3 c one [of 1 "ucast ((?c - 64) div 256) # ucast ((?c - 64) mod 256) # s"]
      by (simp add: defs word_le_nat_alt word_less_nat_alt split: prod.splits)
  qed
qed

lemma after_message_header:
  assumes "writable h"
  shows "parse_header (after_basic p h) (message_header_bytes h @ s) =
    (Yes, length (message_header_bytes h), s,
      \<lparr> parsing_state = BASIC_HEADER_1BYTE, parsed_msg = inherit (parsed_msg p) h \<rparr>)"
proof -
  have small: "v < 0xFFFFFF \<Longrightarrow> v < 0x1000000" for v :: u32
    by (simp add: word_less_nat_alt)
  have step: "parse_in_current_state (after_basic p h) (message_header_bytes h @ s) =
    (Yes, length (message_header_bytes h), s,
      \<lparr> parsing_state = COMPLETE, parsed_msg = inherit (parsed_msg p) h \<rparr>)"
    using assms small [of "timestamp h"] small [of "timestamp_delta h"]
    by (cases "format_type h")
      (auto simp: writable_def has_msg_len_and_type_def after_basic_def inherit_def Let_def
        message_header_bytes_def be24_def le32_def read_3_be24 load32_le32 format_value_def
        get_chunk_header_parsing_state_def parse_in_current_state_def header_step_defs not_less)
  have "parsing_state (after_basic p h) \<noteq> COMPLETE"
    by (simp add: after_basic_def get_chunk_header_parsing_state_def)
  from parse_header_Yes [OF this step] show ?thesis
    by (simp add: parse_header_COMPLETE)
qed

text \<open>C6: a header that \<open>write_payload\<close> writes is read back, whatever follows it, into the
  parser's header of before with the fields that this format carries replaced; the size
  returned is the number of bytes written.\<close>

theorem header_roundtrip:
  assumes "writable h" and "parsing_state p = BASIC_HEADER_1BYTE"
  shows "parse_header p (fst (write_header h []) @ s) =
    (Yes, snd (write_header h []), s,
      \<lparr> parsing_state = BASIC_HEADER_1BYTE, parsed_msg = inherit (parsed_msg p) h \<rparr>)"
  using after_basic_header [OF assms] after_message_header [OF assms(1)]
  by (simp add: write_header_bytes header_bytes_def)

theorem header_roundtrip_witness:
  "parse_header header_parser_reset
     (fst (write_header (header_reset\<lparr>chunk_stream_id := 400, timestamp := 1000,
        msg_length := 300, msg_type_id := VIDEODATA, msg_stream_id := 1\<rparr>) []) @ [1, 2]) =
   (Yes, 14, [1, 2], \<lparr> parsing_state = BASIC_HEADER_1BYTE, parsed_msg = header_reset
      \<lparr>chunk_stream_id := 400, timestamp := 1000, msg_length := 300, msg_type_id := VIDEODATA,
        msg_stream_id := 1\<rparr> \<rparr>)"
proof -
  let ?h = "header_reset\<lparr>chunk_stream_id := 400, timestamp := 1000,
        msg_length := 300, msg_type_id := VIDEODATA, msg_stream_id := 1\<rparr>"
  have "writable ?h" and "snd (write_header ?h []) = 14"
    and "inherit header_reset ?h = ?h" by code_simp+
  then show ?thesis
    using header_roundtrip [of ?h header_parser_reset "[1, 2]"]
    by (simp add: header_parser_reset_def)
qed

text \<open>The bounds of the three forms of basic header: a chunk stream id above 6559, which
  the parser reads from the wire (up to 65599), is written with no basic header at all.\<close>

theorem large_cs_id_lost:
  assumes "chunk_stream_id h > 6559"
  shows "fst (write_header h []) = message_header_bytes h"
proof -
  have "\<not> chunk_stream_id h \<le> 6559" "\<not> chunk_stream_id h \<le> 319" "\<not> chunk_stream_id h \<le> 63"
    using assms by (auto simp: word_le_nat_alt word_less_nat_alt)
  then show ?thesis
    by (simp add: write_header_bytes header_bytes_def basic_header_bytes_def
        is_1byte_basic_header_def is_2byte_basic_header_def is_3byte_basic_header_def)
qed

theorem large_cs_id_lost_witness:
  "parse_header header_parser_reset [0xC1, 0xFF, 0xFF, 7] =
      (Yes, 3, [7], header_parser_reset
        \<lparr>parsed_msg := header_reset\<lparr>format_type := CONTINUATION, chunk_stream_id := 65599\<rparr>\<rparr>)
   \<and> fst (write_header (header_reset\<lparr>format_type := CONTINUATION, chunk_stream_id := 65599\<rparr>) []) = []"
proof -
  have "parse_header header_parser_reset [0xC1, 0xFF, 0xFF, 7] =
      (Yes, 3, [7], header_parser_reset
        \<lparr>parsed_msg := header_reset\<lparr>format_type := CONTINUATION, chunk_stream_id := 65599\<rparr>\<rparr>)"
    by code_simp
  moreover have "fst (write_header (header_reset\<lparr>format_type := CONTINUATION,
      chunk_stream_id := 65599\<rparr>) []) = []"
    using large_cs_id_lost [of "header_reset\<lparr>format_type := CONTINUATION, chunk_stream_id := 65599\<rparr>"]
    by (simp add: message_header_bytes_def)
  ultimately show ?thesis by blast
qed

end
