(* ===== verification/Amf0.thy ===== *)
theory Amf0
  imports Stream_Util
begin

text \<open>
  The AMF0 serializer, \<open>protocol/AMF0Serializer.cpp\<close>: readers and writers of the values the
  server uses and \<open>consume_any\<close>, which skips one value of any type. A reader returns
  \<open>None\<close> where the C++ function returns false, with the stream as it is then; the type bytes
  are kept as in the source. \<open>consume_any\<close> is recursive over the input, so it is defined
  with fuel (\<open>None\<close>: out of fuel); \<open>3 * length s + 1\<close> steps are always enough
  (\<open>consume_fuel\<close>), and \<open>consume_any\<close> itself has the equations of the code.

  \<open>junk\<close> is the value that the uninitialised \<open>array_size\<close> holds when
  \<open>read_number_4byte\<close> fails, whose result the code ignores.
\<close>

subsection \<open>Types\<close>

datatype amf0_type = AMF0_NUMBER | AMF0_BOOLEAN | AMF0_SHORT_STRING | AMF0_OBJECT | AMF0_MOVIE
  | AMF0_NULL | AMF0_UNDEFINED | AMF0_REFERENCE | AMF0_MIXED_ARRAY | AMF0_OBJECT_END | AMF0_ARRAY
  | AMF0_TIMESTAMP | AMF0_LONG_STRING | AMF0_UNSUPPORTED | AMF0_RECORD_SET | AMF_XML_OBJECT
  | AMF0_TYPED_OBJECT | AMF0_AMF3_OBJECT | AMF0_other byte

definition amf0_type_value :: "amf0_type \<Rightarrow> byte" where
  "amf0_type_value t = (case t of AMF0_NUMBER \<Rightarrow> 0x00 | AMF0_BOOLEAN \<Rightarrow> 0x01
     | AMF0_SHORT_STRING \<Rightarrow> 0x02 | AMF0_OBJECT \<Rightarrow> 0x03 | AMF0_MOVIE \<Rightarrow> 0x04 | AMF0_NULL \<Rightarrow> 0x05
     | AMF0_UNDEFINED \<Rightarrow> 0x06 | AMF0_REFERENCE \<Rightarrow> 0x07 | AMF0_MIXED_ARRAY \<Rightarrow> 0x08
     | AMF0_OBJECT_END \<Rightarrow> 0x09 | AMF0_ARRAY \<Rightarrow> 0x0a | AMF0_TIMESTAMP \<Rightarrow> 0x0b
     | AMF0_LONG_STRING \<Rightarrow> 0x0c | AMF0_UNSUPPORTED \<Rightarrow> 0x0d | AMF0_RECORD_SET \<Rightarrow> 0x0e
     | AMF_XML_OBJECT \<Rightarrow> 0x0f | AMF0_TYPED_OBJECT \<Rightarrow> 0x10 | AMF0_AMF3_OBJECT \<Rightarrow> 0x11
     | AMF0_other b \<Rightarrow> b)"

definition amf0_type_of :: "byte \<Rightarrow> amf0_type" where
  "amf0_type_of b =
     (if b = 0x00 then AMF0_NUMBER else if b = 0x01 then AMF0_BOOLEAN
      else if b = 0x02 then AMF0_SHORT_STRING else if b = 0x03 then AMF0_OBJECT
      else if b = 0x04 then AMF0_MOVIE else if b = 0x05 then AMF0_NULL
      else if b = 0x06 then AMF0_UNDEFINED else if b = 0x07 then AMF0_REFERENCE
      else if b = 0x08 then AMF0_MIXED_ARRAY else if b = 0x09 then AMF0_OBJECT_END
      else if b = 0x0a then AMF0_ARRAY else if b = 0x0b then AMF0_TIMESTAMP
      else if b = 0x0c then AMF0_LONG_STRING else if b = 0x0d then AMF0_UNSUPPORTED
      else if b = 0x0e then AMF0_RECORD_SET else if b = 0x0f then AMF_XML_OBJECT
      else if b = 0x10 then AMF0_TYPED_OBJECT else if b = 0x11 then AMF0_AMF3_OBJECT
      else AMF0_other b)"

lemma amf0_type_value_of [simp]: "amf0_type_value (amf0_type_of b) = b"
  by (simp add: amf0_type_of_def amf0_type_value_def)

subsection \<open>Readers\<close>

definition read_type :: "bytes \<Rightarrow> amf0_type option \<times> bytes" where
  "read_type = need 1 (and_then read_uchar (\<lambda>b. ret (amf0_type_of b)))"

text \<open>The \<open>reads_type\<close> prefix of the typed readers.\<close>

definition expect_type ::
  "amf0_type \<Rightarrow> bool \<Rightarrow> (bytes \<Rightarrow> 'a option \<times> bytes) \<Rightarrow> bytes \<Rightarrow> 'a option \<times> bytes" where
  "expect_type ty reads_type p =
     (if reads_type then need 1 (and_then read_type (\<lambda>t. if t \<noteq> ty then fail else p)) else p)"

text \<open>\<open>stream.read(buf, n)\<close> of \<open>n\<close> bytes known to be there.\<close>

definition read_buf :: "nat \<Rightarrow> bytes \<Rightarrow> bytes option \<times> bytes" where
  "read_buf n s = (Some (take n s), drop n s)"

text \<open>
  The length is a signed \<open>short\<close>, and \<open>check_redable_length\<close> takes a \<open>size_t\<close>: a negative
  length becomes a huge one, and the check fails.
\<close>

definition short_to_size :: "u16 \<Rightarrow> nat" where
  "short_to_size v = unat (scast v :: u64)"

definition read_short_string :: "bool \<Rightarrow> bytes \<Rightarrow> bytes option \<times> bytes" where
  "read_short_string reads_type = expect_type AMF0_SHORT_STRING reads_type
     (need 2 (and_then (read_short True) (\<lambda>str_len.
        need (short_to_size str_len) (read_buf (short_to_size str_len)))))"

definition read_number_4byte :: "bytes \<Rightarrow> u32 option \<times> bytes" where
  "read_number_4byte = need 4 (read_uint True)"

definition read_number :: "bool \<Rightarrow> bytes \<Rightarrow> u64 option \<times> bytes" where
  "read_number reads_type = expect_type AMF0_NUMBER reads_type (need 8 (read_double True))"

definition read_boolean :: "bool \<Rightarrow> bytes \<Rightarrow> bool option \<times> bytes" where
  "read_boolean reads_type = expect_type AMF0_BOOLEAN reads_type
     (need 1 (and_then read_char (\<lambda>readed.
        if \<not> (readed = 1 \<or> readed = 0) then fail else ret (readed = 1))))"

definition read_null :: "bytes \<Rightarrow> unit option \<times> bytes" where
  "read_null = need 1 (and_then read_type (\<lambda>t. if t \<noteq> AMF0_NULL then fail else ret ()))"

text \<open>The result, \<open>is_not_sufficent_stream_length\<close> and the stream.\<close>

definition is_end_of_object :: "bytes \<Rightarrow> bool \<times> bool \<times> bytes" where
  "is_end_of_object s =
     (if \<not> check_redable_length s 3 then (False, True, s)
      else if s ! 0 = 0 \<and> s ! 1 = 0 \<and> s ! 2 = 9 then (True, False, drop 3 s)
      else (False, False, s))"

definition read_mixed_array :: "bytes \<Rightarrow> bool \<times> bytes" where
  "read_mixed_array s = (case read_number False s of (None, r) \<Rightarrow> (False, r) | (Some _, r) \<Rightarrow> (True, r))"

function consume_until_end_of_object :: "bytes \<Rightarrow> bytes" where
  "consume_until_end_of_object s =
     (let (end_found, error, r) = is_end_of_object s in
      if \<not> end_found \<and> \<not> error
      then consume_until_end_of_object (change_relative_position_istream s 1) else r)"
  by pat_completeness auto
termination
  by (relation "measure length")
    (auto simp: is_end_of_object_def check_redable_length_def get_readable_length_def
      change_relative_position_istream_def split: if_splits)

declare consume_until_end_of_object.simps [simp del]

subsection \<open>Writers\<close>

definition write_type :: "amf0_type \<Rightarrow> wst \<Rightarrow> wst" where
  "write_type t = write_char (amf0_type_value t)"

definition write_short_string :: "bytes \<Rightarrow> bool \<Rightarrow> wst \<Rightarrow> wst" where
  "write_short_string value writes_type =
     writes [if writes_type then write_type AMF0_SHORT_STRING else writes [],
       write_short (of_nat (length value)) True, write_bytes value]"

definition write_number :: "u64 \<Rightarrow> bool \<Rightarrow> wst \<Rightarrow> wst" where
  "write_number value writes_type =
     writes [if writes_type then write_type AMF0_NUMBER else writes [], write_double value True]"

definition write_boolean :: "bool \<Rightarrow> bool \<Rightarrow> wst \<Rightarrow> wst" where
  "write_boolean value writes_type =
     writes [if writes_type then write_type AMF0_BOOLEAN else writes [],
       write_char (if value then 1 else 0)]"

definition write_end_of_object :: "wst \<Rightarrow> wst" where
  "write_end_of_object = write_bytes [0, 0, 9]"

definition write_object_key :: "bytes \<Rightarrow> wst \<Rightarrow> wst" where
  "write_object_key value = write_short_string value False"

definition write_null :: "wst \<Rightarrow> wst" where
  "write_null = write_type AMF0_NULL"

text \<open>The bytes they append.\<close>

definition string_bytes :: "bytes \<Rightarrow> bytes" where
  "string_bytes v = be16 (of_nat (length v)) @ v"

definition bool_byte :: "bool \<Rightarrow> byte" where
  "bool_byte b = (if b then 1 else 0)"

interpretation write_type: appender "write_type t" "[amf0_type_value t]"
  by unfold_locales (simp add: write_type_def byte_simps)

interpretation write_short_string: appender "write_short_string v t"
  "(if t then [2] else []) @ string_bytes v"
  by unfold_locales
    (simp add: write_short_string_def string_bytes_def byte_simps write_type.appends amf0_type_value_def)

interpretation write_number: appender "write_number v t" "(if t then [0] else []) @ be64 v"
  by unfold_locales
    (simp add: write_number_def byte_simps write_type.appends amf0_type_value_def)

interpretation write_boolean: appender "write_boolean v t" "(if t then [1] else []) @ [bool_byte v]"
  by unfold_locales
    (simp add: write_boolean_def bool_byte_def byte_simps write_type.appends amf0_type_value_def)

interpretation write_end_of_object: appender write_end_of_object "[0, 0, 9]"
  by unfold_locales (simp add: write_end_of_object_def byte_simps)

interpretation write_object_key: appender "write_object_key v" "string_bytes v"
  by unfold_locales (simp add: write_object_key_def write_short_string.appends)

interpretation write_null: appender write_null "[5]"
  by unfold_locales (simp add: write_null_def write_type.appends amf0_type_value_def)

lemmas amf_writers [byte_simps] =
  write_type.appends write_short_string.appends write_number.appends write_boolean.appends
  write_end_of_object.appends write_object_key.appends write_null.appends

subsection \<open>Contracts of the readers\<close>

lemma stream_reader_read_buf [reader_rest]: "stream_reader (read_buf n)"
  by unfold_locales (simp add: read_buf_def suffix_drop)

lemma stream_reader_read_type [reader_rest]: "stream_reader read_type"
  unfolding read_type_def by (intro reader_rest)

lemma stream_reader_expect_type [reader_rest]:
  "stream_reader p \<Longrightarrow> stream_reader (expect_type ty t p)"
  unfolding expect_type_def by (intro reader_rest)

lemma short_to_size_sint: "short_to_size v = nat (sint v mod 2 ^ 64)"
proof -
  have "(scast v :: u64) = word_of_int (sint v)" by (rule scast_eq)
  then show ?thesis by (simp only: short_to_size_def unsigned_of_int) (simp add: take_bit_eq_mod)
qed

lemma sint_short:
  assumes "n < 65536"
  shows "sint (of_nat n :: u16) = (if n < 32768 then int n else int n - 65536)"
proof -
  have "(int n + 32768) mod 65536 = int n - 32768" if "\<not> n < 32768"
    using that assms mod_add_self2 [of "int n - 32768" 65536] by (simp add: add.commute)
  then show ?thesis
    using assms by (simp add: signed_of_nat signed_take_bit_eq_take_bit_shift take_bit_eq_mod)
qed

lemma short_to_size_small: "n < 32768 \<Longrightarrow> short_to_size (of_nat n) = n"
  by (simp add: short_to_size_sint sint_short)

lemma short_to_size_large:
  assumes "32768 \<le> n" and "n < 65536"
  shows "2 ^ 63 \<le> short_to_size (of_nat n)"
proof -
  have "(int n - 65536) mod 2 ^ 64 = (int n - 65536 + 2 ^ 64) mod 2 ^ 64"
    by (rule mod_add_self2 [symmetric])
  also have "\<dots> = int n - 65536 + 2 ^ 64" using assms by (intro mod_pos_pos_trivial) simp_all
  finally show ?thesis using assms by (simp add: short_to_size_sint sint_short)
qed

lemma read_type_Cons: "read_type (b # s) = (Some (amf0_type_of b), s)"
  by (simp add: read_type_def need_def and_then_def read_uchar_def ret_def)

lemma expect_type_bytes:
  "amf0_type_of b = ty \<Longrightarrow> expect_type ty True p (b # s) = p s"
  "expect_type ty False p s = p s"
  by (simp_all add: expect_type_def need_def and_then_def read_type_Cons)

interpretation read_number: byte_codec "read_number t" "\<lambda>v. (if t then [0] else []) @ be64 v" "\<lambda>_. True"
proof
  show "suffix (snd (read_number t s)) s" for s
    unfolding read_number_def by (intro stream_reader.rest_suffix reader_rest)
  show "read_number t (((if t then [0] else []) @ be64 v) @ r) = (Some v, r)" for v r
    using read_double.decode [of v r]
    by (cases t) (simp_all add: read_number_def expect_type_bytes amf0_type_of_def need_def)
qed

interpretation read_number_4byte: byte_codec read_number_4byte be32 "\<lambda>_. True"
proof
  show "suffix (snd (read_number_4byte s)) s" for s
    unfolding read_number_4byte_def by (intro stream_reader.rest_suffix reader_rest)
  show "read_number_4byte (be32 v @ r) = (Some v, r)" for v r
    using read_uint.decode [of v r] by (simp add: read_number_4byte_def need_def)
qed

interpretation read_boolean: byte_codec "read_boolean t" "\<lambda>v. (if t then [1] else []) @ [bool_byte v]" "\<lambda>_. True"
proof
  show "suffix (snd (read_boolean t s)) s" for s
    unfolding read_boolean_def by (intro stream_reader.rest_suffix reader_rest)
  show "read_boolean t (((if t then [1] else []) @ [bool_byte v]) @ r) = (Some v, r)" for v r
    by (cases t; cases v) (simp_all add: read_boolean_def expect_type_bytes amf0_type_of_def need_def
        bool_byte_def and_then_def read_char_def ret_def)
qed

interpretation read_null: byte_codec read_null "\<lambda>_. [5]" "\<lambda>_. True"
proof
  show "suffix (snd (read_null s)) s" for s
    unfolding read_null_def by (intro stream_reader.rest_suffix reader_rest)
  show "read_null ([5] @ r) = (Some v, r)" for v r
    by (simp add: read_null_def amf0_type_of_def need_def and_then_def read_type_Cons ret_def)
qed

text \<open>Strings are read back up to the length that a signed \<open>short\<close> can hold.\<close>

interpretation read_short_string: byte_codec "read_short_string t"
  "\<lambda>v. (if t then [2] else []) @ string_bytes v" "\<lambda>v. length v < 32768"
proof
  show "suffix (snd (read_short_string t s)) s" for s
    unfolding read_short_string_def by (intro stream_reader.rest_suffix reader_rest)
  fix v :: bytes and r assume v: "length v < 32768"
  show "read_short_string t (((if t then [2] else []) @ string_bytes v) @ r) = (Some v, r)"
    using read_short.decode [of "of_nat (length v)" "v @ r"] v
    by (cases t) (simp_all add: read_short_string_def expect_type_bytes amf0_type_of_def need_def
        string_bytes_def and_then_def short_to_size_small read_buf_def)
qed

lemmas amf_readers [reader_rest] =
  read_number.stream_reader_axioms read_number_4byte.stream_reader_axioms
  read_boolean.stream_reader_axioms read_null.stream_reader_axioms
  read_short_string.stream_reader_axioms

subsection \<open>Skipping a value\<close>

definition succeeded :: "'a option \<times> bytes \<Rightarrow> bool \<times> bytes" where
  "succeeded x = (fst x \<noteq> None, snd x)"

fun consume_any_f :: "nat \<Rightarrow> u32 \<Rightarrow> bytes \<Rightarrow> (bool \<times> bytes) option"
  and consume_any_property_f :: "nat \<Rightarrow> u32 \<Rightarrow> bytes \<Rightarrow> (bool \<times> bytes) option"
  and consume_object_f :: "nat \<Rightarrow> u32 \<Rightarrow> bytes \<Rightarrow> (bool \<times> bytes) option"
  and consume_array_f :: "nat \<Rightarrow> u32 \<Rightarrow> nat \<Rightarrow> bytes \<Rightarrow> (bool \<times> bytes) option" where
  "consume_any_f 0 junk s = None"
| "consume_any_f (Suc k) junk s = (case read_type s of
      (None, r) \<Rightarrow> Some (False, r)
    | (Some data_type, r) \<Rightarrow> (case data_type of
        AMF0_BOOLEAN \<Rightarrow> Some (succeeded (read_boolean False r))
      | AMF0_NULL \<Rightarrow> Some (True, r)
      | AMF0_NUMBER \<Rightarrow> Some (succeeded (read_number False r))
      | AMF0_SHORT_STRING \<Rightarrow> Some (succeeded (read_short_string False r))
      | AMF0_UNDEFINED \<Rightarrow> Some (True, r)
      | AMF0_OBJECT \<Rightarrow> consume_object_f k junk r
      | AMF0_MIXED_ARRAY \<Rightarrow> consume_object_f k junk (snd (read_number_4byte r))
      | AMF0_ARRAY \<Rightarrow> (case read_number_4byte r of
            (Some array_size, r') \<Rightarrow> consume_array_f k junk (unat array_size) r'
          | (None, r') \<Rightarrow> consume_array_f k junk (unat junk) r')
      | AMF0_OBJECT_END \<Rightarrow> Some (True, r)
      | _ \<Rightarrow> Some (True, consume_until_end_of_object r)))"
| "consume_any_property_f 0 junk s = None"
| "consume_any_property_f (Suc k) junk s = (case read_short_string False s of
      (None, r) \<Rightarrow> Some (False, r)
    | (Some key, r) \<Rightarrow> consume_any_f k junk r)"
| "consume_object_f 0 junk s = None"
| "consume_object_f (Suc k) junk s = (case is_end_of_object s of
      (_, True, r) \<Rightarrow> Some (False, r)
    | (True, False, r) \<Rightarrow> Some (True, r)
    | (False, False, r) \<Rightarrow> (case consume_any_property_f k junk r of
        None \<Rightarrow> None
      | Some (_, r') \<Rightarrow> consume_object_f k junk r'))"
| "consume_array_f 0 junk n s = None"
| "consume_array_f (Suc k) junk n s =
     (if n = 0 then Some (True, s)
      else case consume_any_f k junk s of
        None \<Rightarrow> None
      | Some (False, r) \<Rightarrow> Some (False, r)
      | Some (True, r) \<Rightarrow> consume_array_f k junk (n - 1) r)"

text \<open>Every call leaves a suffix, and a value that is skipped has at least its type byte.\<close>

lemma suffix_consume_until: "suffix (consume_until_end_of_object s) s"
proof (induction s rule: consume_until_end_of_object.induct)
  case (1 s)
  obtain e err r where eq: "is_end_of_object s = (e, err, r)" by (metis prod_cases3)
  have "suffix r s" using eq suffix_drop [of 3 s] by (auto simp: is_end_of_object_def split: if_splits)
  moreover have "suffix (consume_until_end_of_object (drop 1 s)) s" if "\<not> e" "\<not> err"
    using 1 [OF eq [symmetric] refl] that suffix_drop [of 1 s]
    by (auto simp: change_relative_position_istream_def intro: suffix_order.trans)
  ultimately show ?case
    by (subst consume_until_end_of_object.simps)
      (auto simp: eq change_relative_position_istream_def)
qed

lemma read_type_cases:
  obtains "s = []" "read_type s = (None, [])"
  | b r where "s = b # r" "read_type s = (Some (amf0_type_of b), r)"
  by (cases s) (auto simp: read_type_Cons, auto simp: read_type_def need_def)

lemma is_end_of_object_rest:
  "is_end_of_object s = (e, err, r) \<Longrightarrow> suffix r s \<and> (\<not> err \<longrightarrow> \<not> e \<longrightarrow> 3 \<le> length s \<and> r = s)"
  using suffix_drop [of 3 s]
  by (auto simp: is_end_of_object_def check_redable_length_def get_readable_length_def split: if_splits)

lemma suffix_succeeded:
  "stream_reader p \<Longrightarrow> succeeded (p s) = (b, r) \<Longrightarrow> suffix r s"
  using stream_reader.rest_suffix [of p s] by (auto simp: succeeded_def)

lemma read_short_string_progress:
  assumes "2 \<le> length s"
  shows "length (snd (read_short_string False s)) + 2 \<le> length s"
proof -
  from assms obtain a b r where s: "s = a # b # r"
    by (metis One_nat_def Suc_1 Suc_le_length_iff)
  show ?thesis
    by (auto simp: s read_short_string_def expect_type_def need_def and_then_def read_short_def
        read_buf_def)
qed

text \<open>One step of fuel, as an equation of each function.\<close>

lemmas consume_f_step = consume_any_f.simps(2) consume_any_property_f.simps(2) consume_object_f.simps(2)
  consume_array_f.simps(2)

declare consume_f_step [simp del]

text \<open>More fuel changes nothing.\<close>

lemma consume_more:
  "(\<forall>s x. consume_any_f k junk s = Some x \<longrightarrow> consume_any_f (Suc k) junk s = Some x)
    \<and> (\<forall>s x. consume_any_property_f k junk s = Some x \<longrightarrow> consume_any_property_f (Suc k) junk s = Some x)
    \<and> (\<forall>s x. consume_object_f k junk s = Some x \<longrightarrow> consume_object_f (Suc k) junk s = Some x)
    \<and> (\<forall>n s x. consume_array_f k junk n s = Some x \<longrightarrow> consume_array_f (Suc k) junk n s = Some x)"
proof (induction k)
  case (Suc k)
  then have IH: "consume_any_f k junk s = Some x \<Longrightarrow> consume_any_f (Suc k) junk s = Some x"
    "consume_any_property_f k junk s = Some x \<Longrightarrow> consume_any_property_f (Suc k) junk s = Some x"
    "consume_object_f k junk s = Some x \<Longrightarrow> consume_object_f (Suc k) junk s = Some x"
    "consume_array_f k junk n s = Some x \<Longrightarrow> consume_array_f (Suc k) junk n s = Some x" for n s x
    by blast+
  have "consume_any_f (Suc k) junk s = Some x \<Longrightarrow> consume_any_f (Suc (Suc k)) junk s = Some x" for s x
    by (subst consume_any_f.simps(2), subst (asm) consume_any_f.simps(2))
      (simp split: amf0_type.splits prod.splits option.splits add: IH)
  moreover have "consume_any_property_f (Suc k) junk s = Some x \<Longrightarrow>
      consume_any_property_f (Suc (Suc k)) junk s = Some x" for s x
    by (subst consume_any_property_f.simps(2), subst (asm) consume_any_property_f.simps(2))
      (simp split: prod.splits option.splits add: IH)
  moreover have "consume_object_f (Suc k) junk s = Some x \<Longrightarrow> consume_object_f (Suc (Suc k)) junk s = Some x" for s x
    by (subst consume_object_f.simps(2), subst (asm) consume_object_f.simps(2))
      (auto split: prod.splits option.splits bool.splits simp: IH)
  moreover have "consume_array_f (Suc k) junk n s = Some x \<Longrightarrow> consume_array_f (Suc (Suc k)) junk n s = Some x" for n s x
    by (subst consume_array_f.simps(2), subst (asm) consume_array_f.simps(2))
      (auto split: prod.splits option.splits bool.splits if_splits simp: IH)
  ultimately show ?case by blast
qed simp

lemma more_fuel:
  assumes "\<And>k x. f k = Some x \<Longrightarrow> f (Suc k) = Some x" and "f k = Some x" and "k \<le> k'"
  shows "f k' = Some x"
  using assms(3,2) by (induction rule: dec_induct) (simp_all add: assms(1))

lemma consume_mono:
  "consume_any_f k junk s = Some x \<Longrightarrow> k \<le> k' \<Longrightarrow> consume_any_f k' junk s = Some x"
  "consume_any_property_f k junk s = Some x \<Longrightarrow> k \<le> k' \<Longrightarrow> consume_any_property_f k' junk s = Some x"
  "consume_object_f k junk s = Some x \<Longrightarrow> k \<le> k' \<Longrightarrow> consume_object_f k' junk s = Some x"
  "consume_array_f k junk n s = Some x \<Longrightarrow> k \<le> k' \<Longrightarrow> consume_array_f k' junk n s = Some x"
  using consume_more by (blast intro: more_fuel [of "\<lambda>k. consume_any_f k junk s"]
    more_fuel [of "\<lambda>k. consume_any_property_f k junk s"] more_fuel [of "\<lambda>k. consume_object_f k junk s"]
    more_fuel [of "\<lambda>k. consume_array_f k junk n s"])+

lemma consume_suffix_all:
  "(\<forall>s b r. consume_any_f k junk s = Some (b, r) \<longrightarrow> suffix r s \<and> (b \<longrightarrow> length r < length s))
    \<and> (\<forall>s b r. consume_any_property_f k junk s = Some (b, r) \<longrightarrow>
        suffix r s \<and> (2 \<le> length s \<longrightarrow> length r + 2 \<le> length s))
    \<and> (\<forall>s b r. consume_object_f k junk s = Some (b, r) \<longrightarrow> suffix r s)
    \<and> (\<forall>n s b r. consume_array_f k junk n s = Some (b, r) \<longrightarrow> suffix r s)"
proof (induction k)
  case (Suc k)
  then have IH: "consume_any_f k junk s = Some (b, r) \<Longrightarrow> suffix s t \<Longrightarrow> suffix r t"
    "consume_any_property_f k junk s = Some (b, r) \<Longrightarrow> suffix s t \<Longrightarrow> suffix r t"
    "consume_object_f k junk s = Some (b, r) \<Longrightarrow> suffix s t \<Longrightarrow> suffix r t"
    "consume_array_f k junk n s = Some (b, r) \<Longrightarrow> suffix s t \<Longrightarrow> suffix r t" for n s b r t
    by (blast intro: suffix_order.trans)+
  have "suffix r s \<and> (b \<longrightarrow> length r < length s)" if any: "consume_any_f (Suc k) junk s = Some (b, r)" for s b r
  proof (cases s rule: read_type_cases)
    case (2 t r0)
    have "suffix r r0"
      using any 2 read_number_4byte.rest_suffix [of r0]
      by (subst (asm) consume_any_f.simps(2))
        (auto split: amf0_type.splits prod.splits option.splits intro: IH(3,4) suffix_consume_until
          suffix_succeeded [OF amf_readers(1)] suffix_succeeded [OF amf_readers(3)] suffix_succeeded [OF amf_readers(5)])
    then show ?thesis using 2 by (auto dest: suffix_length_le intro: suffix_ConsI)
  qed (use any in \<open>simp add: consume_f_step\<close>)
  moreover have "suffix r s \<and> (2 \<le> length s \<longrightarrow> length r + 2 \<le> length s)"
    if "consume_any_property_f (Suc k) junk s = Some (b, r)" for s b r
  proof -
    obtain v r0 where eq: "read_short_string False s = (v, r0)" by fastforce
    then have "suffix r r0" "suffix r0 s" "2 \<le> length s \<longrightarrow> length r0 + 2 \<le> length s"
      using that IH(1) [of r0] read_short_string.rest_suffix [of False s] read_short_string_progress [of s]
      by (auto simp: consume_f_step split: option.splits)
    then show ?thesis using suffix_length_le [of r r0] by (auto intro: suffix_order.trans)
  qed
  moreover have "suffix r s" if "consume_object_f (Suc k) junk s = Some (b, r)" for s b r
  proof -
    obtain e err r0 where eq: "is_end_of_object s = (e, err, r0)" by (metis prod_cases3)
    then show ?thesis
      using that is_end_of_object_rest [OF eq] by (auto simp: consume_f_step split: bool.splits option.splits intro: IH)
  qed
  moreover have "suffix r s" if arr: "consume_array_f (Suc k) junk n s = Some (b, r)" for n s b r
  proof (cases "n = 0")
    case False
    then obtain b1 r1 where "consume_any_f k junk s = Some (b1, r1)"
      and "if b1 then consume_array_f k junk (n - 1) r1 = Some (b, r) else r = r1"
      using arr by (auto simp: consume_f_step split: option.splits bool.splits)
    then show ?thesis using IH(1) [of s b1 r1 s] IH(4) [of "n - 1" r1 b r s] by (auto split: if_splits)
  qed (use arr in \<open>simp add: consume_f_step\<close>)
  ultimately show ?case by blast
qed simp

lemma consume_suffix:
  "consume_any_f k junk s = Some (b, r) \<Longrightarrow> suffix r s \<and> (b \<longrightarrow> length r < length s)"
  "consume_any_property_f k junk s = Some (b, r)
    \<Longrightarrow> suffix r s \<and> (2 \<le> length s \<longrightarrow> length r + 2 \<le> length s)"
  "consume_object_f k junk s = Some (b, r) \<Longrightarrow> suffix r s"
  "consume_array_f k junk n s = Some (b, r) \<Longrightarrow> suffix r s"
  using consume_suffix_all by blast+

declare consume_f_step [simp]

lemma consume_fuel:
  "3 * length s + 1 \<le> k \<Longrightarrow> \<exists>x. consume_any_f k junk s = Some x"
  "3 * length s + 2 \<le> k \<Longrightarrow> \<exists>x. consume_any_property_f k junk s = Some x"
  "3 * length s + 3 \<le> k \<Longrightarrow> \<exists>x. consume_object_f k junk s = Some x"
  "3 * length s + 2 \<le> k \<Longrightarrow> \<exists>x. consume_array_f k junk n s = Some x"
proof (induction k junk s and k junk s and k junk s and k junk n s
    rule: consume_any_f_consume_any_property_f_consume_object_f_consume_array_f.induct)
  case (2 k junk s)
  show ?case
  proof (cases s rule: read_type_cases)
    case (2 t r0)
    note IH = "2.IH" [OF this(2) [symmetric] refl]
    have len: "length (snd (read_number_4byte r0)) \<le> length r0"
      by (rule read_number_4byte.rest_length)
    show ?thesis
    proof (cases "amf0_type_of t")
      case AMF0_ARRAY
      then show ?thesis
        using IH(3,4) "2.prems" 2 len by (auto split: prod.splits option.splits)
    qed (use "2.prems" 2 IH(1) IH(2) len in auto)
  qed auto
next
  case (4 k junk s)
  then show ?case
    using read_short_string.rest_length [of False s] by (auto split: prod.splits option.splits)
next
  case (6 k junk s)
  obtain e err r0 where eq: "is_end_of_object s = (e, err, r0)" by (metis prod_cases3)
  note rest = is_end_of_object_rest [OF eq]
  show ?case
  proof (cases "e \<or> err")
    case True
    then show ?thesis using eq by (auto split: bool.splits)
  next
    case False
    then have r0: "\<not> e" "\<not> err" "r0 = s" "3 \<le> length s" using rest by auto
    obtain b1 r1 where p: "consume_any_property_f k junk s = Some (b1, r1)"
      using 6(1) 6(3) r0 eq by fastforce
    have "length r1 + 2 \<le> length s" using consume_suffix(2) [OF p] r0 by auto
    then have "\<exists>x. consume_object_f k junk r1 = Some x"
      using 6(2) 6(3) r0 p eq by auto
    then show ?thesis using eq r0 p by auto
  qed
next
  case (8 k junk n s)
  show ?case
  proof (cases "n = 0")
    case False
    then obtain b r where a: "consume_any_f k junk s = Some (b, r)" using 8(1,3) by fastforce
    have "b \<Longrightarrow> length r < length s" using consume_suffix(1) [OF a] by simp
    then show ?thesis using 8 False a by (auto split: bool.splits)
  qed auto
qed simp_all

text \<open>The functions of the code, with fuel that is always enough.\<close>

definition consume_any :: "u32 \<Rightarrow> bytes \<Rightarrow> bool \<times> bytes" where
  "consume_any junk s = the (consume_any_f (3 * length s + 1) junk s)"

definition consume_any_property :: "u32 \<Rightarrow> bytes \<Rightarrow> bool \<times> bytes" where
  "consume_any_property junk s = the (consume_any_property_f (3 * length s + 2) junk s)"

definition consume_object :: "u32 \<Rightarrow> bytes \<Rightarrow> bool \<times> bytes" where
  "consume_object junk s = the (consume_object_f (3 * length s + 3) junk s)"

definition consume_array :: "u32 \<Rightarrow> nat \<Rightarrow> bytes \<Rightarrow> bool \<times> bytes" where
  "consume_array junk n s = the (consume_array_f (3 * length s + 2) junk n s)"

lemma consume_enough:
  "3 * length s + 1 \<le> k \<Longrightarrow> consume_any_f k junk s = Some (consume_any junk s)"
  "3 * length s + 2 \<le> k \<Longrightarrow> consume_any_property_f k junk s = Some (consume_any_property junk s)"
  "3 * length s + 3 \<le> k \<Longrightarrow> consume_object_f k junk s = Some (consume_object junk s)"
  "3 * length s + 2 \<le> k \<Longrightarrow> consume_array_f k junk n s = Some (consume_array junk n s)"
  unfolding consume_any_def consume_any_property_def consume_object_def consume_array_def
  using consume_fuel [OF order.refl] consume_mono by (metis option.sel)+

lemma consume_any_suffix: "suffix (snd (consume_any junk s)) s"
  and consume_any_progress: "fst (consume_any junk s) \<Longrightarrow> length (snd (consume_any junk s)) < length s"
  using consume_suffix(1) [of _ junk s "fst (consume_any junk s)" "snd (consume_any junk s)",
      unfolded prod.collapse, OF consume_enough(1) [OF order.refl]] by auto

lemma consume_any_property_suffix: "suffix (snd (consume_any_property junk s)) s"
  using consume_suffix(2) [of _ junk s "fst (consume_any_property junk s)"
      "snd (consume_any_property junk s)", unfolded prod.collapse, OF consume_enough(2) [OF order.refl]]
  by auto

lemma read_type_length: "read_type s = (Some t, r) \<Longrightarrow> length s = Suc (length r)"
  by (cases s rule: read_type_cases) auto

lemma consume_any_eq:
  "consume_any junk s = (case read_type s of
      (None, r) \<Rightarrow> (False, r)
    | (Some data_type, r) \<Rightarrow> (case data_type of
        AMF0_BOOLEAN \<Rightarrow> succeeded (read_boolean False r)
      | AMF0_NULL \<Rightarrow> (True, r)
      | AMF0_NUMBER \<Rightarrow> succeeded (read_number False r)
      | AMF0_SHORT_STRING \<Rightarrow> succeeded (read_short_string False r)
      | AMF0_UNDEFINED \<Rightarrow> (True, r)
      | AMF0_OBJECT \<Rightarrow> consume_object junk r
      | AMF0_MIXED_ARRAY \<Rightarrow> consume_object junk (snd (read_number_4byte r))
      | AMF0_ARRAY \<Rightarrow> (case read_number_4byte r of
            (Some array_size, r') \<Rightarrow> consume_array junk (unat array_size) r'
          | (None, r') \<Rightarrow> consume_array junk (unat junk) r')
      | AMF0_OBJECT_END \<Rightarrow> (True, r)
      | _ \<Rightarrow> (True, consume_until_end_of_object r)))"
proof -
  have "Some (consume_any junk s) = consume_any_f (Suc (3 * length s + 6)) junk s"
    by (rule consume_enough(1) [symmetric]) simp
  note unf = this [unfolded consume_any_f.simps]
  then show ?thesis
  proof (cases s rule: read_type_cases)
    case (2 b r)
    then show ?thesis
      using unf read_number_4byte.rest_length [of r]
      by (auto split: amf0_type.splits prod.splits option.splits simp: consume_enough)
  qed simp
qed

lemma consume_any_property_eq:
  "consume_any_property junk s = (case read_short_string False s of
      (None, r) \<Rightarrow> (False, r)
    | (Some key, r) \<Rightarrow> consume_any junk r)"
proof -
  have "Some (consume_any_property junk s) = consume_any_property_f (Suc (3 * length s + 6)) junk s"
    by (rule consume_enough(2) [symmetric]) simp
  note this [unfolded consume_any_property_f.simps]
  then show ?thesis
    using read_short_string.rest_length [of False s]
    by (auto split: prod.splits option.splits simp: consume_enough)
qed

lemma consume_object_eq:
  "consume_object junk s = (case is_end_of_object s of
      (_, True, r) \<Rightarrow> (False, r)
    | (True, False, r) \<Rightarrow> (True, r)
    | (False, False, r) \<Rightarrow> consume_object junk (snd (consume_any_property junk r)))"
proof -
  obtain e err r where eq: "is_end_of_object s = (e, err, r)" by (metis prod_cases3)
  have "length (snd (consume_any_property junk r)) \<le> length r"
    by (rule suffix_length_le [OF consume_any_property_suffix])
  moreover have "length r \<le> length s"
    using is_end_of_object_rest [OF eq] suffix_length_le by blast
  moreover have "Some (consume_object junk s) = consume_object_f (Suc (3 * length s + 6)) junk s"
    by (rule consume_enough(3) [symmetric]) simp
  note this [unfolded consume_object_f.simps]
  ultimately show ?thesis
    using eq by (auto simp: consume_enough split: bool.splits prod.splits)
qed

lemma consume_array_eq:
  "consume_array junk n s =
     (if n = 0 then (True, s)
      else case consume_any junk s of
        (False, r) \<Rightarrow> (False, r)
      | (True, r) \<Rightarrow> consume_array junk (n - 1) r)"
proof -
  have "length (snd (consume_any junk s)) \<le> length s"
    by (rule suffix_length_le [OF consume_any_suffix])
  moreover have "Some (consume_array junk n s) = consume_array_f (Suc (3 * length s + 6)) junk n s"
    by (rule consume_enough(4) [symmetric]) simp
  note this [unfolded consume_array_f.simps]
  ultimately show ?thesis
    by (auto simp: consume_enough split: bool.splits prod.splits)
qed

text \<open>\<open>consume_any\<close> as a reader of one value: it makes progress, so a loop over it ends.\<close>

definition consume_one :: "u32 \<Rightarrow> bytes \<Rightarrow> unit option \<times> bytes" where
  "consume_one junk s = (if fst (consume_any junk s) then Some () else None, snd (consume_any junk s))"

interpretation consume_one: progress_reader "consume_one junk"
  by unfold_locales
    (auto simp: consume_one_def consume_any_suffix dest: consume_any_progress split: if_splits)

text \<open>\<open>consume_full\<close>: the values of a payload until it is used up.\<close>

function consume_full :: "u32 \<Rightarrow> bytes \<Rightarrow> bool \<times> bytes" where
  "consume_full junk s =
     (if get_readable_length s = 0 then (True, s)
      else if fst (consume_any junk s) then consume_full junk (snd (consume_any junk s))
      else (False, snd (consume_any junk s)))"
  by pat_completeness auto
termination
  using consume_one.progress_snd
  by (relation "measure (length \<circ> snd)") (auto simp: consume_one_def)

declare consume_full.simps [simp del]

subsection \<open>The values of AMF0\<close>

datatype amf_value = Amf_Number u64 | Amf_Boolean bool | Amf_String bytes | Amf_Null
  | Amf_Undefined | Amf_Object "(bytes \<times> amf_value) list"
  | Amf_Mixed_Array u32 "(bytes \<times> amf_value) list" | Amf_Array "amf_value list"

fun amf_bytes :: "amf_value \<Rightarrow> bytes" where
  "amf_bytes (Amf_Number d) = 0 # be64 d"
| "amf_bytes (Amf_Boolean b) = [1, bool_byte b]"
| "amf_bytes (Amf_String v) = 2 # string_bytes v"
| "amf_bytes Amf_Null = [5]"
| "amf_bytes Amf_Undefined = [6]"
| "amf_bytes (Amf_Object ps) =
     3 # concat (map (\<lambda>(k, v). string_bytes k @ amf_bytes v) ps) @ [0, 0, 9]"
| "amf_bytes (Amf_Mixed_Array n ps) =
     8 # be32 n @ concat (map (\<lambda>(k, v). string_bytes k @ amf_bytes v) ps) @ [0, 0, 9]"
| "amf_bytes (Amf_Array vs) = 10 # be32 (of_nat (length vs)) @ concat (map amf_bytes vs)"

fun amf_ok :: "amf_value \<Rightarrow> bool" where
  "amf_ok (Amf_String v) \<longleftrightarrow> length v < 32768"
| "amf_ok (Amf_Object ps) \<longleftrightarrow> (\<forall>(k, v) \<in> set ps. length k < 32768 \<and> amf_ok v)"
| "amf_ok (Amf_Mixed_Array n ps) \<longleftrightarrow> (\<forall>(k, v) \<in> set ps. length k < 32768 \<and> amf_ok v)"
| "amf_ok (Amf_Array vs) \<longleftrightarrow> length vs < 2 ^ 32 \<and> (\<forall>v \<in> set vs. amf_ok v)"
| "amf_ok _ \<longleftrightarrow> True"

lemma amf_bytes_head: obtains t b where "amf_bytes v = t # b" "t \<noteq> 9"
  by (cases v) simp_all

lemma be16_zero_iff: "be16 w = [0, 0] \<longleftrightarrow> w = 0"
proof
  assume "be16 w = [0, 0]"
  then have "w = of_be16 0 0" using of_be16_split [of w] by (simp add: be16_def)
  then show "w = 0" by (simp add: of_be16_def)
qed (simp add: be16_def)

lemma key_not_end:
  assumes "length k < 32768"
  shows "is_end_of_object (string_bytes k @ amf_bytes v @ r) =
    (False, False, string_bytes k @ amf_bytes v @ r)"
proof -
  obtain t b where v: "amf_bytes v = t # b" "t \<noteq> 9" by (rule amf_bytes_head)
  obtain x y where xy: "be16 (of_nat (length k)) = [x, y]" by (simp add: be16_def)
  have "x = 0 \<and> y = 0 \<longleftrightarrow> length k = 0"
    using assms be16_zero_iff [of "of_nat (length k)"] xy
    by (auto simp: word_unat_eq_iff unsigned_of_nat take_bit_nat_eq_self)
  then show ?thesis
    using v xy by (cases k)
      (auto simp: is_end_of_object_def check_redable_length_def get_readable_length_def string_bytes_def)
qed

lemma consume_pairs:
  assumes "\<And>k v. (k, v) \<in> set ps \<Longrightarrow> length k < 32768 \<and> (\<forall>r. consume_any junk (amf_bytes v @ r) = (True, r))"
  shows "consume_object junk (concat (map (\<lambda>(k, v). string_bytes k @ amf_bytes v) ps) @ 0 # 0 # 9 # r)
    = (True, r)"
  using assms
proof (induction ps)
  case Nil
  show ?case
    by (subst consume_object_eq)
      (simp add: is_end_of_object_def check_redable_length_def get_readable_length_def)
next
  case (Cons p ps)
  obtain k v where p: "p = (k, v)" by fastforce
  have kv: "length k < 32768" "\<And>r. consume_any junk (amf_bytes v @ r) = (True, r)"
    using Cons.prems [of k v] p by auto
  let ?s = "concat (map (\<lambda>(k, v). string_bytes k @ amf_bytes v) ps) @ 0 # 0 # 9 # r"
  have "snd (consume_any_property junk (string_bytes k @ amf_bytes v @ ?s)) = ?s"
    using read_short_string.decode [of k False "amf_bytes v @ ?s"] kv
    by (subst consume_any_property_eq) simp
  moreover have "consume_object junk ?s = (True, r)"
    by (rule Cons.IH) (use Cons.prems in auto)
  ultimately show ?case
    using p key_not_end [OF kv(1), of v ?s] by (subst consume_object_eq) simp
qed

lemma consume_values:
  assumes "\<And>v. v \<in> set vs \<Longrightarrow> \<forall>r. consume_any junk (amf_bytes v @ r) = (True, r)"
  shows "consume_array junk (length vs) (concat (map amf_bytes vs) @ r) = (True, r)"
  using assms
  by (induction vs) (subst consume_array_eq, simp)+

lemma consume_value:
  assumes "amf_ok v"
  shows "consume_any junk (amf_bytes v @ r) = (True, r)"
  using assms
proof (induction v arbitrary: r)
  case (Amf_Number d)
  then show ?case
    using read_number.decode [of False d r]
    by (subst consume_any_eq) (simp add: read_type_Cons amf0_type_of_def succeeded_def)
next
  case (Amf_Boolean b)
  then show ?case
    using read_boolean.decode [of False b r]
    by (subst consume_any_eq) (simp add: read_type_Cons amf0_type_of_def succeeded_def)
next
  case (Amf_String s)
  then show ?case
    using read_short_string.decode [of s False r]
    by (subst consume_any_eq) (simp add: read_type_Cons amf0_type_of_def succeeded_def)
next
  case (Amf_Object ps)
  then show ?case
    using consume_pairs [of ps junk r]
    by (subst consume_any_eq) (fastforce simp: read_type_Cons amf0_type_of_def)
next
  case (Amf_Mixed_Array n ps)
  then show ?case
    using consume_pairs [of ps junk r] read_number_4byte.decode
    by (subst consume_any_eq) (fastforce simp: read_type_Cons amf0_type_of_def)
next
  case (Amf_Array vs)
  then have "consume_array junk (length vs) (concat (map amf_bytes vs) @ r) = (True, r)"
    by (intro consume_values) simp
  then show ?case
    using Amf_Array.prems read_number_4byte.decode
    by (subst consume_any_eq)
      (simp add: read_type_Cons amf0_type_of_def unsigned_of_nat take_bit_nat_eq_self)
qed (subst consume_any_eq, simp add: read_type_Cons amf0_type_of_def)+

text \<open>C13: skipping consumes exactly the bytes of a well-formed AMF0 value, nested objects, ECMA
  arrays and strict arrays included, and leaves what follows it; so a parser that skips an
  argument stays in step with the stream.\<close>

theorem consume_any_exact:
  assumes "amf_ok v"
  shows "consume_any junk (amf_bytes v @ r) = (True, r)"
  using assms by (rule consume_value)

theorem consume_any_exact_witness:
  "consume_any 7 (amf_bytes (Amf_Object [([0x61], Amf_Number 0), ([], Amf_Array [Amf_Null])]) @ [1, 1])
     = (True, [1, 1])"
  by (rule consume_any_exact) simp

text \<open>C28: skipping always returns: three units of fuel per byte are enough on any input. What is
  left is a suffix of the input, and a success has consumed at least one byte.\<close>

theorem consume_any_terminates:
  "\<exists>b r. consume_any_f (3 * length s + 1) junk s = Some (b, r) \<and> suffix r s
     \<and> (b \<longrightarrow> length r < length s)"
  using consume_suffix(1) consume_enough(1) [OF order.refl, of s junk]
  by (metis surj_pair)

theorem consume_any_terminates_witness:
  "\<exists>b r. consume_any_f 10 0 [3, 0, 0] = Some (b, r) \<and> suffix r [3, 0, 0]
     \<and> (b \<longrightarrow> length r < Suc (Suc (Suc 0)))"
  using consume_any_terminates [of "[3, 0, 0]" 0] by (simp del: consume_any_f.simps)

lemma consume_values_full:
  assumes "\<forall>v \<in> set vs. amf_ok v"
  shows "consume_full junk (concat (map amf_bytes vs)) = (True, [])"
  using assms
proof (induction vs)
  case Nil
  show ?case by (subst consume_full.simps) (simp add: get_readable_length_def)
next
  case (Cons v vs)
  obtain t b where "amf_bytes v = t # b" by (rule amf_bytes_head)
  then show ?case
    using Cons consume_value [of v junk "concat (map amf_bytes vs)"]
    by (subst consume_full.simps) (simp add: get_readable_length_def)
qed

text \<open>\<open>consume_full\<close> accepts any sequence of well-formed values and uses it up.\<close>

theorem consume_full_values:
  assumes "\<forall>v \<in> set vs. amf_ok v"
  shows "consume_full junk (concat (map amf_bytes vs)) = (True, [])"
  using assms by (rule consume_values_full)

theorem consume_full_values_witness:
  "consume_full 0 (concat (map amf_bytes [Amf_Null, Amf_Mixed_Array 1 [([0x61], Amf_Boolean True)]]))
     = (True, [])"
  by (rule consume_full_values) simp

text \<open>Strings. What \<open>write_short_string\<close> writes is read back if it is shorter than 32768
  bytes; from there to 65535, the limit the header file gives, it is written but refused when
  read, with the length consumed, because the length is held in a signed \<open>short\<close>.\<close>

theorem short_string_limit:
  assumes "length v < 65536" and "length v + length r < 2 ^ 63"
  shows "read_short_string t (fst (write_short_string v t ([], 0)) @ r) =
    (if length v < 32768 then (Some v, r) else (None, v @ r))"
proof (cases "length v < 32768")
  case True
  then show ?thesis using read_short_string.decode [of v t r] by (simp add: byte_simps)
next
  case False
  then have "2 ^ 63 \<le> short_to_size (of_nat (length v))"
    using assms(1) by (intro short_to_size_large) auto
  then show ?thesis
    using False assms(2) read_short.decode [of "of_nat (length v)" "v @ r"]
    by (cases t) (simp_all add: byte_simps read_short_string_def expect_type_bytes amf0_type_of_def
        need_def string_bytes_def and_then_def)
qed

theorem short_string_limit_witness:
  "read_short_string True (fst (write_short_string (replicate 40000 0x61) True ([], 0)) @ [0]) =
     (None, replicate 40000 0x61 @ [0])"
  using short_string_limit [of "replicate 40000 0x61" "[0]" True] by simp

end
