(* ===== verification/Ieee_Double.thy ===== *)
theory Ieee_Double
  imports Rtmp_Prelude "HOL-Library.Log_Nat"
begin

text \<open>
  The conversions between \<open>double\<close> and integers that the code applies to AMF0 numbers, on the
  64-bit IEEE 754 pattern that is on the wire. A conversion truncates toward zero. What C++
  leaves undefined (a value out of range, an infinity, a NaN) is what x86-64 compilers do: the
  instruction's "integer indefinite" value for \<open>int\<close>, the low half of the 64-bit
  conversion for \<open>unsigned int\<close>. Shown: an integer survives the way to a double and back.
\<close>

definition double_exponent :: "u64 \<Rightarrow> nat" where
  "double_exponent v = unat (drop_bit 52 v AND 0x7FF)"

definition double_significand :: "u64 \<Rightarrow> nat" where
  "double_significand v = 2 ^ 52 + unat (v AND 0xFFFFFFFFFFFFF)"

text \<open>The integral part of the absolute value; \<open>None\<close> for infinities and NaNs.\<close>

definition double_magnitude :: "u64 \<Rightarrow> nat option" where
  "double_magnitude v = (let e = double_exponent v in
     if e = 0x7FF then None
     else if e < 1023 then Some 0
     else if e \<le> 1075 then Some (double_significand v div 2 ^ (1075 - e))
     else Some (double_significand v * 2 ^ (e - 1075)))"

definition double_trunc :: "u64 \<Rightarrow> int option" where
  "double_trunc v = map_option (\<lambda>m. if bit v 63 then - int m else int m) (double_magnitude v)"

definition double_to_int :: "u64 \<Rightarrow> u32" where
  "double_to_int v = (case double_trunc v of
     Some i \<Rightarrow> if - (2 ^ 31) \<le> i \<and> i < 2 ^ 31 then word_of_int i else 0x80000000
   | None \<Rightarrow> 0x80000000)"

definition double_to_uint :: "u64 \<Rightarrow> u32" where
  "double_to_uint v = (case double_trunc v of
     Some i \<Rightarrow> if - (2 ^ 63) \<le> i \<and> i < 2 ^ 63 then word_of_int i else 0
   | None \<Rightarrow> 0)"

text \<open>An \<open>unsigned int\<close> as a \<open>double\<close>, which is exact.\<close>

definition uint_to_double :: "u32 \<Rightarrow> u64" where
  "uint_to_double v = (if v = 0 then 0 else
     let e = floorlog 2 (unat v) - 1 in
     of_nat ((1023 + e) * 2 ^ 52 + (unat v * 2 ^ (52 - e) - 2 ^ 52)))"

lemma double_parts:
  assumes "e < 2048" and "f < 2 ^ 52"
  defines "v \<equiv> (of_nat (e * 2 ^ 52 + f) :: u64)"
  shows "double_exponent v = e" and "double_significand v = 2 ^ 52 + f"
    and "\<not> bit v 63"
proof -
  have lt: "e * 2 ^ 52 + f < 2048 * 2 ^ 52" using assms(1,2) by simp
  then have "take_bit 64 (e * 2 ^ 52 + f) = e * 2 ^ 52 + f"
    by (intro take_bit_nat_eq_self) simp
  then have v: "unat v = e * 2 ^ 52 + f"
    unfolding v_def unsigned_of_nat by simp
  have m: "(0x7FF :: u64) = mask 11" "(0xFFFFFFFFFFFFF :: u64) = mask 52" by code_simp+
  have "double_exponent v = (e * 2 ^ 52 + f) div 2 ^ 52 mod 2 ^ 11"
    unfolding double_exponent_def m
    by (simp add: take_bit_eq_mask [symmetric] take_bit_eq_mod drop_bit_eq_div unat_mod unat_div v)
  then show "double_exponent v = e" using assms(1,2) by simp
  show "double_significand v = 2 ^ 52 + f"
    unfolding double_significand_def m
    using assms(2) by (simp add: take_bit_eq_mask [symmetric] take_bit_eq_mod unat_mod v)
  have "drop_bit 63 v = 0"
    using lt by (simp add: drop_bit_eq_div word_unat_eq_iff unat_div v)
  then show "\<not> bit v 63" by (simp add: bit_iff_odd_drop_bit)
qed

lemma floorlog_bounds:
  assumes "0 < n" and "n < 2 ^ 32"
  shows "2 ^ (floorlog 2 n - 1) \<le> n" and "n < 2 * 2 ^ (floorlog 2 n - 1)"
    and "floorlog 2 n - 1 < 32"
proof -
  have b: "2 ^ (floorlog 2 n - 1) \<le> n" "n < 2 ^ floorlog 2 n" "0 < floorlog 2 n"
    using assms(1) floorlog_bounds [of n 2] by (auto simp: floorlog_def)
  then show "2 ^ (floorlog 2 n - 1) \<le> n" "n < 2 * 2 ^ (floorlog 2 n - 1)"
    by (auto simp flip: power_Suc)
  show "floorlog 2 n - 1 < 32"
    using b(1) assms(2) by (metis order_le_less_trans one_less_numeral_iff power_less_imp_less_exp semiring_norm(76))
qed

lemma double_trunc_uint: "double_trunc (uint_to_double v) = Some (int (unat v))"
proof (cases "v = 0")
  case True
  then show ?thesis by (simp add: uint_to_double_def double_trunc_def double_magnitude_def
        double_exponent_def Let_def)
next
  case False
  define n e where "n = unat v" and "e = floorlog 2 (unat v) - 1"
  have n: "0 < n" "n < 2 ^ 32" using False unsigned_less [of v] by (simp_all add: n_def unat_gt_0)
  note b = floorlog_bounds [OF n, unfolded n_def, folded e_def n_def]
  let ?f = "n * 2 ^ (52 - e) - 2 ^ 52"
  have e: "2 ^ 52 = 2 ^ e * (2 ^ (52 - e) :: nat)"
    using b(3) by (simp flip: power_add)
  have lo: "2 ^ 52 \<le> n * 2 ^ (52 - e)" unfolding e using b(1) by simp
  have hi: "n * 2 ^ (52 - e) < 2 * 2 ^ 52" unfolding e using b(2) by simp
  have "?f < 2 ^ 52" using lo hi by linarith
  moreover have "1023 + e < 2048" using b(3) by simp
  moreover have "uint_to_double v = of_nat ((1023 + e) * 2 ^ 52 + ?f)"
    unfolding uint_to_double_def Let_def n_def e_def by (simp only: False if_False)
  moreover have "2 ^ 52 + ?f = n * 2 ^ (52 - e)" using lo by (rule le_add_diff_inverse)
  ultimately have p: "double_exponent (uint_to_double v) = 1023 + e"
    "double_significand (uint_to_double v) = n * 2 ^ (52 - e)" "\<not> bit (uint_to_double v) 63"
    using double_parts [of "1023 + e" ?f] by simp_all
  have "1075 - (1023 + e) = 52 - e" using b(3) by simp
  then have "double_magnitude (uint_to_double v) = Some n"
    using p b(3) by (simp add: double_magnitude_def Let_def)
  then show ?thesis using p(3) by (simp add: double_trunc_def n_def)
qed

text \<open>An \<open>unsigned int\<close> that the server sends as an AMF0 number is the number a
  conversion back gives; the stream id of a reply names the stream of the request.\<close>

theorem uint_double_roundtrip: "double_to_uint (uint_to_double v) = v"
proof -
  have lt: "uint v < 2 ^ LENGTH(32)" by (rule unsigned_less)
  have ge: "0 \<le> uint v" by simp
  have "- (2 ^ 63) \<le> uint v" by (rule order.trans [OF _ ge]) simp
  moreover have "uint v < 2 ^ 63" by (rule order.strict_trans [OF lt]) simp
  ultimately show ?thesis by (simp add: double_to_uint_def double_trunc_uint)
qed

end
