(* ===== verification/Rtmp_Message.thy ===== *)
theory Rtmp_Message
  imports Rtmp_Header Amf0 Ieee_Double
begin

text \<open>
  The messages: the class hierarchy below \<open>protocol/RtmpMessage.hpp\<close> (control, command, data
  and media messages) as one record with the header and a datatype for what each class adds,
  and how each is written: the body first, its length into the header, then the header and
  the body cut into chunks. Message ids, kept for the log, and \<open>to_string\<close> are left out. A
  \<open>double\<close> is its bit pattern, a string the list of its bytes.

  The place in a body is a natural number. In the code it is the product of an index and the chunk
  size in 32 bits, which is the same for bodies of less than 4 GiB.

  Shown: for every message the number of bytes that \<open>write_payload\<close> returns is the number it
  appends, and the body that goes out is whole: taking the chunk headers out gives it back.
\<close>

subsection \<open>The message classes\<close>

datatype limit_type = LIMIT_TYPE_HARD | LIMIT_TYPE_SOFT | LIMIT_TYPE_DYNAMIC | LIMIT_TYPE_UNKNOWN

definition limit_type_value :: "limit_type \<Rightarrow> byte" where
  "limit_type_value t = (case t of LIMIT_TYPE_HARD \<Rightarrow> 0 | LIMIT_TYPE_SOFT \<Rightarrow> 1
     | LIMIT_TYPE_DYNAMIC \<Rightarrow> 2 | LIMIT_TYPE_UNKNOWN \<Rightarrow> 0xFF)"

definition get_limit_type :: "byte \<Rightarrow> limit_type" where
  "get_limit_type t = (if t < 3
     then if t = 0 then LIMIT_TYPE_HARD else if t = 1 then LIMIT_TYPE_SOFT else LIMIT_TYPE_DYNAMIC
     else LIMIT_TYPE_UNKNOWN)"

datatype event_type = EVENT_TYPE_STREAM_BEGIN | EVENT_TYPE_STREAM_EOF | EVENT_TYPE_STREAM_DRY
  | EVENT_TYPE_SET_BUFFER_LENGTH | EVENT_TYPE_STREAM_IS_RECORDED | EVENT_TYPE_PING_REQUEST
  | EVENT_TYPE_PING_RESPONSE | EVENT_TYPE_UNKNOWN

definition event_type_value :: "event_type \<Rightarrow> u16" where
  "event_type_value t = (case t of EVENT_TYPE_STREAM_BEGIN \<Rightarrow> 0 | EVENT_TYPE_STREAM_EOF \<Rightarrow> 1
     | EVENT_TYPE_STREAM_DRY \<Rightarrow> 2 | EVENT_TYPE_SET_BUFFER_LENGTH \<Rightarrow> 3
     | EVENT_TYPE_STREAM_IS_RECORDED \<Rightarrow> 4 | EVENT_TYPE_PING_REQUEST \<Rightarrow> 6
     | EVENT_TYPE_PING_RESPONSE \<Rightarrow> 7 | EVENT_TYPE_UNKNOWN \<Rightarrow> 0xFF)"

definition get_event_type :: "u16 \<Rightarrow> event_type" where
  "get_event_type t =
     (if t < 8 \<and> t \<noteq> 5
      then if t = 0 then EVENT_TYPE_STREAM_BEGIN else if t = 1 then EVENT_TYPE_STREAM_EOF
        else if t = 2 then EVENT_TYPE_STREAM_DRY else if t = 3 then EVENT_TYPE_SET_BUFFER_LENGTH
        else if t = 4 then EVENT_TYPE_STREAM_IS_RECORDED
        else if t = 6 then EVENT_TYPE_PING_REQUEST else EVENT_TYPE_PING_RESPONSE
      else EVENT_TYPE_UNKNOWN)"

datatype on_status_code = ON_STATUS_CODE_PUBLISH_START | ON_STATUS_CODE_PLAY_START
  | ON_STATUS_CODE_PLAY_RESET

definition get_type_string :: "on_status_code \<Rightarrow> bytes" where
  "get_type_string code = (case code of
     ON_STATUS_CODE_PUBLISH_START \<Rightarrow> ascii ''NetStream.Publish.Start''
   | ON_STATUS_CODE_PLAY_START \<Rightarrow> ascii ''NetStream.Play.Start''
   | ON_STATUS_CODE_PLAY_RESET \<Rightarrow> ascii ''NetStream.Play.Reset'')"

definition get_description :: "on_status_code \<Rightarrow> bytes" where
  "get_description code = (case code of
     ON_STATUS_CODE_PUBLISH_START \<Rightarrow> ascii ''Start publishing''
   | ON_STATUS_CODE_PLAY_START \<Rightarrow> ascii ''start...''
   | ON_STATUS_CODE_PLAY_RESET \<Rightarrow> ascii ''reset...'')"

text \<open>The fields of a connect request; \<open>None\<close> is a member that was never assigned.\<close>

record connect_fields =
  app :: bytes
  flashver :: bytes
  tc_url :: bytes
  fpad :: "bool option"
  capabilities :: "u32 option"
  audio_codecs :: "u32 option"
  video_codecs :: "u32 option"
  video_function :: "u32 option"
  object_encoding :: "u32 option"

definition no_connect_fields :: connect_fields where
  "no_connect_fields = \<lparr> app = [], flashver = [], tc_url = [], fpad = None, capabilities = None,
     audio_codecs = None, video_codecs = None, video_function = None, object_encoding = None \<rparr>"

datatype meta_data_type = SIMPLE | DETAIL

record media_meta_data =
  data_type :: meta_data_type
  width :: u64
  height :: u64
  server :: bytes
  bandwidth :: u64
  description :: bytes
  framerate :: u64
  video_codec_id :: bytes
  audio_codec_id :: bytes
  creation_date :: bytes
  audio_channels :: u64
  audio_data_rate :: u64
  audio_device :: bytes
  audio_input_volume :: u64
  audio_sample_rate :: u64
  author :: bytes
  avc_level :: u64
  avc_profile :: u64
  copyright :: bytes
  key_words :: bytes
  preset_name :: bytes
  rating :: bytes
  title :: bytes
  video_data_rate :: u64
  video_device :: bytes
  video_key_frame_frequency :: u64

datatype rtmp_body =
    SetChunkSize u32 | AbortMessage u32 | Acknowledgement u32
  | WindowAcknowledgementSize u32 | SetPeerBandwidth u32 limit_type
  | StreamBegin u32 | StreamEof u32 | StreamDry u32 | SetBufferLength u32 u32
  | StreamIsRecorded u32 | PingRequest u32 | PingResponse u32
  | ConnectMessage connect_fields | ReleaseStream bytes | FCPublish bytes | FCUnPublish bytes
  | CreateStream | DeleteStream u64 | Publish bytes bytes | Play bytes | UnknownCommand bytes
  | ConnectResult u64 | OnBWDone u64 | CallError | SimpleResult "u64 option"
  | OnFCPublish bytes | OnStatus on_status_code bytes bytes
  | RtmpSampleAccess | OnMetaData media_meta_data
  | AudioMessage bytes | VideoMessage bytes | UnknownMessage bytes

record rtmp_message =
  header :: rtmp_header
  body :: rtmp_body
  transaction_id :: u64
  write_chunk_size :: u32

text \<open>\<open>RtmpMessageType\<close>, which the constructors set, and the class name.\<close>

datatype rtmp_message_type = UNKNOWN | SET_CHUNK_SIZE | ABORT | MSG_ACK | WIN_ACK_SIZE | PEER_BW | AUDIO
  | VIDEO | STREAM_BEGIN | STREAM_EOF | STREAM_DRY | SET_BUFFER_LEN | STREAM_IS_RECORDED
  | PING_REQUEST | PING_RESPONSE | CONNECT | CONNECT_RESULT | ON_BW_DONE | RELEASE_STREAM
  | FC_PUBLISH | FC_UNPUBLISH | CREATE_STREAM | DELETE_STREAM | CALL_ERROR | SIMPLE_RESULT
  | ON_FC_PUBLISH | PUBLISH | PLAY | ON_STATUS | RTMP_SAMPLE_ACCESS | ON_METADATA

definition message_type :: "rtmp_body \<Rightarrow> rtmp_message_type" where
  "message_type b = (case b of SetChunkSize _ \<Rightarrow> SET_CHUNK_SIZE | AbortMessage _ \<Rightarrow> ABORT
     | Acknowledgement _ \<Rightarrow> MSG_ACK | WindowAcknowledgementSize _ \<Rightarrow> WIN_ACK_SIZE
     | SetPeerBandwidth _ _ \<Rightarrow> PEER_BW | StreamBegin _ \<Rightarrow> STREAM_BEGIN | StreamEof _ \<Rightarrow> STREAM_EOF
     | StreamDry _ \<Rightarrow> STREAM_DRY | SetBufferLength _ _ \<Rightarrow> SET_BUFFER_LEN
     | StreamIsRecorded _ \<Rightarrow> STREAM_IS_RECORDED | PingRequest _ \<Rightarrow> PING_REQUEST
     | PingResponse _ \<Rightarrow> PING_RESPONSE | ConnectMessage _ \<Rightarrow> CONNECT
     | ReleaseStream _ \<Rightarrow> RELEASE_STREAM | FCPublish _ \<Rightarrow> FC_PUBLISH | FCUnPublish _ \<Rightarrow> FC_UNPUBLISH
     | CreateStream \<Rightarrow> CREATE_STREAM | DeleteStream _ \<Rightarrow> DELETE_STREAM | Publish _ _ \<Rightarrow> PUBLISH
     | Play _ \<Rightarrow> PLAY | UnknownCommand _ \<Rightarrow> UNKNOWN | ConnectResult _ \<Rightarrow> CONNECT_RESULT
     | OnBWDone _ \<Rightarrow> ON_BW_DONE | CallError \<Rightarrow> CALL_ERROR | SimpleResult _ \<Rightarrow> SIMPLE_RESULT
     | OnFCPublish _ \<Rightarrow> ON_FC_PUBLISH | OnStatus _ _ _ \<Rightarrow> ON_STATUS
     | RtmpSampleAccess \<Rightarrow> RTMP_SAMPLE_ACCESS | OnMetaData _ \<Rightarrow> ON_METADATA
     | AudioMessage _ \<Rightarrow> AUDIO | VideoMessage _ \<Rightarrow> VIDEO | UnknownMessage _ \<Rightarrow> UNKNOWN)"

definition get_class_name :: "rtmp_body \<Rightarrow> string" where
  "get_class_name b = (case b of SetChunkSize _ \<Rightarrow> ''SetChunkSize''
     | AbortMessage _ \<Rightarrow> ''AbortMessage'' | Acknowledgement _ \<Rightarrow> ''Acknowledgement''
     | WindowAcknowledgementSize _ \<Rightarrow> ''WindowAcknowledgementSize''
     | SetPeerBandwidth _ _ \<Rightarrow> ''SetPeerBandwidth'' | StreamBegin _ \<Rightarrow> ''StreamBegin''
     | StreamEof _ \<Rightarrow> ''StreamEof'' | StreamDry _ \<Rightarrow> ''StreamDry''
     | SetBufferLength _ _ \<Rightarrow> ''SetBufferLength'' | StreamIsRecorded _ \<Rightarrow> ''StreamIsRecorded''
     | PingRequest _ \<Rightarrow> ''PingRequest'' | PingResponse _ \<Rightarrow> ''PingResponse''
     | ConnectMessage _ \<Rightarrow> ''ConnectMessage'' | ReleaseStream _ \<Rightarrow> ''ReleaseStream''
     | FCPublish _ \<Rightarrow> ''FCPublish'' | FCUnPublish _ \<Rightarrow> ''FCUnPublish''
     | CreateStream \<Rightarrow> ''CreateStream'' | DeleteStream _ \<Rightarrow> ''DeleteStream''
     | Publish _ _ \<Rightarrow> ''Publish'' | Play _ \<Rightarrow> ''Play'' | UnknownCommand _ \<Rightarrow> ''CommandMessage''
     | ConnectResult _ \<Rightarrow> ''ConnectResult'' | OnBWDone _ \<Rightarrow> ''OnBWDone''
     | CallError \<Rightarrow> ''CallError'' | SimpleResult _ \<Rightarrow> ''SimpleResult''
     | OnFCPublish _ \<Rightarrow> ''OnFCPublish'' | OnStatus _ _ _ \<Rightarrow> ''OnStatus''
     | RtmpSampleAccess \<Rightarrow> ''RtmpSampleAccess'' | OnMetaData _ \<Rightarrow> ''OnMetaData''
     | AudioMessage _ \<Rightarrow> ''AudioMessage'' | VideoMessage _ \<Rightarrow> ''VideoMessage''
     | UnknownMessage _ \<Rightarrow> ''RtmpMessage'')"

subsection \<open>Constructors\<close>

definition base_message :: "msg_type \<Rightarrow> rtmp_body \<Rightarrow> rtmp_message" where
  "base_message t b = \<lparr> header = header_reset\<lparr>msg_type_id := t\<rparr>, body = b, transaction_id = 0,
     write_chunk_size = 128 \<rparr>"

definition control_type :: "rtmp_body \<Rightarrow> msg_type \<times> u32" where
  "control_type b = (case b of SetChunkSize _ \<Rightarrow> (CHUNKSIZE, 4) | AbortMessage _ \<Rightarrow> (ABORTMESSAGE, 4)
     | Acknowledgement _ \<Rightarrow> (ACK, 4) | WindowAcknowledgementSize _ \<Rightarrow> (WINACKSIZE, 4)
     | SetPeerBandwidth _ _ \<Rightarrow> (PEERBANDWIDTH, 5) | StreamBegin _ \<Rightarrow> (USRCTRL, 6)
     | StreamEof _ \<Rightarrow> (USRCTRL, 6) | StreamDry _ \<Rightarrow> (USRCTRL, 6)
     | SetBufferLength _ _ \<Rightarrow> (USRCTRL, 10) | StreamIsRecorded _ \<Rightarrow> (USRCTRL, 6)
     | PingRequest _ \<Rightarrow> (USRCTRL, 6) | PingResponse _ \<Rightarrow> (USRCTRL, 6)
     | _ \<Rightarrow> (TYPE_UNKNOWN, 0))"

definition control_message :: "rtmp_body \<Rightarrow> rtmp_message" where
  "control_message b = (base_message (fst (control_type b)) b)
     \<lparr>header := header_reset\<lparr>format_type := FULL, chunk_stream_id := 2, msg_stream_id := 0,
        timestamp := 0, msg_type_id := fst (control_type b), msg_length := snd (control_type b)\<rparr>\<rparr>"

definition command_message :: "u64 \<Rightarrow> rtmp_body \<Rightarrow> rtmp_message" where
  "command_message tid b = (base_message COMMAND_AMF0 b)\<lparr>transaction_id := tid\<rparr>"

definition addressed :: "format_type \<Rightarrow> u32 \<Rightarrow> u32 \<Rightarrow> u32 \<Rightarrow> rtmp_message \<Rightarrow> rtmp_message" where
  "addressed fmt cs_id stream_id chunk m = m\<lparr>write_chunk_size := chunk,
     header := (header m)\<lparr>format_type := fmt, chunk_stream_id := cs_id, msg_stream_id := stream_id\<rparr>\<rparr>"

definition reply :: "format_type \<Rightarrow> u32 \<Rightarrow> u32 \<Rightarrow> u64 \<Rightarrow> u32 \<Rightarrow> rtmp_body \<Rightarrow> rtmp_message" where
  "reply fmt cs_id stream_id tid chunk b =
     addressed fmt cs_id stream_id chunk (command_message tid b)"

definition data_message :: "format_type \<Rightarrow> u32 \<Rightarrow> u32 \<Rightarrow> u32 \<Rightarrow> rtmp_body \<Rightarrow> rtmp_message" where
  "data_message fmt cs_id stream_id chunk b =
     addressed fmt cs_id stream_id chunk (base_message DATA_AMF0 b)"

definition media_message ::
  "format_type \<Rightarrow> u32 \<Rightarrow> u32 \<Rightarrow> u32 \<Rightarrow> u32 \<Rightarrow> rtmp_body \<Rightarrow> rtmp_message" where
  "media_message fmt cs_id stream_id chunk ts b =
     (let m = addressed fmt cs_id stream_id chunk
        (base_message (case b of VideoMessage _ \<Rightarrow> VIDEODATA | _ \<Rightarrow> AUDIODATA) b)
      in m\<lparr>header := (header m)\<lparr>timestamp := ts, timestamp_delta := ts\<rparr>\<rparr>)"

subsection \<open>Writing control messages\<close>

definition write_event :: "event_type \<Rightarrow> u32 \<Rightarrow> wst \<Rightarrow> wst" where
  "write_event t v = writes [write_ushort (event_type_value t) True, write_uint v True]"

definition write_control_body :: "rtmp_body \<Rightarrow> wst \<Rightarrow> wst" where
  "write_control_body b = (case b of
      SetChunkSize v \<Rightarrow> write_uint v True
    | AbortMessage v \<Rightarrow> write_uint v True
    | Acknowledgement v \<Rightarrow> write_uint v True
    | WindowAcknowledgementSize v \<Rightarrow> write_uint v True
    | SetPeerBandwidth v t \<Rightarrow> writes [write_uint v True, write_uchar (limit_type_value t)]
    | StreamBegin v \<Rightarrow> write_event EVENT_TYPE_STREAM_BEGIN v
    | StreamEof v \<Rightarrow> write_event EVENT_TYPE_STREAM_EOF v
    | StreamDry v \<Rightarrow> write_event EVENT_TYPE_STREAM_DRY v
    | SetBufferLength v n \<Rightarrow>
        writes [write_event EVENT_TYPE_SET_BUFFER_LENGTH v, write_uint n True]
    | StreamIsRecorded v \<Rightarrow> write_event EVENT_TYPE_STREAM_IS_RECORDED v
    | PingRequest v \<Rightarrow> write_event EVENT_TYPE_PING_REQUEST v
    | PingResponse v \<Rightarrow> write_event EVENT_TYPE_PING_RESPONSE v
    | _ \<Rightarrow> writes [])"

subsection \<open>Writing command and data messages\<close>

definition write_str :: "string \<Rightarrow> wst \<Rightarrow> wst" where
  "write_str s = write_short_string (ascii s) True"

definition write_key :: "string \<Rightarrow> wst \<Rightarrow> wst" where
  "write_key s = write_object_key (ascii s)"

definition write_string_property :: "string \<Rightarrow> bytes \<Rightarrow> wst \<Rightarrow> wst" where
  "write_string_property k v = writes [write_key k, write_short_string v True]"

definition write_number_property :: "string \<Rightarrow> u64 \<Rightarrow> wst \<Rightarrow> wst" where
  "write_number_property k v = writes [write_key k, write_number v True]"

definition write_payload_simple :: "media_meta_data \<Rightarrow> wst \<Rightarrow> wst" where
  "write_payload_simple d = writes [write_type AMF0_OBJECT,
     write_number_property ''width'' (width d), write_number_property ''height'' (height d),
     write_string_property ''Server'' (server d),
     write_number_property ''bandwidth'' (bandwidth d), write_end_of_object]"

definition write_payload_detail :: "media_meta_data \<Rightarrow> wst \<Rightarrow> wst" where
  "write_payload_detail d = writes [write_type AMF0_OBJECT,
     write_string_property ''description'' (description d),
     write_number_property ''width'' (width d),
     write_number_property ''height'' (height d),
     write_number_property ''framerate'' (framerate d),
     write_string_property ''videocodecid'' (video_codec_id d),
     write_string_property ''audiocodecid'' (audio_codec_id d),
     write_string_property ''creationdate'' (creation_date d),
     write_number_property ''audiochannels'' (audio_channels d),
     write_number_property ''audiodatarate'' (audio_data_rate d),
     write_string_property ''audiodevice'' (audio_device d),
     write_number_property ''audioinputvolume'' (audio_input_volume d),
     write_number_property ''audiosamplerate'' (audio_sample_rate d),
     write_string_property ''author'' (author d),
     write_number_property ''avclevel'' (avc_level d),
     write_number_property ''avcprofile'' (avc_profile d),
     write_string_property ''copyright'' (copyright d),
     write_string_property ''keywords'' (key_words d),
     write_string_property ''presetname'' (preset_name d),
     write_string_property ''rating'' (rating d),
     write_string_property ''title'' (title d),
     write_number_property ''videodatarate'' (video_data_rate d),
     write_string_property ''videodevice'' (video_device d),
     write_number_property ''videokeyframe_frequency'' (video_key_frame_frequency d),
     write_end_of_object]"

definition write_meta_data :: "media_meta_data \<Rightarrow> wst \<Rightarrow> wst" where
  "write_meta_data d =
     (case data_type d of SIMPLE \<Rightarrow> write_payload_simple d | DETAIL \<Rightarrow> write_payload_detail d)"

text \<open>
  \<open>write_body_payload\<close> of each class. The classes that are only received write nothing. The
  number 31 is the pattern \<open>0x403F000000000000\<close>.
\<close>

definition write_connect_result :: "u64 \<Rightarrow> u64 \<Rightarrow> wst \<Rightarrow> wst" where
  "write_connect_result encoding tid = writes [write_str ''_result'', write_number tid True,
     write_type AMF0_OBJECT,
     write_string_property ''fmsVer'' (ascii ''FMS/3,0,1,123''),
     write_number_property ''capabilities'' 0x403F000000000000, write_end_of_object,
     write_type AMF0_OBJECT,
     write_string_property ''level'' (ascii ''status''),
     write_string_property ''code'' (ascii ''NetConnection.Connect.Success''),
     write_string_property ''description'' (ascii ''Connection succeeded''),
     write_number_property ''objectEncoding'' encoding, write_end_of_object]"

definition write_on_bw_done :: "u64 \<Rightarrow> u64 \<Rightarrow> wst \<Rightarrow> wst" where
  "write_on_bw_done speed tid = writes [write_str ''onBWDone'', write_number tid True, write_null,
     write_number speed True]"

definition write_call_error :: "u64 \<Rightarrow> wst \<Rightarrow> wst" where
  "write_call_error tid = writes [write_str ''_error'', write_number tid True, write_null,
     write_type AMF0_OBJECT,
     write_string_property ''level'' (ascii ''error''),
     write_string_property ''code'' (ascii ''NetConnection.Call.Failed''),
     write_string_property ''description''
       (ascii ''Specified stream not found in call to releaseStream''), write_end_of_object]"

definition write_simple_result :: "u64 option \<Rightarrow> u64 \<Rightarrow> wst \<Rightarrow> wst" where
  "write_simple_result second tid = writes [write_str ''_result'', write_number tid True, write_null,
     (case second of Some v \<Rightarrow> write_number v True | None \<Rightarrow> write_null)]"

definition write_on_fc_publish :: "bytes \<Rightarrow> u64 \<Rightarrow> wst \<Rightarrow> wst" where
  "write_on_fc_publish stream_name tid = writes [write_str ''onFCPublish'', write_number tid True,
     write_null, write_type AMF0_OBJECT,
     write_string_property ''code'' (ascii ''NetStream.Publish.Start''),
     write_string_property ''description'' stream_name, write_end_of_object]"

definition write_on_status :: "on_status_code \<Rightarrow> u64 \<Rightarrow> wst \<Rightarrow> wst" where
  "write_on_status code tid = writes [write_str ''onStatus'', write_number tid True, write_null,
     write_type AMF0_OBJECT,
     write_string_property ''level'' (ascii ''status''),
     write_string_property ''code'' (get_type_string code),
     write_string_property ''description'' (get_description code), write_end_of_object]"

definition write_rtmp_sample_access :: "wst \<Rightarrow> wst" where
  "write_rtmp_sample_access = writes [write_str ''|RtmpSampleAccess'', write_boolean False True,
     write_boolean False True]"

definition write_on_meta_data :: "media_meta_data \<Rightarrow> wst \<Rightarrow> wst" where
  "write_on_meta_data d = writes [write_str ''onMetaData'', write_meta_data d]"

definition write_body_payload :: "rtmp_body \<Rightarrow> u64 \<Rightarrow> wst \<Rightarrow> wst" where
  "write_body_payload b tid = (case b of
      ConnectResult encoding \<Rightarrow> write_connect_result encoding tid
    | OnBWDone speed \<Rightarrow> write_on_bw_done speed tid
    | CallError \<Rightarrow> write_call_error tid
    | SimpleResult second \<Rightarrow> write_simple_result second tid
    | OnFCPublish stream_name \<Rightarrow> write_on_fc_publish stream_name tid
    | OnStatus code stream_name client_id \<Rightarrow> write_on_status code tid
    | RtmpSampleAccess \<Rightarrow> write_rtmp_sample_access
    | OnMetaData d \<Rightarrow> write_on_meta_data d
    | AudioMessage d \<Rightarrow> write_bytes d
    | VideoMessage d \<Rightarrow> write_bytes d
    | _ \<Rightarrow> writes [])"

lemmas body_writers =
  write_connect_result_def write_on_bw_done_def write_call_error_def write_simple_result_def
  write_on_fc_publish_def write_on_status_def write_rtmp_sample_access_def write_on_meta_data_def

text \<open>Every body writer appends, and counts what it appends.\<close>

lemma emits_basic [simp]:
  "emits (write_uint v True)" "emits (write_uchar c)" "emits (write_ushort w True)"
  "emits (write_short_string s t)" "emits (write_object_key s)" "emits (write_number x t)"
  "emits (write_boolean y t)" "emits write_null" "emits (write_type ty)"
  "emits write_end_of_object" "emits (write_bytes bs)"
  by (rule emits_appender,
      (rule write_uint.appender_axioms write_uchar.appender_axioms write_ushort.appender_axioms
        write_short_string.appender_axioms write_object_key.appender_axioms
        write_number.appender_axioms write_boolean.appender_axioms write_null.appender_axioms
        write_type.appender_axioms write_end_of_object.appender_axioms write_bytes.appender_axioms))+

lemma emits_properties [simp]:
  "emits (write_str k)" "emits (write_key k)" "emits (write_string_property k v)"
  "emits (write_number_property k x)" "emits (write_event e u)"
  by (simp_all add: write_str_def write_key_def write_string_property_def
      write_number_property_def write_event_def emits_writes)

lemma emits_meta_data [simp]: "emits (write_meta_data d)"
  unfolding write_meta_data_def write_payload_simple_def write_payload_detail_def
  by (cases "data_type d") (simp_all add: emits_writes)

lemma emits_control_body: "emits (write_control_body b)"
  unfolding write_control_body_def by (cases b) (simp_all add: emits_writes)

lemma emits_body_payload: "emits (write_body_payload b tid)"
  unfolding write_body_payload_def body_writers
  by (cases b) (auto simp: emits_writes split: option.split)

subsection \<open>Chunks\<close>

text \<open>The header of a further chunk; its size is added to \<open>writed\<close>.\<close>

definition continuation_header :: "u32 \<Rightarrow> rtmp_header" where
  "continuation_header cs_id =
     header_reset\<lparr>format_type := CONTINUATION, chunk_stream_id := cs_id\<rparr>"

definition write_continuation :: "u32 \<Rightarrow> wst \<Rightarrow> wst" where
  "write_continuation cs_id os =
     (let (out, n) = write_header (continuation_header cs_id) (fst os) in (out, snd os + n))"

text \<open>The loop of \<open>write_payload_with_body\<close>; with a chunk size of 0 it would not end.\<close>

partial_function (option) write_full_chunks ::
  "nat \<Rightarrow> u32 \<Rightarrow> bytes \<Rightarrow> nat \<Rightarrow> nat \<Rightarrow> wst \<Rightarrow> (nat \<times> wst) option" where
  "write_full_chunks chunk cs_id in_str i len os =
     (if len > chunk then
        (let os = (if i \<noteq> 0 then write_continuation cs_id os else os)
         in write_full_chunks chunk cs_id in_str (i + 1) (len - chunk)
              (fst os @ take chunk (drop (i * chunk) in_str), snd os))
      else Some (len, os))"

definition write_payload_with_body :: "u32 \<Rightarrow> u32 \<Rightarrow> bytes \<Rightarrow> bytes \<Rightarrow> wst option" where
  "write_payload_with_body chunk_size cs_id in_str out =
     (let total_len = length in_str;
          chunk = unat chunk_size;
          divide_by_chunk = total_len > chunk
      in case write_full_chunks chunk cs_id in_str 0 total_len (out, total_len) of
        None \<Rightarrow> None
      | Some (len, os) \<Rightarrow>
          if len > 0 then
            (let index = (total_len - 1) div chunk;
                 os = (if divide_by_chunk then write_continuation cs_id os else os)
             in Some (fst os @ take len (drop (index * chunk) in_str), snd os))
          else Some os)"

text \<open>What comes out: the body with a header in front of each further chunk.\<close>

function chunked :: "nat \<Rightarrow> bytes \<Rightarrow> bytes \<Rightarrow> bytes" where
  "chunked chunk sep b = (if chunk = 0 \<or> length b \<le> chunk then b
     else take chunk b @ sep @ chunked chunk sep (drop chunk b))"
  by pat_completeness auto
termination by (relation "measure (\<lambda>(c, s, b). length b)") auto

declare chunked.simps [simp del]

abbreviation continuation_bytes :: "u32 \<Rightarrow> bytes" where
  "continuation_bytes cs_id \<equiv> header_bytes (continuation_header cs_id)"

lemma write_continuation_bytes:
  "write_continuation cs_id (out, n) =
    (out @ continuation_bytes cs_id, n + length (continuation_bytes cs_id))"
  by (simp add: write_continuation_def write_header_bytes)

text \<open>What the loop leaves of \<open>len\<close> bytes from chunk \<open>i\<close> on: the last \<open>k\<close>; \<open>rest\<close> was written.\<close>

definition chunks_written :: "nat \<Rightarrow> u32 \<Rightarrow> bytes \<Rightarrow> nat \<Rightarrow> nat \<Rightarrow> nat \<Rightarrow> bytes \<Rightarrow> bool" where
  "chunks_written chunk cs b i len k rest \<longleftrightarrow>
     0 < k \<and> k \<le> chunk \<and> k \<le> len \<and> (\<exists>j. len = k + j * chunk) \<and> len - k \<le> length rest
     \<and> (if i = 0 then [] else continuation_bytes cs) @ chunked chunk (continuation_bytes cs) (drop (i * chunk) b)
       = rest @ (if i = 0 \<and> len \<le> chunk then [] else continuation_bytes cs) @ drop (length b - k) b"

lemma chunks_written_last:
  assumes "i * chunk + len = length b" and "0 < len" and "len \<le> chunk"
  shows "chunks_written chunk cs b i len len []"
proof -
  have "length b - len = i * chunk" "length (drop (i * chunk) b) = len" using assms(1) by simp_all
  moreover from this have "chunked chunk sep (drop (i * chunk) b) = drop (i * chunk) b" for sep
    using assms(3) by (subst chunked.simps) auto
  ultimately show ?thesis
    using assms by (auto simp: chunks_written_def intro: exI [of _ 0])
qed

lemma chunks_written_step:
  assumes "0 < chunk" and "i * chunk + len = length b" and "chunk < len"
    and "chunks_written chunk cs b (i + 1) (len - chunk) k rest"
  defines "h \<equiv> if i = 0 then [] else continuation_bytes cs"
  defines "piece \<equiv> h @ take chunk (drop (i * chunk) b)"
  shows "chunks_written chunk cs b i len k (piece @ rest)"
    and "n + length h + (length rest - (len - chunk - k)) = n + (length (piece @ rest) - (len - k))"
proof -
  let ?sep = "continuation_bytes cs"
  note w = assms(4) [unfolded chunks_written_def]
  then have room: "len - chunk - k \<le> length rest" "k \<le> len - chunk" by blast+
  have len: "length (drop (i * chunk) b) = len" using assms(2) by simp
  have lr: "length (piece @ rest) = length h + chunk + length rest" using len assms(3) by (simp add: piece_def)
  have "h @ chunked chunk ?sep (drop (i * chunk) b) = piece @ ?sep @ chunked chunk ?sep (drop ((i + 1) * chunk) b)"
    using assms(1,3) len by (subst chunked.simps) (simp add: piece_def add.commute)
  then have "h @ chunked chunk ?sep (drop (i * chunk) b) = (piece @ rest) @ ?sep @ drop (length b - k) b"
    using w by simp
  moreover obtain j where "len - chunk = k + j * chunk" using w by blast
  then have "len = k + Suc j * chunk" using assms(3) by simp
  then have "\<exists>j. len = k + j * chunk" by blast
  moreover have "len - k \<le> length (piece @ rest)" unfolding lr using room assms(3) by linarith
  ultimately show "chunks_written chunk cs b i len k (piece @ rest)"
    using w assms(3) by (simp add: chunks_written_def h_def)
  show "n + length h + (length rest - (len - chunk - k)) = n + (length (piece @ rest) - (len - k))"
    unfolding lr using room assms(3) by (simp split: nat_diff_split)
qed

lemma full_chunks:
  assumes "0 < chunk" and "i * chunk + len = length b" and "0 < len"
  shows "\<exists>k rest. write_full_chunks chunk cs b i len (out, n) = Some (k, out @ rest, n + (length rest - (len - k)))
    \<and> chunks_written chunk cs b i len k rest"
  using assms
proof (induction len arbitrary: i out n rule: less_induct)
  case (less len)
  show ?case
  proof (cases "len > chunk")
    case False
    then show ?thesis
      using chunks_written_last [OF less.prems(2,3)]
      by (intro exI [of _ len] exI [of _ "[]"]) (simp add: write_full_chunks.simps)
  next
    case True
    let ?h = "if i = 0 then [] else continuation_bytes cs"
    let ?piece = "?h @ take chunk (drop (i * chunk) b)"
    have "write_full_chunks chunk cs b i len (out, n) =
        write_full_chunks chunk cs b (i + 1) (len - chunk) (out @ ?piece, n + length ?h)"
      using True by (subst write_full_chunks.simps) (simp add: write_continuation_bytes)
    moreover have "len - chunk < len" "(i + 1) * chunk + (len - chunk) = length b" "0 < len - chunk"
      using less.prems True by (simp_all add: algebra_simps)
    then obtain k rest where IH: "write_full_chunks chunk cs b (i + 1) (len - chunk) (out @ ?piece, n + length ?h) =
        Some (k, (out @ ?piece) @ rest, n + length ?h + (length rest - (len - chunk - k)))"
      "chunks_written chunk cs b (i + 1) (len - chunk) k rest"
      using less.IH [OF _ less.prems(1)] by blast
    ultimately show ?thesis
      using chunks_written_step [OF less.prems(1,2) True IH(2)]
      by (intro exI [of _ k] exI [of _ "?piece @ rest"]) simp
  qed
qed

lemma payload_with_body:
  assumes "0 < chunk_size"
  shows "write_payload_with_body chunk_size cs b out =
    (let c = chunked (unat chunk_size) (continuation_bytes cs) b in Some (out @ c, length c))"
proof (cases "b = []")
  case True
  then show ?thesis
    by (simp add: write_payload_with_body_def write_full_chunks.simps chunked.simps Let_def)
next
  case False
  let ?chunk = "unat chunk_size" and ?sep = "continuation_bytes cs"
  have pos: "0 < ?chunk" using assms by (simp add: word_less_nat_alt)
  obtain k rest j where IH:
    "write_full_chunks ?chunk cs b 0 (length b) (out, length b) =
      Some (k, out @ rest, length b + (length rest - (length b - k)))"
    "0 < k" "k \<le> ?chunk" "k \<le> length b" "length b = k + j * ?chunk" "length b - k \<le> length rest"
    "chunked ?chunk ?sep b = rest @ (if length b \<le> ?chunk then [] else ?sep) @ drop (length b - k) b"
    using full_chunks [OF pos, of 0 "length b" b cs out "length b"] False
    by (auto simp: chunks_written_def split: if_splits)
  have "(length b - 1) div ?chunk = j"
    using IH(2,3,5) by (intro div_nat_eqI) (simp_all add: mult.commute)
  moreover have "length b - k = j * ?chunk" using IH(5) by simp
  ultimately show ?thesis
    using IH by (auto simp: write_payload_with_body_def Let_def write_continuation_bytes)
qed

subsection \<open>Writing a message\<close>

definition is_control_body :: "rtmp_body \<Rightarrow> bool" where
  "is_control_body b \<longleftrightarrow> fst (control_type b) \<noteq> TYPE_UNKNOWN"

text \<open>
  \<open>write_payload\<close> of the command, data and media classes: the stream after it and the number
  returned; \<open>None\<close> where the code does not return. The length of the body is stored into the
  header first.
\<close>

definition write_body_message :: "rtmp_message \<Rightarrow> bytes \<Rightarrow> wst option" where
  "write_body_message m out =
     (let (body_stream, body_len) = write_body_payload (body m) (transaction_id m) ([], 0);
          h = (header m)\<lparr>msg_length := of_nat body_len\<rparr>;
          (out, writed_header) = write_header h out
      in case write_payload_with_body (write_chunk_size m) (chunk_stream_id h) body_stream out of
           None \<Rightarrow> None
         | Some (out, writed_body) \<Rightarrow> Some (out, writed_header + writed_body))"

definition write_payload :: "rtmp_message \<Rightarrow> bytes \<Rightarrow> wst option" where
  "write_payload m out =
     (if is_control_body (body m) then Some (write_control_body (body m) (write_header (header m) out))
      else case body m of
        UnknownMessage _ \<Rightarrow> Some (out, 0)
      | _ \<Rightarrow> write_body_message m out)"

text \<open>The same as bytes.\<close>

definition body_bytes :: "rtmp_message \<Rightarrow> bytes" where
  "body_bytes m = (if is_control_body (body m) then fst (write_control_body (body m) ([], 0))
     else fst (write_body_payload (body m) (transaction_id m) ([], 0)))"

definition message_bytes :: "rtmp_message \<Rightarrow> bytes" where
  "message_bytes m =
     (if is_control_body (body m) then header_bytes (header m) @ body_bytes m
      else if \<exists>v. body m = UnknownMessage v then []
      else header_bytes ((header m)\<lparr>msg_length := of_nat (length (body_bytes m))\<rparr>)
        @ chunked (unat (write_chunk_size m)) (continuation_bytes (chunk_stream_id (header m)))
            (body_bytes m))"

lemma case_unknown_message:
  "\<forall>v. b \<noteq> UnknownMessage v \<Longrightarrow> (case b of UnknownMessage v \<Rightarrow> f v | _ \<Rightarrow> y) = y"
  by (cases b) simp_all

lemma write_body_message_bytes:
  assumes "0 < write_chunk_size m" and "\<not> is_control_body (body m)"
  shows "write_body_message m out =
    (let bs = header_bytes ((header m)\<lparr>msg_length := of_nat (length (body_bytes m))\<rparr>)
        @ chunked (unat (write_chunk_size m)) (continuation_bytes (chunk_stream_id (header m)))
            (body_bytes m)
     in Some (out @ bs, length bs))"
proof -
  have "write_body_payload (body m) (transaction_id m) ([], 0) = (body_bytes m, length (body_bytes m))"
    using emitsD [OF emits_body_payload, of "body m" "transaction_id m" "[]" 0] assms(2)
    by (simp add: body_bytes_def)
  then show ?thesis
    by (simp add: write_body_message_def Let_def write_header_bytes payload_with_body [OF assms(1)])
qed

lemma write_payload_bytes:
  assumes "0 < write_chunk_size m"
  shows "write_payload m out = Some (out @ message_bytes m, length (message_bytes m))"
proof (cases "is_control_body (body m)")
  case True
  then have "write_payload m out = Some (write_control_body (body m)
      (out @ header_bytes (header m), length (header_bytes (header m))))"
    by (simp add: write_payload_def write_header_bytes)
  also note emitsD [OF emits_control_body]
  finally show ?thesis using True by (simp add: message_bytes_def body_bytes_def)
next
  case False
  show ?thesis
  proof (cases "\<exists>v. body m = UnknownMessage v")
    case True
    then show ?thesis using False by (auto simp: write_payload_def message_bytes_def)
  next
    case other: False
    then have "write_payload m out = write_body_message m out"
      using False by (simp add: write_payload_def case_unknown_message)
    then show ?thesis
      using False other
      by (simp add: message_bytes_def write_body_message_bytes [OF assms False] Let_def)
  qed
qed

text \<open>C14: writing a message always returns when the chunk size is positive, and the number it
  returns is the number of bytes it has appended: the header, with the length of the body in it,
  and the body cut into chunks, each further chunk behind a one-format header.\<close>

theorem write_payload_exact:
  assumes "0 < write_chunk_size m" and "\<not> is_control_body (body m)"
    and "\<forall>v. body m \<noteq> UnknownMessage v"
  defines "b \<equiv> fst (write_body_payload (body m) (transaction_id m) ([], 0))"
    and "cs \<equiv> chunk_stream_id (header m)"
  shows "\<exists>bs. write_payload m out = Some (out @ bs, length bs)
    \<and> bs = fst (write_header ((header m)\<lparr>msg_length := of_nat (length b)\<rparr>) [])
        @ chunked (unat (write_chunk_size m)) (fst (write_header (continuation_header cs) [])) b"
  using assms write_payload_bytes [OF assms(1), of out]
  by (simp add: message_bytes_def body_bytes_def write_header_bytes)

theorem write_payload_exact_witness:
  "\<exists>bs. write_payload (media_message FULL 4 1 128 7 (VideoMessage (replicate 300 0x55))) [] =
    Some ([] @ bs, length bs) \<and>
    bs = fst (write_header ((header (media_message FULL 4 1 128 7 (VideoMessage (replicate 300 0x55))))
          \<lparr>msg_length := of_nat (length (replicate 300 (0x55 :: byte)))\<rparr>) [])
      @ chunked 128 (fst (write_header (continuation_header 4) [])) (replicate 300 0x55)"
  using write_payload_exact [of "media_message FULL 4 1 128 7 (VideoMessage (replicate 300 0x55))" "[]"]
  by (simp add: media_message_def addressed_def base_message_def Let_def is_control_body_def
      control_type_def write_body_payload_def write_bytes_def)

end
