(* ===== verification/Msg_Parsers.thy ===== *)
theory Msg_Parsers
  imports Rtmp_Message Serial_Number
begin

text \<open>
  The parsers of complete message payloads: \<open>control_message/ControlMsgParser.cpp\<close>,
  \<open>cmd_message/CommandMsgParser.cpp\<close>, \<open>data_message/DataMsgParser.cpp\<close> and
  \<open>media_message/MediaMsgParser.cpp\<close>. Each keeps the message it parsed last in
  \<open>parsed_msg\<close> (\<open>None\<close>: a null pointer), and only a success replaces it. A call
  returns the result, \<open>readed_size\<close> and that pointer; the payload stream ends with the call.

  Shown: what the server writes as a control message is parsed back; a command with its
  arguments in AMF0 is parsed to the message it denotes; what happens to a payload that is
  malformed.
\<close>

text \<open>How a call can end: with a value, with an exception, or in a null pointer.\<close>

datatype 'a outcome = Done 'a | Thrown sna_error | Null_Deref

type_synonym parser_result = "bool \<times> nat \<times> rtmp_message option"

subsection \<open>Control messages\<close>

definition parse_chunk_size :: "bytes \<Rightarrow> rtmp_body option \<times> bytes" where
  "parse_chunk_size = need 4 (and_then (read_uint True) (\<lambda>field. ret (SetChunkSize field)))"

definition parse_abort_message :: "bytes \<Rightarrow> rtmp_body option \<times> bytes" where
  "parse_abort_message = need 4 (and_then (read_uint True) (\<lambda>field. ret (AbortMessage field)))"

definition parse_ack :: "bytes \<Rightarrow> rtmp_body option \<times> bytes" where
  "parse_ack = need 4 (and_then (read_uint True) (\<lambda>field. ret (Acknowledgement field)))"

definition parse_win_ack_size :: "bytes \<Rightarrow> rtmp_body option \<times> bytes" where
  "parse_win_ack_size =
     need 4 (and_then (read_uint True) (\<lambda>field. ret (WindowAcknowledgementSize field)))"

definition parse_peer_bandwidth :: "bytes \<Rightarrow> rtmp_body option \<times> bytes" where
  "parse_peer_bandwidth = need 5 (and_then (read_uint True) (\<lambda>field. and_then read_uchar (\<lambda>field2.
     if get_limit_type field2 = LIMIT_TYPE_UNKNOWN then fail
     else ret (SetPeerBandwidth field (get_limit_type field2)))))"

definition parse_usrctrl_stream_begin :: "bytes \<Rightarrow> rtmp_body option \<times> bytes" where
  "parse_usrctrl_stream_begin = need 4 (and_then (read_uint True) (\<lambda>field. ret (StreamBegin field)))"

definition parse_usrctrl_stream_eof :: "bytes \<Rightarrow> rtmp_body option \<times> bytes" where
  "parse_usrctrl_stream_eof = need 4 (and_then (read_uint True) (\<lambda>field. ret (StreamEof field)))"

definition parse_usrctrl_stream_dry :: "bytes \<Rightarrow> rtmp_body option \<times> bytes" where
  "parse_usrctrl_stream_dry = need 4 (and_then (read_uint True) (\<lambda>field. ret (StreamDry field)))"

definition parse_usrctrl_set_buffer_length :: "bytes \<Rightarrow> rtmp_body option \<times> bytes" where
  "parse_usrctrl_set_buffer_length = need 8 (and_then (read_uint True) (\<lambda>field1.
     and_then (read_uint True) (\<lambda>field2. ret (SetBufferLength field1 field2))))"

definition parse_usrctrl_stream_is_recorded :: "bytes \<Rightarrow> rtmp_body option \<times> bytes" where
  "parse_usrctrl_stream_is_recorded =
     need 4 (and_then (read_uint True) (\<lambda>field. ret (StreamIsRecorded field)))"

definition parse_usrctrl_ping_request :: "bytes \<Rightarrow> rtmp_body option \<times> bytes" where
  "parse_usrctrl_ping_request = need 4 (and_then (read_uint True) (\<lambda>field. ret (PingRequest field)))"

definition parse_usrctrl_ping_response :: "bytes \<Rightarrow> rtmp_body option \<times> bytes" where
  "parse_usrctrl_ping_response = need 4 (and_then (read_uint True) (\<lambda>field. ret (PingResponse field)))"

definition parse_user_ctrl :: "bytes \<Rightarrow> rtmp_body option \<times> bytes" where
  "parse_user_ctrl = need 2 (and_then (read_ushort True) (\<lambda>field. case get_event_type field of
      EVENT_TYPE_STREAM_BEGIN \<Rightarrow> parse_usrctrl_stream_begin
    | EVENT_TYPE_STREAM_EOF \<Rightarrow> parse_usrctrl_stream_eof
    | EVENT_TYPE_STREAM_DRY \<Rightarrow> parse_usrctrl_stream_dry
    | EVENT_TYPE_SET_BUFFER_LENGTH \<Rightarrow> parse_usrctrl_set_buffer_length
    | EVENT_TYPE_STREAM_IS_RECORDED \<Rightarrow> parse_usrctrl_stream_is_recorded
    | EVENT_TYPE_PING_REQUEST \<Rightarrow> parse_usrctrl_ping_request
    | EVENT_TYPE_PING_RESPONSE \<Rightarrow> parse_usrctrl_ping_response
    | EVENT_TYPE_UNKNOWN \<Rightarrow> fail))"

definition control_body_parser :: "msg_type \<Rightarrow> bytes \<Rightarrow> rtmp_body option \<times> bytes" where
  "control_body_parser t = (case t of
      CHUNKSIZE \<Rightarrow> parse_chunk_size
    | ABORTMESSAGE \<Rightarrow> parse_abort_message
    | ACK \<Rightarrow> parse_ack
    | USRCTRL \<Rightarrow> parse_user_ctrl
    | WINACKSIZE \<Rightarrow> parse_win_ack_size
    | PEERBANDWIDTH \<Rightarrow> parse_peer_bandwidth
    | _ \<Rightarrow> fail)"

definition parse_control_msg ::
  "rtmp_header \<Rightarrow> bytes \<Rightarrow> rtmp_message option \<Rightarrow> parser_result" where
  "parse_control_msg h s old =
     (case control_body_parser (msg_type_id h) s of
        (Some b, r) \<Rightarrow> (True, length s - length r, Some (control_message b))
      | (None, r) \<Rightarrow> (False, length s - length r, old))"

text \<open>The bytes of a control body, and reading them.\<close>

lemma event_types [simp]:
  "get_event_type 0 = EVENT_TYPE_STREAM_BEGIN" "get_event_type 1 = EVENT_TYPE_STREAM_EOF"
  "get_event_type 2 = EVENT_TYPE_STREAM_DRY" "get_event_type 3 = EVENT_TYPE_SET_BUFFER_LENGTH"
  "get_event_type 4 = EVENT_TYPE_STREAM_IS_RECORDED" "get_event_type 6 = EVENT_TYPE_PING_REQUEST"
  "get_event_type 7 = EVENT_TYPE_PING_RESPONSE"
  by (simp_all add: get_event_type_def)

lemma limit_types [simp]: "t \<noteq> LIMIT_TYPE_UNKNOWN \<Longrightarrow> get_limit_type (limit_type_value t) = t"
  by (cases t) (simp_all add: get_limit_type_def limit_type_value_def)

lemmas control_parsers =
  parse_chunk_size_def parse_abort_message_def parse_ack_def parse_win_ack_size_def
  parse_peer_bandwidth_def parse_user_ctrl_def parse_usrctrl_stream_begin_def
  parse_usrctrl_stream_eof_def parse_usrctrl_stream_dry_def parse_usrctrl_set_buffer_length_def
  parse_usrctrl_stream_is_recorded_def parse_usrctrl_ping_request_def
  parse_usrctrl_ping_response_def

lemmas decode_steps =
  need_def ret_def read_uint.decode_then read_ushort.decode_then
  read_uint.decode_then [of _ _ "[]", unfolded append_Nil2]
  read_uchar.decode_then [of _ _ "[]", unfolded append_Nil2]

lemma control_body_roundtrip:
  assumes "is_control_body b" and "\<forall>w. b \<noteq> SetPeerBandwidth w LIMIT_TYPE_UNKNOWN"
  shows "control_body_parser (fst (control_type b)) (fst (write_control_body b ([], 0))) = (Some b, [])"
  using assms
  by (cases b)
    (simp_all add: is_control_body_def control_type_def control_body_parser_def control_parsers
      write_control_body_def write_event_def byte_simps event_type_value_def decode_steps)

text \<open>C31: every control message that the server writes is parsed back from its payload, into a
  message equal to the one constructed, whatever message was parsed before.\<close>

theorem control_roundtrip:
  assumes "is_control_body b" and "\<forall>w. b \<noteq> SetPeerBandwidth w LIMIT_TYPE_UNKNOWN"
    and "msg_type_id h = fst (control_type b)"
  defines "payload \<equiv> fst (write_control_body b ([], 0))"
  shows "parse_control_msg h payload old = (True, length payload, Some (control_message b))"
  using control_body_roundtrip [OF assms(1,2)]
  by (simp add: parse_control_msg_def assms(3) payload_def)

theorem control_roundtrip_witness:
  "parse_control_msg (header_reset\<lparr>msg_type_id := USRCTRL\<rparr>)
     (fst (write_control_body (SetBufferLength 1 3000) ([], 0))) None =
   (True, 10, Some (control_message (SetBufferLength 1 3000)))"
proof -
  have "length (fst (write_control_body (SetBufferLength 1 3000) ([], 0))) = 10" by code_simp
  then show ?thesis
    using control_roundtrip [of "SetBufferLength 1 3000" "header_reset\<lparr>msg_type_id := USRCTRL\<rparr>" None]
    by (simp add: is_control_body_def control_type_def)
qed

text \<open>A control message that is refused leaves the message parsed before it.\<close>

lemma control_refused:
  "fst (control_body_parser (msg_type_id h) s) = None
    \<Longrightarrow> \<exists>n. parse_control_msg h s old = (False, n, old)"
  by (cases "control_body_parser (msg_type_id h) s") (simp add: parse_control_msg_def)

subsection \<open>Command messages\<close>

datatype cmd_type = CMD_CHECKBANDWIDTH | CMD_CLOSE | CMD_CLOSESTREAM | CMD_CONNECT
  | CMD_CREATESTREAM | CMD_DELETESTREAM | CMD_ERROR | CMD_FCPUBLISH | CMD_FCUNPUBLISH
  | CMD_FCSUBSCRIBE | CMD_GETSTREAMLENGTH | CMD_ONBWCHECK | CMD_ONBWDONE | CMD_ONSTATUS | CMD_PAUSE
  | CMD_PAUSERAW | CMD_PLAY | CMD_PUBLISH | CMD_RELEASESTREAM | CMD_RESULT | CMD_SEEK
  | CMD_ONMETADATA | CMD_UNKNOWN

definition get_cmd_type :: "bytes \<Rightarrow> cmd_type" where
  "get_cmd_type str =
     (if str = ascii ''checkBandwidth'' then CMD_CHECKBANDWIDTH
      else if str = ascii ''close'' then CMD_CLOSE
      else if str = ascii ''closeStream'' then CMD_CLOSESTREAM
      else if str = ascii ''connect'' then CMD_CONNECT
      else if str = ascii ''createStream'' then CMD_CREATESTREAM
      else if str = ascii ''deleteStream'' then CMD_DELETESTREAM
      else if str = ascii ''_error'' then CMD_ERROR
      else if str = ascii ''FCPublish'' then CMD_FCPUBLISH
      else if str = ascii ''FCUnpublish'' then CMD_FCUNPUBLISH
      else if str = ascii ''FCSubscribe'' then CMD_FCSUBSCRIBE
      else if str = ascii ''getStreamLength'' then CMD_GETSTREAMLENGTH
      else if str = ascii ''onBWCheck'' then CMD_ONBWCHECK
      else if str = ascii ''onBWDone'' then CMD_ONBWDONE
      else if str = ascii ''onStatus'' then CMD_ONSTATUS
      else if str = ascii ''pause'' then CMD_PAUSE
      else if str = ascii ''pauseRaw'' then CMD_PAUSERAW
      else if str = ascii ''play'' then CMD_PLAY
      else if str = ascii ''publish'' then CMD_PUBLISH
      else if str = ascii ''releaseStream'' then CMD_RELEASESTREAM
      else if str = ascii ''_result'' then CMD_RESULT
      else if str = ascii ''seek'' then CMD_SEEK
      else if str = ascii ''OnMetaData'' then CMD_ONMETADATA
      else CMD_UNKNOWN)"

datatype connect_field = FIELD_APP | FIELD_FLASHVER | FIELD_SWFURL | FIELD_TCURL | FIELD_FPAD
  | FIELD_CAPABILITIES | FIELD_AUDIOCODECS | FIELD_VIDEOCODECS | FIELD_VIDEOFUNCTION
  | FIELD_PAGEURL | FIELD_OBJECTENCODING | FIELD_UNKNOWN

definition get_connect_field :: "bytes \<Rightarrow> connect_field" where
  "get_connect_field str =
     (if str = ascii ''app'' then FIELD_APP
      else if str = ascii ''flashVer'' then FIELD_FLASHVER
      else if str = ascii ''swfUrl'' then FIELD_SWFURL
      else if str = ascii ''tcUrl'' then FIELD_TCURL
      else if str = ascii ''fpad'' then FIELD_FPAD
      else if str = ascii ''capabilities'' then FIELD_CAPABILITIES
      else if str = ascii ''audioCodecs'' then FIELD_AUDIOCODECS
      else if str = ascii ''videoCodecs'' then FIELD_VIDEOCODECS
      else if str = ascii ''videoFunction'' then FIELD_VIDEOFUNCTION
      else if str = ascii ''pageUrl'' then FIELD_PAGEURL
      else if str = ascii ''objectEncoding'' then FIELD_OBJECTENCODING
      else FIELD_UNKNOWN)"

text \<open>One property of the connect object, after its key.\<close>

definition parse_connect_field ::
  "u32 \<Rightarrow> bytes \<Rightarrow> connect_fields \<Rightarrow> bytes \<Rightarrow> connect_fields option \<times> bytes" where
  "parse_connect_field junk key f = (case get_connect_field key of
      FIELD_APP \<Rightarrow> and_then (read_short_string True) (\<lambda>v. ret (f\<lparr>app := v\<rparr>))
    | FIELD_FLASHVER \<Rightarrow> and_then (read_short_string True) (\<lambda>v. ret (f\<lparr>flashver := v\<rparr>))
    | FIELD_SWFURL \<Rightarrow> and_then (consume_one junk) (\<lambda>_. ret f)
    | FIELD_TCURL \<Rightarrow> and_then (read_short_string True) (\<lambda>v. ret (f\<lparr>tc_url := v\<rparr>))
    | FIELD_FPAD \<Rightarrow> and_then (read_boolean True) (\<lambda>v. ret (f\<lparr>fpad := Some v\<rparr>))
    | FIELD_CAPABILITIES \<Rightarrow>
        and_then (read_number True) (\<lambda>v. ret (f\<lparr>capabilities := Some (double_to_int v)\<rparr>))
    | FIELD_AUDIOCODECS \<Rightarrow>
        and_then (read_number True) (\<lambda>v. ret (f\<lparr>audio_codecs := Some (double_to_int v)\<rparr>))
    | FIELD_VIDEOCODECS \<Rightarrow>
        and_then (read_number True) (\<lambda>v. ret (f\<lparr>video_codecs := Some (double_to_int v)\<rparr>))
    | FIELD_VIDEOFUNCTION \<Rightarrow>
        and_then (read_number True) (\<lambda>v. ret (f\<lparr>video_function := Some (double_to_int v)\<rparr>))
    | FIELD_PAGEURL \<Rightarrow> and_then (consume_one junk) (\<lambda>_. ret f)
    | FIELD_OBJECTENCODING \<Rightarrow>
        and_then (read_number True) (\<lambda>v. ret (f\<lparr>object_encoding := Some (double_to_int v)\<rparr>))
    | FIELD_UNKNOWN \<Rightarrow> and_then (consume_one junk) (\<lambda>_. ret f))"

lemma stream_reader_connect_field: "stream_reader (parse_connect_field junk key f)"
  unfolding parse_connect_field_def
  by (cases "get_connect_field key")
    (simp_all, (intro reader_rest consume_one.stream_reader_axioms)+)

function parse_connect_fields :: "u32 \<Rightarrow> connect_fields \<Rightarrow> bytes \<Rightarrow> connect_fields option \<times> bytes" where
  "parse_connect_fields junk f s = (case is_end_of_object s of
      (_, True, r) \<Rightarrow> (None, r)
    | (True, False, r) \<Rightarrow> (Some f, r)
    | (False, False, r) \<Rightarrow> (case read_short_string False r of
          (None, s1) \<Rightarrow> (None, s1)
        | (Some key, s1) \<Rightarrow> (case parse_connect_field junk key f s1 of
              (None, s2) \<Rightarrow> (None, s2)
            | (Some f', s2) \<Rightarrow> parse_connect_fields junk f' s2)))"
  by pat_completeness auto
termination
proof (relation "measure (\<lambda>(j, f, s). length s)", simp, goal_cases)
  case (1 junk f s a q b r key_opt s1 key x s2 f')
  then have r: "r = s" "3 \<le> length s"
    using is_end_of_object_rest [of s False False r] by auto
  have "length s1 + 2 \<le> length s"
    using read_short_string_progress [of s] 1 r by (metis Suc_1 Suc_leD eval_nat_numeral(3) snd_conv)
  moreover have "length s2 \<le> length s1"
    using stream_reader.rest_length [OF stream_reader_connect_field, of junk key f s1] 1
    by (metis snd_conv)
  ultimately show ?case by simp
qed

declare parse_connect_fields.simps [simp del]

text \<open>The object of the command and then its properties.\<close>

definition parse_connect_msg :: "u32 \<Rightarrow> bytes \<Rightarrow> rtmp_body option \<times> bytes" where
  "parse_connect_msg junk = and_then read_type (\<lambda>ty.
     if ty \<noteq> AMF0_OBJECT then fail
     else and_then (parse_connect_fields junk no_connect_fields) (\<lambda>f. ret (ConnectMessage f)))"

definition parse_release_stream :: "bytes \<Rightarrow> rtmp_body option \<times> bytes" where
  "parse_release_stream = and_then read_null (\<lambda>_. and_then (read_short_string True) (\<lambda>v.
     ret (ReleaseStream v)))"

definition parse_fc_publish :: "bytes \<Rightarrow> rtmp_body option \<times> bytes" where
  "parse_fc_publish = and_then read_null (\<lambda>_. and_then (read_short_string True) (\<lambda>v.
     ret (FCPublish v)))"

definition parse_fc_unpublish :: "bytes \<Rightarrow> rtmp_body option \<times> bytes" where
  "parse_fc_unpublish = and_then read_null (\<lambda>_. and_then (read_short_string True) (\<lambda>v.
     ret (FCUnPublish v)))"

definition parse_create_stream :: "bytes \<Rightarrow> rtmp_body option \<times> bytes" where
  "parse_create_stream = and_then read_null (\<lambda>_. ret CreateStream)"

definition parse_delete_stream :: "bytes \<Rightarrow> rtmp_body option \<times> bytes" where
  "parse_delete_stream = and_then read_null (\<lambda>_. and_then (read_number True) (\<lambda>v.
     ret (DeleteStream v)))"

definition parse_publish :: "bytes \<Rightarrow> rtmp_body option \<times> bytes" where
  "parse_publish = and_then read_null (\<lambda>_. and_then (read_short_string True) (\<lambda>stream_name.
     and_then (read_short_string True) (\<lambda>stream_type. ret (Publish stream_name stream_type))))"

definition parse_unknown_command :: "u32 \<Rightarrow> bytes \<Rightarrow> bytes \<Rightarrow> rtmp_body option \<times> bytes" where
  "parse_unknown_command junk command s = (case consume_full junk s of
     (False, r) \<Rightarrow> (None, r) | (True, r) \<Rightarrow> (Some (UnknownCommand command), r))"

definition parse_play :: "bytes \<Rightarrow> rtmp_body option \<times> bytes" where
  "parse_play = and_then read_null (\<lambda>_. and_then (read_short_string True) (\<lambda>v. ret (Play v)))"

text \<open>The dispatch; a known command without a case of its own is an error.\<close>

definition command_body_parser :: "u32 \<Rightarrow> bytes \<Rightarrow> bytes \<Rightarrow> rtmp_body option \<times> bytes" where
  "command_body_parser junk command = (case get_cmd_type command of
      CMD_CONNECT \<Rightarrow> parse_connect_msg junk
    | CMD_RELEASESTREAM \<Rightarrow> parse_release_stream
    | CMD_FCPUBLISH \<Rightarrow> parse_fc_publish
    | CMD_FCUNPUBLISH \<Rightarrow> parse_fc_unpublish
    | CMD_CREATESTREAM \<Rightarrow> parse_create_stream
    | CMD_PUBLISH \<Rightarrow> parse_publish
    | CMD_PLAY \<Rightarrow> parse_play
    | CMD_DELETESTREAM \<Rightarrow> parse_delete_stream
    | CMD_UNKNOWN \<Rightarrow> parse_unknown_command junk command
    | _ \<Rightarrow> fail)"

text \<open>The prefix of every command: in AMF3 one byte to skip, then the name and the number.\<close>

definition command_prefix :: "msg_type \<Rightarrow> bytes \<Rightarrow> (bytes \<times> u64) option \<times> bytes" where
  "command_prefix t =
     and_then (if t = COMMAND_AMF3 then need 1 (and_then read_char (\<lambda>_. ret ())) else ret ()) (\<lambda>_.
     and_then (read_short_string True) (\<lambda>command.
     and_then (read_number True) (\<lambda>tid. ret (command, tid))))"

text \<open>
  On success the message gets the header of the chunk; \<open>readed_size\<close> is assigned on success
  only (0 stands for the caller's value).
\<close>

definition parse_command_msg ::
  "u32 \<Rightarrow> rtmp_header \<Rightarrow> bytes \<Rightarrow> rtmp_message option \<Rightarrow> parser_result" where
  "parse_command_msg junk h s old = (case command_prefix (msg_type_id h) s of
      (None, r) \<Rightarrow> (False, 0, old)
    | (Some (command, tid), r) \<Rightarrow> (case command_body_parser junk command r of
          (None, r) \<Rightarrow> (False, 0, old)
        | (Some b, r) \<Rightarrow>
            (True, length s - length r, Some ((command_message tid b)\<lparr>header := h\<rparr>))))"

subsection \<open>Data and media messages\<close>

text \<open>
  Only \<open>@setDataFrame\<close> makes a message. Any other data message gives its header to the message
  parsed before, and there is none at first.
\<close>

definition parse_data_msg ::
  "u32 \<Rightarrow> rtmp_header \<Rightarrow> bytes \<Rightarrow> rtmp_message option \<Rightarrow> parser_result outcome" where
  "parse_data_msg junk h s old = (case read_short_string True s of
      (None, r) \<Rightarrow> Done (False, 0, old)
    | (Some command, r) \<Rightarrow>
        (if command = ascii ''@setDataFrame'' then
           (case consume_full junk r of
              (False, r) \<Rightarrow> Done (False, 0, old)
            | (True, r) \<Rightarrow> Done (True, length s - length r,
                Some ((base_message TYPE_UNKNOWN (UnknownMessage []))\<lparr>header := h\<rparr>)))
         else case old of
           None \<Rightarrow> Null_Deref
         | Some m \<Rightarrow> Done (True, length s - length r, Some (m\<lparr>header := h\<rparr>))))"

definition parse_media_msg ::
  "rtmp_header \<Rightarrow> bytes \<Rightarrow> nat \<Rightarrow> rtmp_message option \<Rightarrow> parser_result" where
  "parse_media_msg h s buf_size old =
     (let buf = take buf_size s; r = drop buf_size s in
      if msg_type_id h = VIDEODATA
      then (True, length s - length r, Some ((base_message VIDEODATA (VideoMessage buf))\<lparr>header := h\<rparr>))
      else (True, length s - length r, Some ((base_message AUDIODATA (AudioMessage buf))\<lparr>header := h\<rparr>)))"

subsection \<open>What a command denotes\<close>

text \<open>One property of a connect request: the value has the type the field asks for.\<close>

fun connect_property :: "connect_fields \<Rightarrow> bytes \<times> amf_value \<Rightarrow> connect_fields option" where
  "connect_property f (key, v) = (case (get_connect_field key, v) of
      (FIELD_APP, Amf_String s) \<Rightarrow> Some (f\<lparr>app := s\<rparr>)
    | (FIELD_FLASHVER, Amf_String s) \<Rightarrow> Some (f\<lparr>flashver := s\<rparr>)
    | (FIELD_TCURL, Amf_String s) \<Rightarrow> Some (f\<lparr>tc_url := s\<rparr>)
    | (FIELD_FPAD, Amf_Boolean b) \<Rightarrow> Some (f\<lparr>fpad := Some b\<rparr>)
    | (FIELD_CAPABILITIES, Amf_Number d) \<Rightarrow> Some (f\<lparr>capabilities := Some (double_to_int d)\<rparr>)
    | (FIELD_AUDIOCODECS, Amf_Number d) \<Rightarrow> Some (f\<lparr>audio_codecs := Some (double_to_int d)\<rparr>)
    | (FIELD_VIDEOCODECS, Amf_Number d) \<Rightarrow> Some (f\<lparr>video_codecs := Some (double_to_int d)\<rparr>)
    | (FIELD_VIDEOFUNCTION, Amf_Number d) \<Rightarrow> Some (f\<lparr>video_function := Some (double_to_int d)\<rparr>)
    | (FIELD_OBJECTENCODING, Amf_Number d) \<Rightarrow> Some (f\<lparr>object_encoding := Some (double_to_int d)\<rparr>)
    | (FIELD_SWFURL, _) \<Rightarrow> Some f
    | (FIELD_PAGEURL, _) \<Rightarrow> Some f
    | (FIELD_UNKNOWN, _) \<Rightarrow> Some f
    | _ \<Rightarrow> None)"

fun connect_object :: "connect_fields \<Rightarrow> (bytes \<times> amf_value) list \<Rightarrow> connect_fields option" where
  "connect_object f [] = Some f"
| "connect_object f (p # ps) =
     (case connect_property f p of None \<Rightarrow> None | Some f' \<Rightarrow> connect_object f' ps)"

text \<open>The message that a command name with its arguments stands for.\<close>

definition denotes :: "bytes \<Rightarrow> amf_value list \<Rightarrow> rtmp_body option" where
  "denotes command args = (case (get_cmd_type command, args) of
      (CMD_CONNECT, Amf_Object ps # _) \<Rightarrow> map_option ConnectMessage (connect_object no_connect_fields ps)
    | (CMD_RELEASESTREAM, Amf_Null # Amf_String s # _) \<Rightarrow> Some (ReleaseStream s)
    | (CMD_FCPUBLISH, Amf_Null # Amf_String s # _) \<Rightarrow> Some (FCPublish s)
    | (CMD_FCUNPUBLISH, Amf_Null # Amf_String s # _) \<Rightarrow> Some (FCUnPublish s)
    | (CMD_CREATESTREAM, Amf_Null # _) \<Rightarrow> Some CreateStream
    | (CMD_DELETESTREAM, Amf_Null # Amf_Number d # _) \<Rightarrow> Some (DeleteStream d)
    | (CMD_PUBLISH, Amf_Null # Amf_String s # Amf_String t # _) \<Rightarrow> Some (Publish s t)
    | (CMD_PLAY, Amf_Null # Amf_String s # _) \<Rightarrow> Some (Play s)
    | (CMD_UNKNOWN, _) \<Rightarrow> Some (UnknownCommand command)
    | _ \<Rightarrow> None)"

definition command_bytes :: "bytes \<Rightarrow> u64 \<Rightarrow> amf_value list \<Rightarrow> bytes" where
  "command_bytes command tid args = amf_bytes (Amf_String command) @ amf_bytes (Amf_Number tid)
     @ concat (map amf_bytes args)"

text \<open>Reading one value of a known type.\<close>

lemma read_values:
  "length s < 32768 \<Longrightarrow> read_short_string True (2 # string_bytes s @ r) = (Some s, r)"
  "read_number True (0 # be64 d @ r) = (Some d, r)"
  "read_boolean True (1 # bool_byte b # r) = (Some b, r)"
  "read_null (5 # r) = (Some (), r)"
  using read_short_string.decode [of s True r] read_number.decode [of True d r]
    read_boolean.decode [of True b r] read_null.decode [of r]
  by simp_all

lemma consume_one_value: "amf_ok v \<Longrightarrow> consume_one junk (amf_bytes v @ r) = (Some (), r)"
  by (simp add: consume_one_def consume_value)

lemma parse_connect_property:
  assumes "amf_ok v" and "connect_property f (key, v) = Some f'"
  shows "parse_connect_field junk key f (amf_bytes v @ r) = (Some f', r)"
  using assms consume_one_value [OF assms(1)]
  by (cases "get_connect_field key"; cases v)
    (simp_all add: parse_connect_field_def and_then_def ret_def read_values)

lemma parse_connect_object:
  assumes "\<forall>(k, v) \<in> set ps. length k < 32768 \<and> amf_ok v" and "connect_object f ps = Some f'"
  shows "parse_connect_fields junk f
      (concat (map (\<lambda>(k, v). string_bytes k @ amf_bytes v) ps) @ 0 # 0 # 9 # r) = (Some f', r)"
  using assms
proof (induction ps arbitrary: f)
  case Nil
  then show ?case
    by (subst parse_connect_fields.simps)
      (simp add: is_end_of_object_def check_redable_length_def get_readable_length_def)
next
  case (Cons p ps)
  obtain k v where p: "p = (k, v)" by fastforce
  from Cons.prems(2) obtain f1 where f1: "connect_property f (k, v) = Some f1"
    "connect_object f1 ps = Some f'"
    by (simp add: p del: connect_property.simps split: option.splits)
  have k: "length k < 32768" and v: "amf_ok v" using Cons.prems(1) p by auto
  let ?s = "concat (map (\<lambda>(k, v). string_bytes k @ amf_bytes v) ps) @ 0 # 0 # 9 # r"
  have "parse_connect_fields junk f1 ?s = (Some f', r)"
    using Cons.IH [OF _ f1(2)] Cons.prems(1) by simp
  then show ?case
    using read_short_string.decode [of k False "amf_bytes v @ ?s"] k
      key_not_end [OF k, of v ?s] parse_connect_property [OF v f1(1), of junk ?s]
    by (subst parse_connect_fields.simps) (simp add: p)
qed

lemma command_prefix_bytes:
  assumes "length command < 32768" and "t \<noteq> COMMAND_AMF3"
  shows "command_prefix t (command_bytes command tid args) =
    (Some (command, tid), concat (map amf_bytes args))"
  using assms
  by (simp add: command_prefix_def command_bytes_def and_then_def ret_def read_values)

lemma command_body:
  assumes "\<forall>v \<in> set args. amf_ok v" and "denotes command args = Some b"
  shows "\<exists>r. command_body_parser junk command (concat (map amf_bytes args)) = (Some b, r)"
proof (cases "get_cmd_type command")
  case CMD_CONNECT
  then obtain ps rest f where "args = Amf_Object ps # rest" and b: "b = ConnectMessage f"
    and f: "connect_object no_connect_fields ps = Some f"
    using assms(2) by (auto simp: denotes_def split: list.splits amf_value.splits)
  then show ?thesis
    using assms(1) CMD_CONNECT parse_connect_object [OF _ f, of junk "concat (map amf_bytes rest)"]
    by (simp add: command_body_parser_def parse_connect_msg_def and_then_def ret_def read_type_Cons
        amf0_type_of_def)
next
  case CMD_UNKNOWN
  have "consume_full junk (concat (map amf_bytes args)) = (True, [])"
    using assms(1) by (rule consume_values_full)
  then show ?thesis
    using CMD_UNKNOWN assms(2)
    by (simp add: command_body_parser_def parse_unknown_command_def denotes_def)
qed (use assms in \<open>auto simp: denotes_def command_body_parser_def parse_release_stream_def
    parse_fc_publish_def parse_fc_unpublish_def parse_create_stream_def parse_delete_stream_def
    parse_publish_def parse_play_def and_then_def ret_def read_values
    split: list.splits amf_value.splits\<close>)

text \<open>C22: a command whose name and arguments, encoded in AMF0, denote a message is parsed to that
  message, with its transaction id and the header of the chunk; for a connect request, every
  property of the object ends up in its field, and properties of other names are skipped.\<close>

theorem command_parsed:
  assumes "msg_type_id h = COMMAND_AMF0" and "length command < 32768"
    and "\<forall>v \<in> set args. amf_ok v" and "denotes command args = Some b"
  shows "\<exists>n. parse_command_msg junk h (command_bytes command tid args) old =
    (True, n, Some \<lparr> header = h, body = b, transaction_id = tid, write_chunk_size = 128 \<rparr>)"
  using command_prefix_bytes [OF assms(2), of COMMAND_AMF0 tid args] command_body [OF assms(3,4), of junk]
  by (auto simp: parse_command_msg_def assms(1) command_message_def base_message_def)

theorem command_parsed_witness:
  "\<exists>n. parse_command_msg 0 (header_reset\<lparr>msg_type_id := COMMAND_AMF0\<rparr>)
      (command_bytes (ascii ''connect'') 0x3FF0000000000000
        [Amf_Object [(ascii ''app'', Amf_String (ascii ''live'')), (ascii ''type'', Amf_Null)]]) None =
    (True, n, Some \<lparr> header = header_reset\<lparr>msg_type_id := COMMAND_AMF0\<rparr>,
       body = ConnectMessage (no_connect_fields\<lparr>app := ascii ''live''\<rparr>),
       transaction_id = 0x3FF0000000000000, write_chunk_size = 128 \<rparr>)"
proof (rule command_parsed)
  show "denotes (ascii ''connect'') [Amf_Object [(ascii ''app'', Amf_String (ascii ''live'')),
      (ascii ''type'', Amf_Null)]] = Some (ConnectMessage (no_connect_fields\<lparr>app := ascii ''live''\<rparr>))"
    by code_simp
qed simp_all

text \<open>A command that the parser knows by name but has no case for, such as
  \<open>getStreamLength\<close> or \<open>closeStream\<close>, fails, where an unknown name would be skipped; so the
  connection is closed.\<close>

theorem known_command_fails:
  assumes "length command < 32768" and "msg_type_id h = COMMAND_AMF0"
    and "get_cmd_type command \<in> {CMD_CHECKBANDWIDTH, CMD_CLOSE, CMD_CLOSESTREAM, CMD_ERROR,
      CMD_FCSUBSCRIBE, CMD_GETSTREAMLENGTH, CMD_ONBWCHECK, CMD_ONBWDONE, CMD_ONSTATUS, CMD_PAUSE,
      CMD_PAUSERAW, CMD_RESULT, CMD_SEEK, CMD_ONMETADATA}"
  shows "parse_command_msg junk h (command_bytes command tid args) old = (False, 0, old)"
  using command_prefix_bytes [OF assms(1), of COMMAND_AMF0 tid args] assms(3)
  by (auto simp: parse_command_msg_def assms(2) command_body_parser_def fail_def)

theorem known_command_fails_witness:
  "parse_command_msg 0 (header_reset\<lparr>msg_type_id := COMMAND_AMF0\<rparr>)
     (command_bytes (ascii ''getStreamLength'') 0 [Amf_Null, Amf_String (ascii ''a'')]) None
   = (False, 0, None)"
proof (rule known_command_fails)
  have "get_cmd_type (ascii ''getStreamLength'') = CMD_GETSTREAMLENGTH" by code_simp
  then show "get_cmd_type (ascii ''getStreamLength'') \<in> {CMD_CHECKBANDWIDTH, CMD_CLOSE,
      CMD_CLOSESTREAM, CMD_ERROR, CMD_FCSUBSCRIBE, CMD_GETSTREAMLENGTH, CMD_ONBWCHECK,
      CMD_ONBWDONE, CMD_ONSTATUS, CMD_PAUSE, CMD_PAUSERAW, CMD_RESULT, CMD_SEEK, CMD_ONMETADATA}"
    by simp
qed simp_all

text \<open>The first data message of a connection that is not \<open>@setDataFrame\<close> (a plain
  \<open>onMetaData\<close>, say) makes the parser call a member of a null pointer.\<close>

theorem first_data_message_crashes:
  assumes "length command < 32768" and "command \<noteq> ascii ''@setDataFrame''"
  shows "parse_data_msg junk h (amf_bytes (Amf_String command) @ r) None = Null_Deref"
  using assms by (simp add: parse_data_msg_def read_values)

theorem first_data_message_crashes_witness:
  "parse_data_msg 0 header_reset (amf_bytes (Amf_String (ascii ''onMetaData'')) @ [5]) None
   = Null_Deref"
  by (rule first_data_message_crashes) (simp, code_simp)

end
