(* ===== verification/Payload_Parser.thy ===== *)
theory Payload_Parser
  imports Msg_Parsers
begin

text \<open>
  The payload parser, \<open>protocol/RtmpPayloadParser.cpp\<close>: it collects the chunks of a message per
  chunk stream, computes the timestamp of a message when its first chunk is seen, and hands the
  complete payload to the parser of its kind. The two fields of the publish context that it
  uses (\<open>last_message_timestamp_\<close> and \<open>rollover_count_\<close>) are part of its state here.
  \<open>buf_size\<close> is the number of bytes in the stream. The C++ maps are functions: \<open>channels\<close> is
  total, as \<open>operator[]\<close> inserts a zero entry, \<open>incomplete_infos\<close> partial.

  Shown: the bookkeeping of partly received messages; that waiting for more data is harmless
  after a full header and moves the clock after any other; what a malformed control message
  does.
\<close>

subsection \<open>State\<close>

record channel_info =
  last_msg_len :: u32
  last_msg_type_id :: msg_type
  last_msg_timestamp :: u32
  last_msg_timestamp_delta :: u32
  last_msg_abs_timestamp :: u64

definition no_channel_info :: channel_info where
  "no_channel_info = \<lparr> last_msg_len = 0, last_msg_type_id = TYPE_UNKNOWN, last_msg_timestamp = 0,
     last_msg_timestamp_delta = 0, last_msg_abs_timestamp = 0 \<rparr>"

text \<open>\<open>recv_buf\<close> holds the bytes received so far.\<close>

record received_payload_info =
  first_chunk_header :: rtmp_header
  recv_length :: u32
  recv_buf :: bytes

record payload_parser =
  incomplete_infos :: "u32 \<Rightarrow> received_payload_info option"
  channels :: "u32 \<Rightarrow> channel_info"
  control_parsed :: "rtmp_message option"
  command_parsed :: "rtmp_message option"
  media_parsed :: "rtmp_message option"
  data_parsed :: "rtmp_message option"
  payload_parsed :: "rtmp_message option"
  recv_chunk_size :: u32
  last_message_timestamp :: u32
  rollover_count :: u32

definition new_payload_parser :: payload_parser where
  "new_payload_parser = \<lparr> incomplete_infos = (\<lambda>_. None), channels = (\<lambda>_. no_channel_info),
     control_parsed = None, command_parsed = None, media_parsed = None, data_parsed = None,
     payload_parsed = None, recv_chunk_size = 128, last_message_timestamp = 0, rollover_count = 0 \<rparr>"

datatype payload_result = PAYLOAD_COMPLETE | FAIL | WAITING_MORE_PAYLOAD_DATA | WAITING_NEXT_CHUNK

subsection \<open>The first chunk of a message\<close>

text \<open>Length and type: from the header into the channel, or from the channel.\<close>

definition take_length_and_type ::
  "u32 \<Rightarrow> rtmp_header \<Rightarrow> payload_parser \<Rightarrow> rtmp_header \<times> payload_parser" where
  "take_length_and_type cs_id h p = (let ch = channels p cs_id in
     if has_msg_len_and_type h then
       (h, p\<lparr>channels := (channels p)(cs_id :=
          ch\<lparr>last_msg_len := msg_length h, last_msg_type_id := msg_type_id h\<rparr>)\<rparr>)
     else (h\<lparr>msg_length := last_msg_len ch, msg_type_id := last_msg_type_id ch\<rparr>, p))"

text \<open>The timestamp of a full header is unrolled against the last one of the connection.\<close>

definition full_timestamp ::
  "u32 \<Rightarrow> rtmp_header \<Rightarrow> payload_parser \<Rightarrow> sna_error + rtmp_header \<times> payload_parser" where
  "full_timestamp cs_id h p =
     (case unroll (sn32 (ucast (timestamp h))) (sn32 (ucast (last_message_timestamp p)))
          (rollover_count p) of
        Inl e \<Rightarrow> Inl e
      | Inr (t, rollover) \<Rightarrow>
          Inr (h\<lparr>abs_timestamp := t\<rparr>,
            p\<lparr>channels := (channels p)(cs_id := (channels p cs_id)
                \<lparr>last_msg_abs_timestamp := t, last_msg_timestamp_delta := timestamp_delta h,
                 last_msg_timestamp := timestamp h\<rparr>),
              rollover_count := rollover, last_message_timestamp := timestamp h\<rparr>))"

text \<open>A delta is added to the last timestamp of the chunk stream.\<close>

definition delta_timestamp ::
  "u32 \<Rightarrow> u32 \<Rightarrow> rtmp_header \<Rightarrow> payload_parser \<Rightarrow> sna_error + rtmp_header \<times> payload_parser" where
  "delta_timestamp delta cs_id h p = (let ch = channels p cs_id in
     case add (sn32 (ucast (last_msg_timestamp ch))) (ucast delta) (rollover_count p) of
        Inl e \<Rightarrow> Inl e
      | Inr (s, rollover) \<Rightarrow>
          (let t = unroll_count s rollover;
               ts = last_msg_timestamp ch + delta
           in Inr (h\<lparr>abs_timestamp := t, timestamp_delta := delta, timestamp := ts\<rparr>,
             p\<lparr>channels := (channels p)(cs_id := ch
                 \<lparr>last_msg_abs_timestamp := t, last_msg_timestamp_delta := delta,
                  last_msg_timestamp := ts\<rparr>),
               rollover_count := rollover, last_message_timestamp := ucast (number s)\<rparr>)))"

definition new_recv_info ::
  "rtmp_header \<Rightarrow> payload_parser \<Rightarrow> sna_error + received_payload_info \<times> payload_parser" where
  "new_recv_info header_ptr p =
     (let cs_id = chunk_stream_id header_ptr;
          (h, p) = take_length_and_type cs_id header_ptr p
      in case (case format_type h of
            FULL \<Rightarrow> full_timestamp cs_id h p
          | SAME_STREAM \<Rightarrow> delta_timestamp (timestamp_delta h) cs_id h p
          | SAME_LENGTH_AND_STREAM \<Rightarrow> delta_timestamp (timestamp_delta h) cs_id h p
          | CONTINUATION \<Rightarrow> delta_timestamp (last_msg_timestamp_delta (channels p cs_id)) cs_id h p
          | FORMAT_UNKNOWN \<Rightarrow> Inr (h, p)) of
        Inl e \<Rightarrow> Inl e
      | Inr (h, p) \<Rightarrow> Inr (\<lparr> first_chunk_header = h, recv_length = 0, recv_buf = [] \<rparr>, p))"

subsection \<open>The complete message\<close>

text \<open>The result of the control parser is ignored; the others fail the connection.\<close>

definition dispatch_message ::
  "u32 \<Rightarrow> rtmp_header \<Rightarrow> bytes \<Rightarrow> payload_parser \<Rightarrow> (bool \<times> payload_parser) outcome" where
  "dispatch_message junk h payload p =
     (if is_control_msg h then
        (let (_, _, m) = parse_control_msg h payload (control_parsed p)
         in Done (True, p\<lparr>control_parsed := m, payload_parsed := m\<rparr>))
      else if is_command_msg h then
        (let (ok, _, m) = parse_command_msg junk h payload (command_parsed p)
         in Done (ok, if ok then p\<lparr>command_parsed := m, payload_parsed := m\<rparr>
                      else p\<lparr>command_parsed := m\<rparr>))
      else if is_data_msg h then
        (case parse_data_msg junk h payload (data_parsed p) of
           Thrown e \<Rightarrow> Thrown e
         | Null_Deref \<Rightarrow> Null_Deref
         | Done (ok, _, m) \<Rightarrow> Done (ok, if ok then p\<lparr>data_parsed := m, payload_parsed := m\<rparr>
                                     else p\<lparr>data_parsed := m\<rparr>))
      else if is_video_msg h \<or> is_audio_msg h then
        (let (ok, _, m) = parse_media_msg h payload (unat (msg_length h)) (media_parsed p)
         in Done (ok, if ok then p\<lparr>media_parsed := m, payload_parsed := m\<rparr>
                      else p\<lparr>media_parsed := m\<rparr>))
      else Done (True, p\<lparr>payload_parsed :=
        Some (base_message TYPE_UNKNOWN (UnknownMessage (take (unat (msg_length h)) payload)))\<rparr>))"

subsection \<open>A chunk\<close>

type_synonym payload_step = "(payload_result \<times> nat \<times> bytes \<times> payload_parser) outcome"

text \<open>
  The chunk is read only when it is there as a whole. A message under way is shared with the
  map, so what is read into it stays also when the message then fails.
\<close>

definition take_chunk ::
  "u32 \<Rightarrow> u32 \<Rightarrow> received_payload_info \<Rightarrow> payload_parser \<Rightarrow> bytes \<Rightarrow> payload_step" where
  "take_chunk junk cs_id info p s =
     (let first_header = first_chunk_header info;
          length_all = msg_length first_header;
          need_size = length_all - recv_length info;
          this_msg_size = (if need_size > recv_chunk_size p then recv_chunk_size p else need_size);
          n = unat this_msg_size
      in if length s \<ge> n then
        (let info' = info\<lparr>recv_buf := recv_buf info @ take n s,
                          recv_length := recv_length info + this_msg_size\<rparr>;
             r = drop n s;
             p' = (if incomplete_infos p cs_id = None then p
                   else p\<lparr>incomplete_infos := (incomplete_infos p)(cs_id := Some info')\<rparr>)
         in if this_msg_size = need_size then
              (case dispatch_message junk first_header (recv_buf info') p' of
                 Thrown e \<Rightarrow> Thrown e
               | Null_Deref \<Rightarrow> Null_Deref
               | Done (False, q) \<Rightarrow> Done (FAIL, n, r, q)
               | Done (True, q) \<Rightarrow>
                   if payload_parsed q = None then Null_Deref
                   else Done (PAYLOAD_COMPLETE, n, r,
                     q\<lparr>incomplete_infos := (incomplete_infos q)(cs_id := None)\<rparr>))
            else Done (WAITING_NEXT_CHUNK, n, r,
              p\<lparr>incomplete_infos := (incomplete_infos p)(cs_id := Some info')\<rparr>))
      else Done (WAITING_MORE_PAYLOAD_DATA, 0, s, p))"

definition parse_payload :: "u32 \<Rightarrow> rtmp_header \<Rightarrow> payload_parser \<Rightarrow> bytes \<Rightarrow> payload_step" where
  "parse_payload junk header_ptr p s =
     (let cs_id = chunk_stream_id header_ptr in
      case incomplete_infos p cs_id of
        None \<Rightarrow> (case new_recv_info header_ptr p of
            Inl e \<Rightarrow> Thrown e
          | Inr (info, p) \<Rightarrow> take_chunk junk cs_id info p s)
      | Some info \<Rightarrow> take_chunk junk cs_id info p s)"

subsection \<open>Partly received messages\<close>

text \<open>What the map holds of a message under way: as many bytes as counted, and not yet all.\<close>

definition info_ok :: "received_payload_info \<Rightarrow> bool" where
  "info_ok i \<longleftrightarrow> unat (recv_length i) = length (recv_buf i)
     \<and> length (recv_buf i) < unat (msg_length (first_chunk_header i))"

definition infos_ok :: "payload_parser \<Rightarrow> bool" where
  "infos_ok p \<longleftrightarrow> (\<forall>cs i. incomplete_infos p cs = Some i \<longrightarrow> info_ok i)"

lemma unat_lt_32: "unat (w :: u32) < 4294967296"
proof -
  have "unat w < 2 ^ LENGTH(32)" by (rule unsigned_less)
  then show ?thesis by simp
qed

lemma new_recv_info_infos:
  "new_recv_info h p = Inr (i, p') \<Longrightarrow> incomplete_infos p' = incomplete_infos p
    \<and> recv_length i = 0 \<and> recv_buf i = [] \<and> recv_chunk_size p' = recv_chunk_size p"
  by (auto simp: new_recv_info_def take_length_and_type_def full_timestamp_def delta_timestamp_def
      Let_def split: sum.splits if_splits format_type.splits prod.splits)

lemma dispatch_infos:
  "dispatch_message junk h b p = Done (ok, q) \<Longrightarrow> incomplete_infos q = incomplete_infos p
    \<and> recv_chunk_size q = recv_chunk_size p"
  by (auto simp: dispatch_message_def Let_def split: prod.splits if_splits outcome.splits)

text \<open>Taking one chunk keeps the counts.\<close>

lemma take_chunk_infos:
  assumes "infos_ok p" and "unat (recv_length i) = length (recv_buf i)"
    and "length (recv_buf i) \<le> unat (msg_length (first_chunk_header i))"
    and "take_chunk junk cs i p s = Done (res, n, r, q)" and "res \<noteq> FAIL"
  shows "infos_ok q"
proof -
  define need chunk where "need = msg_length (first_chunk_header i) - recv_length i"
    and "chunk = (if need > recv_chunk_size p then recv_chunk_size p else need)"
  have le: "recv_length i \<le> msg_length (first_chunk_header i)"
    using assms(2,3) by (simp add: word_le_nat_alt)
  then have need: "unat need = unat (msg_length (first_chunk_header i)) - length (recv_buf i)"
    using assms(2) by (simp add: need_def unat_sub)
  note def = assms(4) [unfolded take_chunk_def Let_def, folded need_def, folded chunk_def]
  show ?thesis
  proof (cases "length s < unat chunk")
    case True
    then show ?thesis using def assms(1) by auto
  next
    case more: False
    show ?thesis
    proof (cases "chunk = need")
      case True
      then show ?thesis
        using def more assms(1,5)
        by (auto simp: infos_ok_def split: if_splits outcome.splits bool.splits prod.splits
            dest!: dispatch_infos)
    next
      case False
      then have "unat chunk < unat need"
        by (auto simp: chunk_def word_less_nat_alt split: if_splits)
      moreover have "unat (recv_length i + chunk) = unat (recv_length i) + unat chunk"
      proof -
        have "unat (recv_length i) + unat chunk < 2 ^ 32"
          using calculation need assms(2,3) unat_lt_32 [of "msg_length (first_chunk_header i)"]
          by simp
        then show ?thesis by (simp add: unat_word_ariths)
      qed
      ultimately have "info_ok (i\<lparr>recv_buf := recv_buf i @ take (unat chunk) s,
          recv_length := recv_length i + chunk\<rparr>)"
        using more need assms(2,3) by (auto simp: info_ok_def)
      then show ?thesis using def more False assms(1) by (auto simp: infos_ok_def split: if_splits)
    qed
  qed
qed

text \<open>C24: between calls, each message under way has exactly the bytes that were counted, and
  fewer than its length; so the next chunk is always written inside the buffer.\<close>

theorem parse_payload_infos:
  assumes "infos_ok p" and "parse_payload junk h p s = Done (res, n, r, q)" and "res \<noteq> FAIL"
  shows "infos_ok q"
proof (cases "incomplete_infos p (chunk_stream_id h)")
  case None
  then obtain i p' where new: "new_recv_info h p = Inr (i, p')"
    and t: "take_chunk junk (chunk_stream_id h) i p' s = Done (res, n, r, q)"
    using assms(2) by (auto simp: parse_payload_def Let_def split: sum.splits)
  note new_recv_info_infos [OF new]
  then show ?thesis
    using take_chunk_infos [OF _ _ _ t assms(3)] assms(1) by (simp add: infos_ok_def)
next
  case (Some i)
  then have "info_ok i" using assms(1) by (simp add: infos_ok_def)
  then show ?thesis
    using take_chunk_infos [OF assms(1), of i] assms(2,3) Some
    by (auto simp: parse_payload_def Let_def info_ok_def)
qed

theorem parse_payload_infos_witness:
  "infos_ok (case parse_payload 0 (header_reset\<lparr>chunk_stream_id := 5, msg_length := 200,
      msg_type_id := VIDEODATA\<rparr>) new_payload_parser (replicate 128 7) of Done (_, _, _, q) \<Rightarrow> q)"
proof -
  have "\<exists>res n r q. parse_payload 0 (header_reset\<lparr>chunk_stream_id := 5, msg_length := 200,
      msg_type_id := VIDEODATA\<rparr>) new_payload_parser (replicate 128 7) = Done (res, n, r, q) \<and> res \<noteq> FAIL"
    by (simp add: parse_payload_def new_payload_parser_def new_recv_info_def header_reset_def Let_def
        take_length_and_type_def has_msg_len_and_type_def full_timestamp_def unroll_def take_chunk_def)
  then obtain res n r q where eq: "parse_payload 0 (header_reset\<lparr>chunk_stream_id := 5,
      msg_length := 200, msg_type_id := VIDEODATA\<rparr>) new_payload_parser (replicate 128 7)
      = Done (res, n, r, q)" and res: "res \<noteq> FAIL"
    by blast
  have "infos_ok new_payload_parser" by (simp add: infos_ok_def new_payload_parser_def)
  from parse_payload_infos [OF this eq res] show ?thesis by (simp add: eq)
qed

subsection \<open>Waiting for more data\<close>

text \<open>The state after a call that has to wait; the header and the stream are the same again.\<close>

definition retry :: "u32 \<Rightarrow> rtmp_header \<Rightarrow> bytes \<Rightarrow> payload_parser \<Rightarrow> payload_parser" where
  "retry junk h s p = (case parse_payload junk h p s of
     Done (WAITING_MORE_PAYLOAD_DATA, _, _, q) \<Rightarrow> q | _ \<Rightarrow> p)"

text \<open>The first chunk of a message whose length the header or the channel gives is not there.\<close>

definition chunk_missing :: "rtmp_header \<Rightarrow> bytes \<Rightarrow> payload_parser \<Rightarrow> bool" where
  "chunk_missing h s p \<longleftrightarrow> incomplete_infos p (chunk_stream_id h) = None
     \<and> length s < unat (min (if has_msg_len_and_type h then msg_length h
         else last_msg_len (channels p (chunk_stream_id h))) (recv_chunk_size p))"

lemma take_chunk_waits:
  assumes "recv_length i = 0"
    and "length s < unat (min (msg_length (first_chunk_header i)) (recv_chunk_size p))"
  shows "take_chunk junk cs i p s = Done (WAITING_MORE_PAYLOAD_DATA, 0, s, p)"
  using assms by (auto simp: take_chunk_def Let_def min_def not_le split: if_splits)

text \<open>A delta that a header of this format adds to the clock of its chunk stream.\<close>

definition header_delta :: "rtmp_header \<Rightarrow> payload_parser \<Rightarrow> u32" where
  "header_delta h p = (if format_type h = CONTINUATION
     then last_msg_timestamp_delta (channels p (chunk_stream_id h)) else timestamp_delta h)"

lemma retry_delta:
  fixes junk :: u32
  assumes "chunk_missing h s p" and "format_type h \<notin> {FULL, FORMAT_UNKNOWN}"
    and "unat (header_delta h p) < 2147483648"
  defines "cs \<equiv> chunk_stream_id h" and "q \<equiv> retry junk h s p"
  shows "chunk_missing h s q \<and> header_delta h q = header_delta h p
    \<and> last_msg_timestamp (channels q cs) = last_msg_timestamp (channels p cs) + header_delta h p"
proof -
  have le: "ucast (header_delta h p) \<le> (0x7FFFFFFF :: u64)"
  proof -
    have "unat (ucast (header_delta h p) :: u64) = unat (header_delta h p)"
      using unat_lt_32 [of "header_delta h p"] by (simp add: unsigned_ucast_eq take_bit_nat_eq_self)
    then show ?thesis using assms(3) by (simp add: word_le_nat_alt)
  qed
  have none: "incomplete_infos p cs = None"
    using assms(1) by (simp add: chunk_missing_def cs_def)
  define len where "len = (if has_msg_len_and_type h then msg_length h else last_msg_len (channels p cs))"
  obtain i p' where new: "new_recv_info h p = Inr (i, p')"
    and i: "msg_length (first_chunk_header i) = len"
    and ts: "last_msg_timestamp (channels p' cs) = last_msg_timestamp (channels p cs) + header_delta h p"
    and d: "last_msg_timestamp_delta (channels p' cs) = header_delta h p"
    and l: "last_msg_len (channels p' cs) = len"
    using le assms(2)
    by (cases "format_type h")
      (auto simp: new_recv_info_def take_length_and_type_def delta_timestamp_def add_def Let_def
        header_delta_def has_msg_len_and_type_def len_def cs_def)
  note inv = new_recv_info_infos [OF new]
  have "length s < unat (min len (recv_chunk_size p))"
    using assms(1)
    by (cases "has_msg_len_and_type h") (simp_all add: chunk_missing_def len_def cs_def)
  then have "parse_payload junk h p s = Done (WAITING_MORE_PAYLOAD_DATA, 0, s, p')"
    using none new inv i by (simp add: parse_payload_def Let_def cs_def take_chunk_waits)
  then have q: "q = p'" by (simp add: q_def retry_def)
  show ?thesis
    using inv none ts d l assms(1) unfolding q
    by (auto simp: chunk_missing_def header_delta_def len_def cs_def split: if_splits)
qed

text \<open>C32: while the first chunk of a message with a delta header (any format but the full one) is
  not yet there as a whole, every further call of the parser adds the delta to the clock of the
  chunk stream again: after \<open>n\<close> calls the message is \<open>n\<close> deltas late instead of one.\<close>

theorem waiting_moves_clock:
  assumes "chunk_missing h s p" and "format_type h \<notin> {FULL, FORMAT_UNKNOWN}"
    and "unat (header_delta h p) < 2147483648"
  shows "last_msg_timestamp (channels ((retry junk h s ^^ n) p) (chunk_stream_id h)) =
    last_msg_timestamp (channels p (chunk_stream_id h)) + of_nat n * header_delta h p"
proof -
  have "chunk_missing h s ((retry junk h s ^^ n) p)
    \<and> header_delta h ((retry junk h s ^^ n) p) = header_delta h p
    \<and> last_msg_timestamp (channels ((retry junk h s ^^ n) p) (chunk_stream_id h)) =
      last_msg_timestamp (channels p (chunk_stream_id h)) + of_nat n * header_delta h p"
    using assms
  proof (induction n)
    case (Suc n)
    then show ?case
      using retry_delta [of h s "(retry junk h s ^^ n) p" junk] by (simp add: algebra_simps)
  qed simp
  then show ?thesis by simp
qed

theorem waiting_moves_clock_witness:
  "last_msg_timestamp (channels ((retry 0 (header_reset\<lparr>format_type := SAME_STREAM,
      chunk_stream_id := 4, msg_length := 100, msg_type_id := AUDIODATA, timestamp_delta := 23\<rparr>) [1, 2]
      ^^ 3) new_payload_parser) 4) = 69"
proof -
  let ?h = "header_reset\<lparr>format_type := SAME_STREAM, chunk_stream_id := 4, msg_length := 100,
      msg_type_id := AUDIODATA, timestamp_delta := 23\<rparr>"
  have "chunk_missing ?h [1, 2] new_payload_parser" by code_simp
  moreover have "format_type ?h \<notin> {FULL, FORMAT_UNKNOWN}" by simp
  moreover have "unat (header_delta ?h new_payload_parser) < 2147483648" by (simp add: header_delta_def)
  ultimately have "last_msg_timestamp (channels ((retry 0 ?h [1, 2] ^^ 3) new_payload_parser)
      (chunk_stream_id ?h)) = last_msg_timestamp (channels new_payload_parser (chunk_stream_id ?h))
      + of_nat 3 * header_delta ?h new_payload_parser"
    by (rule waiting_moves_clock)
  moreover have "last_msg_timestamp (channels new_payload_parser (chunk_stream_id ?h))
      + of_nat 3 * header_delta ?h new_payload_parser = 69" by code_simp
  ultimately show ?thesis by simp
qed

lemma unroll_same: "unroll (sn32 t) (sn32 t) r = Inr (unroll_count (sn32 t) r, r)"
  by (simp add: unroll_def is_rolled_over_def)

lemma unroll_value:
  obtains r' where "unroll (sn32 t) (sn32 u) r = Inr (unroll_count (sn32 t) r', r')"
  by (cases "is_rolled_over (sn32 u) (sn32 t)") (auto simp: unroll_def Let_def)

lemma full_header:
  assumes "format_type h = FULL" and "chunk_missing h s p"
  obtains q where "retry junk h s p = q" and "chunk_missing h s q"
    and "\<exists>i. new_recv_info h p = Inr (i, q)" and "\<exists>i. new_recv_info h q = Inr (i, q)"
proof -
  have len: "has_msg_len_and_type h" by (simp add: has_msg_len_and_type_def assms(1))
  obtain i q where new: "new_recv_info h p = Inr (i, q)"
    and i: "msg_length (first_chunk_header i) = msg_length h"
    and again: "\<exists>i. new_recv_info h q = Inr (i, q)"
  proof -
    obtain r where "unroll (sn32 (ucast (timestamp h))) (sn32 (ucast (last_message_timestamp p)))
        (rollover_count p) = Inr (unroll_count (sn32 (ucast (timestamp h))) r, r)"
      by (rule unroll_value)
    then show thesis
      using that [of "fst (projr (new_recv_info h p))" "snd (projr (new_recv_info h p))"] len assms(1)
      by (simp add: new_recv_info_def take_length_and_type_def full_timestamp_def unroll_same Let_def)
  qed
  note inv = new_recv_info_infos [OF new]
  have "parse_payload junk h p s = Done (WAITING_MORE_PAYLOAD_DATA, 0, s, q)"
    using new inv i assms(2) len
    by (simp add: parse_payload_def Let_def take_chunk_waits chunk_missing_def)
  then have "retry junk h s p = q" by (simp add: retry_def)
  then show thesis
    using that new again inv assms(2) len by (auto simp: chunk_missing_def)
qed

text \<open>After a full header, waiting is harmless: calling the parser again with the same header
  and still too few bytes changes nothing any more.\<close>

theorem waiting_full_idempotent:
  assumes "chunk_missing h s p" and "format_type h = FULL"
  shows "retry junk h s (retry junk h s p) = retry junk h s p"
proof -
  obtain q where q: "retry junk h s p = q" "chunk_missing h s q" "\<exists>i. new_recv_info h q = Inr (i, q)"
    using full_header [OF assms(2,1)] by metis
  obtain q' where "retry junk h s q = q'" "\<exists>i. new_recv_info h q = Inr (i, q')"
    using full_header [OF assms(2) q(2)] by metis
  then show ?thesis using q by auto
qed

theorem waiting_full_idempotent_witness:
  "retry 0 (header_reset\<lparr>chunk_stream_id := 4, msg_length := 9, timestamp := 7, msg_type_id := AUDIODATA\<rparr>)
      [1, 2] (retry 0 (header_reset\<lparr>chunk_stream_id := 4, msg_length := 9, timestamp := 7,
        msg_type_id := AUDIODATA\<rparr>) [1, 2] new_payload_parser) =
   retry 0 (header_reset\<lparr>chunk_stream_id := 4, msg_length := 9, timestamp := 7,
        msg_type_id := AUDIODATA\<rparr>) [1, 2] new_payload_parser"
  by (rule waiting_full_idempotent) code_simp+

subsection \<open>Rollovers\<close>

lemma ucast_u32_nat [simp]: "unat (ucast (v :: u32) :: u64) = unat v"
  using unat_lt_32 [of v] by (simp add: unsigned_ucast_eq take_bit_nat_eq_self)

lemma rolled_delta:
  assumes "unat delta < 2147483648"
    and "wrap \<le> unat (last_msg_timestamp (channels p cs)) + unat delta"
  shows "\<exists>h' p'. delta_timestamp delta cs h p = Inr (h', p')
    \<and> rollover_count p' = rollover_count p + 1
    \<and> abs_timestamp h' = unroll_count (sn32 (ucast (timestamp h'))) (rollover_count p + 1)
    \<and> (\<forall>cs'. cs' \<noteq> cs \<longrightarrow> channels p' cs' = channels p cs')"
proof -
  let ?t = "last_msg_timestamp (channels p cs)"
  have le: "ucast delta \<le> (0x7FFFFFFF :: u64)" using assms(1) by (simp add: word_le_nat_alt)
  have sum: "unat (ucast ?t + ucast delta :: u64) = unat ?t + unat delta"
    using unat_lt_32 [of ?t] unat_lt_32 [of delta] by (simp add: unat_word_ariths)
  have m: "(ucast ?t :: u64) mod 0x100000000 = ucast ?t"
    using unat_lt_32 [of ?t] by (simp add: word_unat_eq_iff unat_mod)
  have "unat (?t + delta) = (unat ?t + unat delta) mod wrap"
    by (simp add: unat_word_ariths)
  then have same: "sn32 (ucast ?t + ucast delta) = sn32 (ucast (?t + delta))"
    by (simp add: make_sn_def Let_def push_bit_eq_mult word_unat_eq_iff unat_mod sum)
  have "(unat ?t + unat delta) mod wrap + 2147483648 < unat ?t mod wrap"
    using assms unat_lt_32 [of ?t]
    by (subst step_mod_wrap(1)) (simp_all add: div_nat_eqI)
  then have "is_rolled_over (sn32 (ucast ?t)) (sn32 (ucast ?t + ucast delta))"
    by (simp add: is_rolled_over_32 sum)
  then show ?thesis
    using le by (simp add: delta_timestamp_def add_def Let_def m same)
qed

text \<open>The rollover count belongs to the connection but is advanced for each chunk stream: when
  the clocks of two chunk streams pass the 32-bit range, one after the other, it is advanced
  twice, and the second message is placed a whole range (49 days) after the first.\<close>

theorem rollover_counted_twice:
  assumes "cs1 \<noteq> cs2" and "unat d1 < 2147483648" and "unat d2 < 2147483648"
    and "wrap \<le> unat (last_msg_timestamp (channels p cs1)) + unat d1"
    and "wrap \<le> unat (last_msg_timestamp (channels p cs2)) + unat d2"
  shows "\<exists>h1' p1 h2' p2. delta_timestamp d1 cs1 h1 p = Inr (h1', p1)
    \<and> delta_timestamp d2 cs2 h2 p1 = Inr (h2', p2)
    \<and> rollover_count p2 = rollover_count p + 2
    \<and> abs_timestamp h2' = unroll_count (sn32 (ucast (timestamp h2'))) (rollover_count p + 2)"
proof -
  obtain h1' p1 where 1: "delta_timestamp d1 cs1 h1 p = Inr (h1', p1)"
    "rollover_count p1 = rollover_count p + 1" "channels p1 cs2 = channels p cs2"
    using rolled_delta [OF assms(2,4), of h1] assms(1) by metis
  moreover obtain h2' p2 where "delta_timestamp d2 cs2 h2 p1 = Inr (h2', p2)"
    "rollover_count p2 = rollover_count p1 + 1"
    "abs_timestamp h2' = unroll_count (sn32 (ucast (timestamp h2'))) (rollover_count p1 + 1)"
    using rolled_delta [OF assms(3), of p1 cs2 h2] assms(5) 1(3) by metis
  ultimately show ?thesis by (auto simp: add.assoc)
qed

theorem rollover_counted_twice_witness:
  "\<exists>h1' p1 h2' p2.
     delta_timestamp 40 4 header_reset (new_payload_parser
       \<lparr>channels := (\<lambda>_. no_channel_info\<lparr>last_msg_timestamp := 0xFFFFFFF0\<rparr>)\<rparr>) = Inr (h1', p1)
    \<and> delta_timestamp 33 6 header_reset p1 = Inr (h2', p2)
    \<and> rollover_count p2 = rollover_count (new_payload_parser
       \<lparr>channels := (\<lambda>_. no_channel_info\<lparr>last_msg_timestamp := 0xFFFFFFF0\<rparr>)\<rparr>) + 2
    \<and> abs_timestamp h2' = unroll_count (sn32 (ucast (timestamp h2'))) (rollover_count
       (new_payload_parser\<lparr>channels := (\<lambda>_. no_channel_info\<lparr>last_msg_timestamp := 0xFFFFFFF0\<rparr>)\<rparr>) + 2)"
  by (rule rollover_counted_twice) simp_all

subsection \<open>Malformed control messages\<close>

text \<open>C33: a control message whose payload is refused is not an error for the payload parser: the
  control message parsed before is delivered a second time, and if there was none, a null
  pointer is used.\<close>

theorem refused_control_redelivers:
  assumes "is_control_msg h" and "fst (control_body_parser (msg_type_id h) payload) = None"
  shows "dispatch_message junk h payload p =
      Done (True, p\<lparr>control_parsed := control_parsed p, payload_parsed := control_parsed p\<rparr>)"
  using control_refused [OF assms(2), of "control_parsed p"] assms(1)
  by (auto simp: dispatch_message_def)

theorem refused_control_redelivers_witness:
  "parse_payload 0 (header_reset\<lparr>chunk_stream_id := 2, msg_length := 3, msg_type_id := CHUNKSIZE\<rparr>)
     new_payload_parser [0, 16, 0] = Null_Deref"
proof -
  have bad: "fst (control_body_parser CHUNKSIZE [0, 16, 0]) = None" by code_simp
  have "dispatch_message 0 (header_reset\<lparr>chunk_stream_id := 2, msg_length := 3,
      msg_type_id := CHUNKSIZE, abs_timestamp := t\<rparr>) [0, 16, 0] p = Done (True, p\<lparr>control_parsed := control_parsed p, payload_parsed := control_parsed p\<rparr>)"
    for p t
    by (rule refused_control_redelivers) (simp_all add: is_control_msg_def msg_type_value_def header_reset_def bad)
  then show ?thesis
    by (simp add: parse_payload_def new_payload_parser_def new_recv_info_def header_reset_def Let_def
        take_length_and_type_def has_msg_len_and_type_def full_timestamp_def unroll_same take_chunk_def)
qed

end
