(* ===== verification/Rtmp_Parser.thy ===== *)
theory Rtmp_Parser
  imports Payload_Parser
begin

text \<open>
  The parser of the connection, \<open>protocol/RtmpParser.cpp\<close>: a header, then its chunk, until a
  message is complete; the two control messages that change the parser itself; and the
  acknowledgements. \<open>buf_size\<close> is the number of bytes in the stream. The messages that it pushes
  to the send queue are returned.

  Shown: every message that the server's writer produces is received, whatever the chunk size
  and whatever follows; the loop makes progress; an acknowledgement is sent in every window; the
  bytes of a header that arrives in pieces are not counted.
\<close>

subsection \<open>State\<close>

datatype rtmp_parsing_state = HEADER_PARSING | PAYLOAD_PARSING | MESSAGE_COMPLETE

record rtmp_parser =
  rtmp_state :: rtmp_parsing_state
  readed_bytes_count :: u64
  win_ack_size :: u32
  next_ack_send_size :: u64
  read_bytes_count_in_window :: u64
  hdr_parser :: header_parser
  pay_parser :: payload_parser
  parsed_header :: rtmp_header
  parsed_message :: "rtmp_message option"

definition DEFAULT_WIN_ACK_SIZE :: u32 where
  "DEFAULT_WIN_ACK_SIZE = 5000000"

definition new_rtmp_parser :: rtmp_parser where
  "new_rtmp_parser = \<lparr> rtmp_state = HEADER_PARSING, readed_bytes_count = 0,
     win_ack_size = DEFAULT_WIN_ACK_SIZE, next_ack_send_size = ucast DEFAULT_WIN_ACK_SIZE,
     read_bytes_count_in_window = 0, hdr_parser = header_parser_reset,
     pay_parser = new_payload_parser, parsed_header = header_reset, parsed_message = None \<rparr>"

definition set_win_ack_size :: "u32 \<Rightarrow> rtmp_parser \<Rightarrow> rtmp_parser" where
  "set_win_ack_size window p = p\<lparr>win_ack_size := window,
     next_ack_send_size := next_ack_send_size p - ucast (win_ack_size p) + ucast window\<rparr>"

text \<open>A complete message: the chunk size and the window size concern the parser.\<close>

definition message_complete :: "payload_parser \<Rightarrow> rtmp_parser \<Rightarrow> rtmp_parser" where
  "message_complete pp p =
     (let p = p\<lparr>pay_parser := pp, parsed_message := payload_parsed pp, rtmp_state := MESSAGE_COMPLETE\<rparr>
      in case payload_parsed pp of
        None \<Rightarrow> p
      | Some m \<Rightarrow> (case body m of
            SetChunkSize chunk \<Rightarrow> p\<lparr>pay_parser := pp\<lparr>recv_chunk_size := chunk\<rparr>\<rparr>
          | WindowAcknowledgementSize window \<Rightarrow> set_win_ack_size window p
          | _ \<Rightarrow> p))"

subsection \<open>The loop\<close>

text \<open>A step result: what is returned, \<open>total_readed_size\<close>, the stream, the parser.\<close>

type_synonym rtmp_step = "(tribool \<times> nat \<times> bytes \<times> rtmp_parser) outcome"

text \<open>A header parser between two headers.\<close>

definition at_header :: "header_parser \<Rightarrow> bool" where
  "at_header hp \<longleftrightarrow> parsing_state hp = BASIC_HEADER_1BYTE"

lemma parse_header_Yes_cases:
  assumes "parse_header p s = (Yes, n, r, p')"
  obtains "parsing_state p = COMPLETE" "n = 0" "r = s" "p' = p\<lparr>parsing_state := BASIC_HEADER_1BYTE\<rparr>"
  | k s0 p0 m where "parsing_state p \<noteq> COMPLETE" "parse_in_current_state p s = (Yes, k, s0, p0)"
      "parse_header p0 s0 = (Yes, m, r, p')" "n = k + m"
proof (cases "parsing_state p = COMPLETE")
  case True
  then show ?thesis using assms that(1) by (simp add: parse_header_COMPLETE)
next
  case False
  obtain r0 k s0 p0 where st: "parse_in_current_state p s = (r0, k, s0, p0)"
    by (metis prod_cases4)
  obtain r1 m s1 p1 where rest: "parse_header p0 s0 = (r1, m, s1, p1)"
    by (metis prod_cases4)
  show ?thesis
    using assms False st rest that(2)
    by (cases r0) (auto simp: parse_header.simps [of p s])
qed

lemma header_done:
  "parse_header p s = (Yes, n, r, p') \<Longrightarrow> at_header p'"
proof (induction p s arbitrary: n r p' rule: parse_header_induct)
  case (step p s)
  show ?case
  proof (rule parse_header_Yes_cases [OF step(2)])
    fix k s0 p0 m
    assume "parsing_state p \<noteq> COMPLETE" "parse_in_current_state p s = (Yes, k, s0, p0)"
      and "parse_header p0 s0 = (Yes, m, r, p')"
    then show ?thesis by (rule step(1))
  qed (simp add: at_header_def)
qed

lemma header_progress:
  assumes "parse_header hp s = (Yes, n, r, hp')"
  shows "at_header hp' \<and> length s = n + length r \<and> (at_header hp \<longrightarrow> length r < length s)"
proof -
  have "length s = n + length r"
    using parse_header_consumes [OF assms] by auto
  moreover have "length r < length s" if "at_header hp"
  proof (rule parse_header_Yes_cases [OF assms])
    fix k s0 p0 m
    assume st: "parse_in_current_state hp s = (Yes, k, s0, p0)"
      and rest: "parse_header p0 s0 = (Yes, m, r, hp')"
    have "length s0 < length s"
      using st that
      by (auto simp: parse_in_current_state_def at_header_def parse_basic_header_1byte_def Let_def
          split: list.splits if_splits)
    moreover have "length r \<le> length s0"
      using parse_header_consumes [OF rest] by auto
    ultimately show ?thesis by simp
  qed (use that in \<open>simp add: at_header_def\<close>)
  ultimately show ?thesis using header_done [OF assms] by simp
qed

lemma payload_progress:
  assumes "parse_payload junk h pp s = Done (res, n, r, pp')"
  shows "\<exists>pre. s = pre @ r \<and> length pre = n"
proof -
  have take: "\<exists>pre. s = pre @ r \<and> length pre = n"
    if "take_chunk junk cs i p s = Done (res, n, r, pp')" for cs i p
  proof -
    define need chunk where "need = msg_length (first_chunk_header i) - recv_length i"
      and "chunk = (if need > recv_chunk_size p then recv_chunk_size p else need)"
    note def = that [unfolded take_chunk_def Let_def, folded need_def, folded chunk_def]
    show ?thesis
    proof (cases "length s < unat chunk")
      case True
      then show ?thesis using def by auto
    next
      case False
      then have "n = unat chunk" "r = drop (unat chunk) s"
        using def by (auto split: if_splits outcome.splits bool.splits prod.splits)
      then show ?thesis using False by (intro exI [of _ "take (unat chunk) s"]) simp
    qed
  qed
  then show ?thesis
    using assms by (auto simp: parse_payload_def Let_def split: option.splits sum.splits)
qed

lemma message_complete_fields [simp]:
  "rtmp_state (message_complete pp p) = MESSAGE_COMPLETE"
  "hdr_parser (message_complete pp p) = hdr_parser p"
  "readed_bytes_count (message_complete pp p) = readed_bytes_count p"
  "parsed_message (message_complete pp p) = payload_parsed pp"
  "parsed_header (message_complete pp p) = parsed_header p"
  by (auto simp: message_complete_def Let_def set_win_ack_size_def split: option.split rtmp_body.split)

text \<open>\<open>readed\<close> is the \<open>total_readed_size\<close> so far. Each turn of the loop reads something, or finishes
  what an earlier call has begun.\<close>

function parse_private :: "u32 \<Rightarrow> rtmp_parser \<Rightarrow> nat \<Rightarrow> bytes \<Rightarrow> rtmp_step" where
  "parse_private junk p readed s = (case rtmp_state p of
      HEADER_PARSING \<Rightarrow>
        (if s = [] then Done (Indeterminate, readed, s, p)
         else case parse_header (hdr_parser p) s of
           (Yes, n, r, hp) \<Rightarrow> parse_private junk (p\<lparr>hdr_parser := hp, parsed_header := parsed_msg hp,
               rtmp_state := PAYLOAD_PARSING\<rparr>) (readed + n) r
         | (res, n, r, hp) \<Rightarrow> Done (res, readed, r, p\<lparr>hdr_parser := hp\<rparr>))
    | PAYLOAD_PARSING \<Rightarrow>
        (if s = [] then Done (Indeterminate, readed, s, p)
         else case parse_payload junk (parsed_header p) (pay_parser p) s of
           Thrown e \<Rightarrow> Thrown e
         | Null_Deref \<Rightarrow> Null_Deref
         | Done (PAYLOAD_COMPLETE, n, r, pp) \<Rightarrow>
             parse_private junk (message_complete pp p) (readed + n) r
         | Done (WAITING_NEXT_CHUNK, n, r, pp) \<Rightarrow>
             parse_private junk (p\<lparr>pay_parser := pp, rtmp_state := HEADER_PARSING\<rparr>) (readed + n) r
         | Done (FAIL, n, r, pp) \<Rightarrow> Done (No, readed, r, p\<lparr>pay_parser := pp\<rparr>)
         | Done (WAITING_MORE_PAYLOAD_DATA, n, r, pp) \<Rightarrow>
             Done (Indeterminate, readed, r, p\<lparr>pay_parser := pp\<rparr>))
    | MESSAGE_COMPLETE \<Rightarrow> Done (Yes, readed, s, p\<lparr>rtmp_state := HEADER_PARSING\<rparr>))"
  by pat_completeness auto

termination
proof (relation "measures [\<lambda>(j, p, t, s). length s,
    \<lambda>(j, p, t, s). if at_header (hdr_parser p) then 0 else 1,
    \<lambda>(j, p, t, s). if rtmp_state p = PAYLOAD_PARSING then 1 else 0]", simp, goal_cases)
  case (1 junk p readed s x y n yb r hp)
  then have "parse_header (hdr_parser p) s = (Yes, n, r, hp)" by simp
  from header_progress [OF this] 1 show ?case by auto
next
  case (2 junk p readed s out x y n yb r pp)
  then have "\<exists>pre. s = pre @ r \<and> length pre = n" using payload_progress by metis
  with 2 show ?case by (auto simp: neq_Nil_conv)
next
  case (3 junk p readed s out x y n yb r pp)
  then have "\<exists>pre. s = pre @ r \<and> length pre = n" using payload_progress by metis
  with 3 show ?case by (auto simp: neq_Nil_conv)
qed

declare parse_private.simps [simp del]

text \<open>The ways one turn of the loop can go.\<close>

lemma parse_private_cases [consumes 1, case_names Waits Header_Stops Header Payload_Stops Next_Chunk
    Payload_Complete Completed]:
  assumes "parse_private junk p k s = Done (res, n, r, q)"
  obtains "s = []" "res = Indeterminate" "n = k" "r = s" "q = p"
  | m hp where "rtmp_state p = HEADER_PARSING" "s \<noteq> []" "parse_header (hdr_parser p) s = (res, m, r, hp)"
      "res \<noteq> Yes" "n = k" "q = p\<lparr>hdr_parser := hp\<rparr>"
  | m hp s1 where "rtmp_state p = HEADER_PARSING" "s \<noteq> []"
      "parse_header (hdr_parser p) s = (Yes, m, s1, hp)"
      "parse_private junk (p\<lparr>hdr_parser := hp, parsed_header := parsed_msg hp,
         rtmp_state := PAYLOAD_PARSING\<rparr>) (k + m) s1 = Done (res, n, r, q)"
  | x m pp where "rtmp_state p = PAYLOAD_PARSING" "s \<noteq> []"
      "parse_payload junk (parsed_header p) (pay_parser p) s = Done (x, m, r, pp)"
      "x = FAIL \<and> res = No \<or> x = WAITING_MORE_PAYLOAD_DATA \<and> res = Indeterminate"
      "n = k" "q = p\<lparr>pay_parser := pp\<rparr>"
  | m s1 pp where "rtmp_state p = PAYLOAD_PARSING" "s \<noteq> []"
      "parse_payload junk (parsed_header p) (pay_parser p) s = Done (WAITING_NEXT_CHUNK, m, s1, pp)"
      "parse_private junk (p\<lparr>pay_parser := pp, rtmp_state := HEADER_PARSING\<rparr>) (k + m) s1 =
         Done (res, n, r, q)"
  | m s1 pp where "rtmp_state p = PAYLOAD_PARSING" "s \<noteq> []"
      "parse_payload junk (parsed_header p) (pay_parser p) s = Done (PAYLOAD_COMPLETE, m, s1, pp)"
      "parse_private junk (message_complete pp p) (k + m) s1 = Done (res, n, r, q)"
  | "rtmp_state p = MESSAGE_COMPLETE" "res = Yes" "n = k" "r = s" "q = p\<lparr>rtmp_state := HEADER_PARSING\<rparr>"
proof (cases "rtmp_state p")
  case HEADER_PARSING
  obtain r0 m s1 hp where h: "parse_header (hdr_parser p) s = (r0, m, s1, hp)"
    by (metis prod_cases4)
  show ?thesis
    using assms HEADER_PARSING h that(1-3)
    by (cases r0) (auto simp: parse_private.simps [of junk p k s] split: if_splits)
next
  case PAYLOAD_PARSING
  show ?thesis
  proof (cases "parse_payload junk (parsed_header p) (pay_parser p) s")
    case (Done out)
    then obtain x m s1 pp where "out = (x, m, s1, pp)" by (metis prod_cases4)
    then show ?thesis
      using assms PAYLOAD_PARSING Done that(1,4-6)
      by (cases x) (auto simp: parse_private.simps [of junk p k s] split: if_splits)
  qed (use assms PAYLOAD_PARSING that(1) in
      \<open>auto simp: parse_private.simps [of junk p k s] split: if_splits\<close>)
next
  case MESSAGE_COMPLETE
  then show ?thesis using assms that(7) by (auto simp: parse_private.simps [of junk p k s])
qed

lemma parse_private_induct [consumes 1, case_names Waits Header_Stops Header Payload_Stops Next_Chunk
    Payload_Complete Completed]:
  assumes "parse_private junk p k s = Done (res, n, r, q)"
    and "\<And>p k. P p k [] Indeterminate k [] p"
    and "\<And>p k s res m r hp. rtmp_state p = HEADER_PARSING \<Longrightarrow> s \<noteq> [] \<Longrightarrow> parse_header (hdr_parser p) s = (res, m, r, hp)
      \<Longrightarrow> res \<noteq> Yes \<Longrightarrow> P p k s res k r (p\<lparr>hdr_parser := hp\<rparr>)"
    and "\<And>p k s m s1 hp res n r q. rtmp_state p = HEADER_PARSING \<Longrightarrow> s \<noteq> []
      \<Longrightarrow> parse_header (hdr_parser p) s = (Yes, m, s1, hp)
      \<Longrightarrow> P (p\<lparr>hdr_parser := hp, parsed_header := parsed_msg hp, rtmp_state := PAYLOAD_PARSING\<rparr>)
          (k + m) s1 res n r q \<Longrightarrow> P p k s res n r q"
    and "\<And>p k s res x m r pp. rtmp_state p = PAYLOAD_PARSING \<Longrightarrow> s \<noteq> []
      \<Longrightarrow> parse_payload junk (parsed_header p) (pay_parser p) s = Done (x, m, r, pp)
      \<Longrightarrow> x = FAIL \<and> res = No \<or> x = WAITING_MORE_PAYLOAD_DATA \<and> res = Indeterminate
      \<Longrightarrow> P p k s res k r (p\<lparr>pay_parser := pp\<rparr>)"
    and "\<And>p k s m s1 pp res n r q. rtmp_state p = PAYLOAD_PARSING \<Longrightarrow> s \<noteq> []
      \<Longrightarrow> parse_payload junk (parsed_header p) (pay_parser p) s = Done (WAITING_NEXT_CHUNK, m, s1, pp)
      \<Longrightarrow> P (p\<lparr>pay_parser := pp, rtmp_state := HEADER_PARSING\<rparr>) (k + m) s1 res n r q
      \<Longrightarrow> P p k s res n r q"
    and "\<And>p k s m s1 pp res n r q. rtmp_state p = PAYLOAD_PARSING \<Longrightarrow> s \<noteq> []
      \<Longrightarrow> parse_payload junk (parsed_header p) (pay_parser p) s = Done (PAYLOAD_COMPLETE, m, s1, pp)
      \<Longrightarrow> P (message_complete pp p) (k + m) s1 res n r q \<Longrightarrow> P p k s res n r q"
    and "\<And>p k s. rtmp_state p = MESSAGE_COMPLETE \<Longrightarrow> P p k s Yes k s (p\<lparr>rtmp_state := HEADER_PARSING\<rparr>)"
  shows "P p k s res n r q"
proof -
  have "parse_private j p k s = Done (res, n, r, q) \<Longrightarrow> j = junk \<Longrightarrow> P p k s res n r q" for j
  proof (induction j p k s arbitrary: res n r q rule: parse_private.induct)
    case (1 j p k s)
    from 1(4) show ?case unfolding 1(5)
    proof (cases rule: parse_private_cases)
      case (Header m hp s1)
      have "P (p\<lparr>hdr_parser := hp, parsed_header := parsed_msg hp, rtmp_state := PAYLOAD_PARSING\<rparr>)
          (k + m) s1 res n r q"
        using 1(5) Header by (intro 1(1)) auto
      then show ?thesis using Header assms(4) by blast
    next
      case (Next_Chunk m s1 pp)
      have "P (p\<lparr>pay_parser := pp, rtmp_state := HEADER_PARSING\<rparr>) (k + m) s1 res n r q"
        using 1(5) Next_Chunk by (intro 1(3)) auto
      then show ?thesis using Next_Chunk assms(6) by blast
    next
      case (Payload_Complete m s1 pp)
      have "P (message_complete pp p) (k + m) s1 res n r q"
        using 1(5) Payload_Complete by (intro 1(2)) auto
      then show ?thesis using Payload_Complete assms(7) by blast
    qed (use assms(2,3,5,8) in auto)
  qed
  then show ?thesis using assms(1) by blast
qed

text \<open>What a call reads, and what it leaves alone.\<close>

definition last_ack :: "rtmp_parser \<Rightarrow> u64" where
  "last_ack p = next_ack_send_size p - ucast (win_ack_size p)"

lemma last_ack_complete [simp]: "last_ack (message_complete pp p) = last_ack p"
  by (auto simp: last_ack_def message_complete_def Let_def set_win_ack_size_def
      split: option.split rtmp_body.split)

lemma last_ack_update [simp]:
  "last_ack (p\<lparr>hdr_parser := hp\<rparr>) = last_ack p" "last_ack (p\<lparr>pay_parser := pp\<rparr>) = last_ack p"
  "last_ack (p\<lparr>rtmp_state := st\<rparr>) = last_ack p" "last_ack (p\<lparr>parsed_header := h\<rparr>) = last_ack p"
  "last_ack (p\<lparr>readed_bytes_count := c\<rparr>) = last_ack p"
  "last_ack (p\<lparr>read_bytes_count_in_window := w\<rparr>) = last_ack p"
  by (simp_all add: last_ack_def)

lemma parse_private_counts:
  "parse_private junk p k s = Done (res, n, r, q) \<Longrightarrow>
    readed_bytes_count q = readed_bytes_count p \<and> last_ack q = last_ack p"
  by (induction rule: parse_private_induct) simp_all

lemma parse_header_No:
  "parse_header p s = (res, n, r, p') \<Longrightarrow> \<exists>pre. s = pre @ r"
proof (induction p s arbitrary: res n r p' rule: parse_header_induct)
  case (step p s)
  obtain r0 k s0 p0 where st: "parse_in_current_state p s = (r0, k, s0, p0)"
    by (metis prod_cases4)
  have pre: "\<exists>pre. s = pre @ s0"
    using st by (cases "parsing_state p")
      (auto simp: parse_in_current_state_def header_step_defs Let_def split: list.splits if_splits)
  show ?case
  proof (cases "parsing_state p = COMPLETE")
    case True
    then show ?thesis using step(2) by (simp add: parse_header_COMPLETE)
  next
    case False
    show ?thesis
    proof (cases r0)
      case Yes
      obtain r1 m s1 p1 where rest: "parse_header p0 s0 = (r1, m, s1, p1)"
        by (metis prod_cases4)
      then have "\<exists>pre. s0 = pre @ s1" using step(1) [OF False st [unfolded Yes]] by blast
      then show ?thesis
        using step(2) False st Yes rest pre by (auto simp: parse_header.simps [of p s])
    qed (use step(2) False st pre in \<open>auto simp: parse_header.simps [of p s]\<close>)
  qed
qed

lemma parse_private_reads:
  assumes "parse_private junk p k s = Done (res, n, r, q)"
  shows "\<exists>pre. s = pre @ r \<and> n \<le> k + length pre \<and> k \<le> n \<and> (res = Yes \<longrightarrow> n = k + length pre)"
  using assms
proof (induction rule: parse_private_induct)
  case (Header_Stops p k s res m r hp)
  then show ?case using parse_header_No by fastforce
next
  case (Header p k s m s1 hp res n r q)
  then show ?case using parse_header_consumes [OF Header(3)] by fastforce
next
  case (Payload_Stops p k s res x m r pp)
  then show ?case using payload_progress by fastforce
next
  case (Next_Chunk p k s m s1 pp res n r q)
  then show ?case using payload_progress [OF Next_Chunk(3)] by fastforce
next
  case (Payload_Complete p k s m s1 pp res n r q)
  then show ?case using payload_progress [OF Payload_Complete(3)] by fastforce
qed simp_all

subsection \<open>Acknowledgements\<close>

text \<open>What a parser or a handler asks of the connection (\<open>network/MessageSender.hpp\<close>).\<close>

datatype send_action = Push rtmp_message | Signal | Continuous_Send bool

definition parse ::
  "u32 \<Rightarrow> rtmp_parser \<Rightarrow> bytes \<Rightarrow>
    (tribool \<times> nat \<times> bytes \<times> send_action list \<times> rtmp_parser) outcome" where
  "parse junk p s = (case parse_private junk p 0 s of
      Thrown e \<Rightarrow> Thrown e
    | Null_Deref \<Rightarrow> Null_Deref
    | Done (result, n, r, p) \<Rightarrow>
        (if n > 0 then
          (let p = p\<lparr>readed_bytes_count := readed_bytes_count p + of_nat n\<rparr>
           in if readed_bytes_count p \<ge> next_ack_send_size p
              then Done (result, n, r,
                [Push (control_message (Acknowledgement (win_ack_size p))), Signal],
                p\<lparr>next_ack_send_size := readed_bytes_count p + ucast (win_ack_size p),
                  read_bytes_count_in_window := 0\<rparr>)
              else Done (result, n, r, [],
                p\<lparr>read_bytes_count_in_window := read_bytes_count_in_window p + of_nat n\<rparr>))
         else Done (result, n, r, [], p)))"

text \<open>Between calls: fewer bytes than a window were counted since the last acknowledgement.\<close>

definition ack_ok :: "rtmp_parser \<Rightarrow> bool" where
  "ack_ok p \<longleftrightarrow> unat (last_ack p) \<le> unat (readed_bytes_count p)
     \<and> unat (readed_bytes_count p) < unat (last_ack p) + unat (win_ack_size p)"

lemma ack_ok_new: "ack_ok new_rtmp_parser"
  by (simp add: ack_ok_def last_ack_def new_rtmp_parser_def DEFAULT_WIN_ACK_SIZE_def)

text \<open>C12: as long as the window is not empty, the parser keeps that invariant, and sends an
  acknowledgement exactly when the bytes counted since the last one fill the window, whatever
  window the peer has just asked for.\<close>

theorem ack_every_window:
  assumes "ack_ok p" and "parse junk p s = Done (res, n, r, acts, q)" and "0 < n"
    and "0 < win_ack_size q" and "unat (readed_bytes_count p) + n + 2 ^ 32 < 2 ^ 64"
  shows "ack_ok q \<and> unat (readed_bytes_count q) = unat (readed_bytes_count p) + n
    \<and> acts = (if unat (last_ack p) + unat (win_ack_size q) \<le> unat (readed_bytes_count p) + n
        then [Push (control_message (Acknowledgement (win_ack_size q))), Signal] else [])"
proof -
  obtain p1 where pp: "parse_private junk p 0 s = Done (res, n, r, p1)"
    using assms(2) by (auto simp: parse_def Let_def split: outcome.splits if_splits)
  note counts = parse_private_counts [OF pp]
  have win: "win_ack_size q = win_ack_size p1"
    using assms(2,3) pp by (auto simp: parse_def Let_def split: if_splits)
  let ?c = "readed_bytes_count p + of_nat n" and ?w = "win_ack_size p1"
  have c: "unat ?c = unat (readed_bytes_count p) + n"
    using assms(5) by (simp add: unat_word_ariths unsigned_of_nat take_bit_nat_eq_self)
  have w: "unat (ucast ?w :: u64) = unat ?w" "unat ?w < 2 ^ 32"
    using unat_lt_32 [of ?w] by simp_all
  have "next_ack_send_size p1 = last_ack p + ucast ?w"
    using counts by (simp add: last_ack_def algebra_simps)
  moreover have la: "unat (last_ack p) \<le> unat (readed_bytes_count p)"
    using assms(1) by (simp add: ack_ok_def)
  ultimately have nxt: "unat (next_ack_send_size p1) = unat (last_ack p) + unat ?w"
    using w assms(5) by (simp add: unat_word_ariths)
  show ?thesis
  proof (cases "unat (last_ack p) + unat ?w \<le> unat ?c")
    case True
    then have "next_ack_send_size p1 \<le> ?c" using nxt by (simp add: word_le_nat_alt)
    then have q: "q = p1\<lparr>readed_bytes_count := ?c, next_ack_send_size := ?c + ucast ?w,
        read_bytes_count_in_window := 0\<rparr>"
      and acts: "acts = [Push (control_message (Acknowledgement ?w)), Signal]"
      using assms(2,3) pp counts by (simp_all add: parse_def Let_def)
    have "last_ack q = ?c" by (simp add: q last_ack_def)
    then show ?thesis
      using q acts c True assms(4) win by (simp add: ack_ok_def word_less_nat_alt)
  next
    case False
    then have "\<not> next_ack_send_size p1 \<le> ?c" using nxt by (simp add: word_le_nat_alt)
    then have q: "q = p1\<lparr>readed_bytes_count := ?c,
        read_bytes_count_in_window := read_bytes_count_in_window p1 + of_nat n\<rparr>"
      and acts: "acts = []"
      using assms(2,3) pp counts by (simp_all add: parse_def Let_def)
    have "last_ack q = last_ack p" using counts by (simp add: q)
    then show ?thesis
      using q acts c False la win by (simp add: ack_ok_def)
  qed
qed

theorem ack_every_window_witness:
  "case parse 0 (new_rtmp_parser\<lparr>readed_bytes_count := 4999990\<rparr>) [2, 0, 0, 0, 0, 0, 4, 5, 0, 0, 0, 0] of
     Done (_, _, _, acts, q) \<Rightarrow> ack_ok q
       \<and> acts = [Push (control_message (Acknowledgement 5000000)), Signal]
   | _ \<Rightarrow> False"
proof -
  let ?p = "new_rtmp_parser\<lparr>readed_bytes_count := 4999990\<rparr>"
  let ?s = "[2, 0, 0, 0, 0, 0, 4, 5, 0, 0, 0, 0] :: bytes"
  let ?hp = "header_parser_reset\<lparr>parsed_msg := header_reset\<lparr>chunk_stream_id := 2, msg_length := 4,
    msg_type_id := WINACKSIZE\<rparr>\<rparr>"
  have "parse_header header_parser_reset ?s = (Yes, 12, [], ?hp)"
    by code_simp
  then have "\<exists>res r acts q. parse 0 ?p ?s = Done (res, 12, r, acts, q) \<and> win_ack_size q = 5000000"
    by (simp add: parse_def parse_private.simps new_rtmp_parser_def DEFAULT_WIN_ACK_SIZE_def Let_def)
  then obtain res r acts q where eq: "parse 0 ?p ?s = Done (res, 12, r, acts, q)"
    and win: "win_ack_size q = 5000000"
    by blast
  have "last_ack ?p = 0"
    by (simp add: last_ack_def new_rtmp_parser_def)
  moreover have "ack_ok ?p"
    by (simp add: ack_ok_def last_ack_def new_rtmp_parser_def DEFAULT_WIN_ACK_SIZE_def)
  ultimately have "ack_ok q \<and> acts = [Push (control_message (Acknowledgement 5000000)), Signal]"
    using ack_every_window [OF _ eq] win by (simp add: new_rtmp_parser_def)
  then show ?thesis by (simp add: eq)
qed

subsection \<open>Headers in pieces\<close>

text \<open>When a call ends inside a header, the bytes of the header that it has taken from the
  stream are not counted: \<open>total_readed_size\<close> stays 0, no acknowledgement is due, and the total
  is short by these bytes from then on.\<close>

theorem partial_header_not_counted:
  assumes "rtmp_state p = HEADER_PARSING" and "s \<noteq> []"
    and "parse_header (hdr_parser p) s = (Indeterminate, n, r, hp)"
  shows "parse junk p s = Done (Indeterminate, 0, r, [], p\<lparr>hdr_parser := hp\<rparr>)"
  using assms by (simp add: parse_def parse_private.simps [of junk p])

theorem partial_header_not_counted_witness:
  "parse 0 new_rtmp_parser [0x44, 0, 0, 20] = Done (Indeterminate, 0, [0, 0, 20], [],
     new_rtmp_parser\<lparr>hdr_parser := \<lparr> parsing_state = CHUNK_MSG_HEADER_TYPE1,
       parsed_msg = header_reset\<lparr>format_type := SAME_STREAM, chunk_stream_id := 4\<rparr> \<rparr>\<rparr>)"
proof (rule partial_header_not_counted)
  show "parse_header (hdr_parser new_rtmp_parser) [0x44, 0, 0, 20] = (Indeterminate, 1, [0, 0, 20],
      \<lparr> parsing_state = CHUNK_MSG_HEADER_TYPE1,
        parsed_msg = header_reset\<lparr>format_type := SAME_STREAM, chunk_stream_id := 4\<rparr> \<rparr>)"
    by code_simp
qed (simp_all add: new_rtmp_parser_def)

subsection \<open>Receiving a message\<close>

lemma parse_header_bytes:
  assumes "writable h" and "at_header p"
  shows "parse_header p (header_bytes h @ s) =
    (Yes, length (header_bytes h), s,
      \<lparr> parsing_state = BASIC_HEADER_1BYTE, parsed_msg = inherit (parsed_msg p) h \<rparr>)"
  using after_basic_header [OF assms(1)] after_message_header [OF assms(1)] assms(2)
  by (simp add: at_header_def header_bytes_def)

lemma inherit_cs [simp]: "chunk_stream_id (inherit old h) = chunk_stream_id h"
  by (simp add: inherit_def Let_def split: format_type.split)

lemma writable_continuation:
  "2 \<le> cs \<Longrightarrow> cs \<le> 6559 \<Longrightarrow> writable (continuation_header cs)"
  by (simp add: writable_def continuation_header_def has_msg_len_and_type_def)

text \<open>The parsers of the messages do not look at the messages under way.\<close>

lemma dispatch_frame:
  "dispatch_message junk h b (pp\<lparr>incomplete_infos := f\<rparr>) = (case dispatch_message junk h b pp of
     Done (ok, q) \<Rightarrow> Done (ok, q\<lparr>incomplete_infos := f\<rparr>)
   | Thrown e \<Rightarrow> Thrown e | Null_Deref \<Rightarrow> Null_Deref)"
  by (auto simp: dispatch_message_def Let_def split: prod.splits outcome.splits)

text \<open>A message of which \<open>i\<close> holds the part \<open>got\<close> of its payload.\<close>

definition receiving :: "received_payload_info \<Rightarrow> bytes \<Rightarrow> bytes \<Rightarrow> bool" where
  "receiving i got rest \<longleftrightarrow> recv_buf i = got \<and> unat (recv_length i) = length got
     \<and> unat (msg_length (first_chunk_header i)) = length (got @ rest)"

lemma receiving_need:
  "receiving i got rest \<Longrightarrow> unat (msg_length (first_chunk_header i) - recv_length i) = length rest"
  by (simp add: receiving_def unat_sub word_le_nat_alt)

lemma take_next_chunk:
  assumes "receiving i got rest" and "unat (recv_chunk_size pp) < length rest"
  defines "i' \<equiv> i\<lparr>recv_buf := got @ take (unat (recv_chunk_size pp)) rest,
      recv_length := recv_length i + recv_chunk_size pp\<rparr>"
  shows "take_chunk junk cs i pp (take (unat (recv_chunk_size pp)) rest @ s) =
      Done (WAITING_NEXT_CHUNK, unat (recv_chunk_size pp), s,
        pp\<lparr>incomplete_infos := (incomplete_infos pp)(cs := Some i')\<rparr>)"
    and "receiving i' (got @ take (unat (recv_chunk_size pp)) rest) (drop (unat (recv_chunk_size pp)) rest)"
proof -
  let ?need = "msg_length (first_chunk_header i) - recv_length i"
  have lt: "recv_chunk_size pp < ?need" "?need \<noteq> recv_chunk_size pp"
    using assms(2) receiving_need [OF assms(1)] by (auto simp: word_less_nat_alt)
  then show "take_chunk junk cs i pp (take (unat (recv_chunk_size pp)) rest @ s) =
      Done (WAITING_NEXT_CHUNK, unat (recv_chunk_size pp), s,
        pp\<lparr>incomplete_infos := (incomplete_infos pp)(cs := Some i')\<rparr>)"
    using assms(1,2)
    by (auto simp: take_chunk_def Let_def i'_def receiving_def fun_upd_idem)
  have "unat (recv_length i + recv_chunk_size pp) = length got + unat (recv_chunk_size pp)"
    using assms(1,2) unat_lt_32 [of "msg_length (first_chunk_header i)"]
    by (simp add: unat_word_ariths receiving_def)
  then show "receiving i' (got @ take (unat (recv_chunk_size pp)) rest)
      (drop (unat (recv_chunk_size pp)) rest)"
    using assms(1,2) by (simp add: receiving_def i'_def)
qed

lemma take_last_chunk:
  assumes "receiving i got rest" and "length rest \<le> unat (recv_chunk_size pp)"
    and "dispatch_message junk (first_chunk_header i) (got @ rest) pp = Done (True, q)"
    and "payload_parsed q = Some m"
  shows "take_chunk junk cs i pp (rest @ s) = Done (PAYLOAD_COMPLETE, length rest, s,
      q\<lparr>incomplete_infos := (incomplete_infos pp)(cs := None)\<rparr>)"
proof -
  let ?need = "msg_length (first_chunk_header i) - recv_length i"
  have ge: "\<not> recv_chunk_size pp < ?need"
    using assms(2) receiving_need [OF assms(1)] by (simp add: word_less_nat_alt)
  then show ?thesis
    using assms(1,3,4) receiving_need [OF assms(1)] dispatch_infos [OF assms(3)]
    by (simp add: take_chunk_def Let_def receiving_def dispatch_frame)
qed

lemma private_header:
  "rtmp_state p = HEADER_PARSING \<Longrightarrow> s \<noteq> [] \<Longrightarrow> parse_header (hdr_parser p) s = (Yes, m, r, hp)
    \<Longrightarrow> parse_private junk p k s = parse_private junk (p\<lparr>hdr_parser := hp, parsed_header := parsed_msg hp,
      rtmp_state := PAYLOAD_PARSING\<rparr>) (k + m) r"
  by (simp add: parse_private.simps [of junk p])

lemma private_next_chunk:
  "rtmp_state p = PAYLOAD_PARSING \<Longrightarrow> s \<noteq> []
    \<Longrightarrow> parse_payload junk (parsed_header p) (pay_parser p) s = Done (WAITING_NEXT_CHUNK, m, r, pp)
    \<Longrightarrow> parse_private junk p k s =
      parse_private junk (p\<lparr>pay_parser := pp, rtmp_state := HEADER_PARSING\<rparr>) (k + m) r"
  by (simp add: parse_private.simps [of junk p])

text \<open>A chunk that does not complete the message, and the header of the next one.\<close>

lemma next_chunk_begins:
  assumes cs: "2 \<le> cs" "cs \<le> 6559"
    and p: "rtmp_state p = PAYLOAD_PARSING" "at_header (hdr_parser p)"
    and pay: "\<And>s. parse_payload junk (parsed_header p) (pay_parser p) s = take_chunk junk cs i pp s"
    and rest: "receiving i got rest" "unat (recv_chunk_size pp) < length rest" "0 < recv_chunk_size pp"
  defines "n \<equiv> unat (recv_chunk_size pp)"
  obtains i' p' where "\<And>k x. parse_private junk p k (take n rest @ continuation_bytes cs @ x) =
      parse_private junk p' (k + n + length (continuation_bytes cs)) x"
    "rtmp_state p' = PAYLOAD_PARSING" "at_header (hdr_parser p')"
    "\<And>s. parse_payload junk (parsed_header p') (pay_parser p') s =
      take_chunk junk cs i' (pp\<lparr>incomplete_infos := (incomplete_infos pp)(cs := Some i')\<rparr>) s"
    "receiving i' (got @ take n rest) (drop n rest)" "first_chunk_header i' = first_chunk_header i"
    "\<And>x hp h. message_complete x (p'\<lparr>hdr_parser := hp, parsed_header := h\<rparr>) =
      message_complete x (p\<lparr>hdr_parser := hp, parsed_header := h\<rparr>)"
proof -
  let ?sep = "continuation_bytes cs"
  define i' where "i' = i\<lparr>recv_buf := got @ take n rest, recv_length := recv_length i + recv_chunk_size pp\<rparr>"
  define pp' where "pp' = pp\<lparr>incomplete_infos := (incomplete_infos pp)(cs := Some i')\<rparr>"
  define hp' where "hp' = \<lparr> parsing_state = BASIC_HEADER_1BYTE,
    parsed_msg = inherit (parsed_msg (hdr_parser p)) (continuation_header cs) \<rparr>"
  define p' where "p' = p\<lparr>pay_parser := pp', hdr_parser := hp', parsed_header := parsed_msg hp'\<rparr>"
  note step = take_next_chunk [OF rest(1,2), folded n_def, folded i'_def, folded pp'_def]
  have sep: "?sep \<noteq> []" and hdr: "parse_header (hdr_parser p) (?sep @ x) = (Yes, length ?sep, x, hp')" for x
    using parse_header_bytes [OF writable_continuation [OF cs] p(2), of x]
      header_progress [of "hdr_parser p" "?sep @ x"] p(2)
    by (auto simp: hp'_def)
  have "parse_private junk p k (take n rest @ ?sep @ x) =
      parse_private junk (p\<lparr>pay_parser := pp', rtmp_state := HEADER_PARSING\<rparr>) (k + n) (?sep @ x)" for k x
    using p(1) pay rest step(1) by (intro private_next_chunk) (auto simp: pp'_def n_def word_less_nat_alt)
  also have "\<dots> k x = parse_private junk ((p\<lparr>pay_parser := pp', rtmp_state := HEADER_PARSING\<rparr>)
      \<lparr>hdr_parser := hp', parsed_header := parsed_msg hp', rtmp_state := PAYLOAD_PARSING\<rparr>) (k + n + length ?sep) x" for k x
    using sep hdr by (intro private_header) simp_all
  finally have "parse_private junk p k (take n rest @ ?sep @ x) =
      parse_private junk (p'\<lparr>rtmp_state := PAYLOAD_PARSING\<rparr>) (k + n + length ?sep) x" for k x
    by (simp add: p'_def)
  moreover have "p'\<lparr>rtmp_state := PAYLOAD_PARSING\<rparr> = p'" using p(1) by (simp add: p'_def)
  ultimately have one: "parse_private junk p k (take n rest @ ?sep @ x) = parse_private junk p' (k + n + length ?sep) x" for k x
    by simp
  have complete: "message_complete x (p'\<lparr>hdr_parser := hp, parsed_header := h\<rparr>) =
      message_complete x (p\<lparr>hdr_parser := hp, parsed_header := h\<rparr>)" for x hp h
    by (simp add: message_complete_def Let_def p'_def set_win_ack_size_def cong: option.case_cong rtmp_body.case_cong)
  show thesis
    by (rule that [of p' i'], fact one) (use p(1) complete step(2) in \<open>simp_all add: p'_def hp'_def pp'_def i'_def
      at_header_def parse_payload_def Let_def continuation_header_def\<close>)
qed

text \<open>The loop takes chunk after chunk, up to the one that completes the message.\<close>

lemma chunks_received:
  fixes cs :: u32 and junk :: u32
  assumes cs: "2 \<le> cs" "cs \<le> 6559"
  shows "rtmp_state p = PAYLOAD_PARSING \<Longrightarrow> at_header (hdr_parser p)
    \<Longrightarrow> (\<And>s. parse_payload junk (parsed_header p) (pay_parser p) s = take_chunk junk cs i pp s)
    \<Longrightarrow> receiving i got rest \<Longrightarrow> rest \<noteq> [] \<Longrightarrow> 0 < recv_chunk_size pp
    \<Longrightarrow> dispatch_message junk (first_chunk_header i) (got @ rest) pp = Done (True, q)
    \<Longrightarrow> payload_parsed q = Some m
    \<Longrightarrow> \<exists>hp h. at_header hp
      \<and> parse_private junk p k (chunked (unat (recv_chunk_size pp)) (continuation_bytes cs) rest @ s) =
        Done (Yes, k + length (chunked (unat (recv_chunk_size pp)) (continuation_bytes cs) rest), s,
          (message_complete (q\<lparr>incomplete_infos := (incomplete_infos pp)(cs := None)\<rparr>)
            (p\<lparr>hdr_parser := hp, parsed_header := h\<rparr>))\<lparr>rtmp_state := HEADER_PARSING\<rparr>)"
proof (induction "length rest" arbitrary: p i pp got rest q k rule: less_induct)
  case less
  let ?n = "unat (recv_chunk_size pp)" and ?sep = "continuation_bytes cs"
  have pos: "0 < ?n" using less.prems(6) by (simp add: word_less_nat_alt)
  show ?case
  proof (cases "length rest \<le> ?n")
    case True
    then have ch: "chunked ?n ?sep rest = rest" by (simp add: chunked.simps)
    have "parse_private junk p k (rest @ s) = Done (Yes, k + length rest, s,
        (message_complete (q\<lparr>incomplete_infos := (incomplete_infos pp)(cs := None)\<rparr>) p)
          \<lparr>rtmp_state := HEADER_PARSING\<rparr>)"
      using less.prems take_last_chunk [OF less.prems(4) True less.prems(7,8)]
      by (simp add: parse_private.simps)
    then show ?thesis
      using less.prems(2) ch
      by (intro exI [of _ "hdr_parser p"] exI [of _ "parsed_header p"]) simp
  next
    case False
    then have ch: "chunked ?n ?sep rest = take ?n rest @ ?sep @ chunked ?n ?sep (drop ?n rest)"
      using pos by (subst chunked.simps) simp
    have lt: "?n < length rest" using False by simp
    obtain i' p' where p': "\<And>k x. parse_private junk p k (take ?n rest @ ?sep @ x) =
        parse_private junk p' (k + ?n + length ?sep) x"
      "rtmp_state p' = PAYLOAD_PARSING" "at_header (hdr_parser p')"
      "\<And>s. parse_payload junk (parsed_header p') (pay_parser p') s =
        take_chunk junk cs i' (pp\<lparr>incomplete_infos := (incomplete_infos pp)(cs := Some i')\<rparr>) s"
      "receiving i' (got @ take ?n rest) (drop ?n rest)" "first_chunk_header i' = first_chunk_header i"
      "\<And>x hp h. message_complete x (p'\<lparr>hdr_parser := hp, parsed_header := h\<rparr>) =
        message_complete x (p\<lparr>hdr_parser := hp, parsed_header := h\<rparr>)"
      using next_chunk_begins [OF cs less.prems(1-4) lt less.prems(6)] by metis
    let ?infos = "(incomplete_infos pp)(cs := Some i')"
    have "dispatch_message junk (first_chunk_header i') ((got @ take ?n rest) @ drop ?n rest)
        (pp\<lparr>incomplete_infos := ?infos\<rparr>) = Done (True, q\<lparr>incomplete_infos := ?infos\<rparr>)"
      using less.prems(7) p'(6) by (simp add: dispatch_frame)
    from less.hyps [OF _ p'(2-5) _ _ this, of "k + ?n + length ?sep"] show ?thesis
      using pos lt less.prems(6,8) p'(1,7) by (simp add: ch add.assoc)
  qed
qed


text \<open>A whole message, as \<open>write_payload\<close> puts it on the wire.\<close>

definition idle :: "rtmp_parser \<Rightarrow> bool" where
  "idle p \<longleftrightarrow> rtmp_state p = HEADER_PARSING \<and> at_header (hdr_parser p)
     \<and> incomplete_infos (pay_parser p) = (\<lambda>_. None)"

lemma message_received:
  assumes "idle p" and "writable h" and "has_msg_len_and_type h" and "unat (msg_length h) = length b"
    and "b \<noteq> []" and "0 < recv_chunk_size (pay_parser p)"
    and "new_recv_info (inherit (parsed_msg (hdr_parser p)) h) (pay_parser p) = Inr (i, pp)"
    and "msg_length (first_chunk_header i) = msg_length h"
    and "dispatch_message junk (first_chunk_header i) b pp = Done (True, q)"
    and "payload_parsed q = Some m"
  defines "wire \<equiv> header_bytes h @ chunked (unat (recv_chunk_size (pay_parser p)))
      (continuation_bytes (chunk_stream_id h)) b"
  shows "\<exists>hp hd. at_header hp \<and> parse_private junk p 0 (wire @ s) = Done (Yes, length wire, s,
      (message_complete q (p\<lparr>hdr_parser := hp, parsed_header := hd\<rparr>))\<lparr>rtmp_state := HEADER_PARSING\<rparr>)"
proof -
  let ?cs = "chunk_stream_id h" and ?hp = "\<lparr> parsing_state = BASIC_HEADER_1BYTE,
      parsed_msg = inherit (parsed_msg (hdr_parser p)) h \<rparr>"
  note info = new_recv_info_infos [OF assms(7)]
  define p1 where "p1 = p\<lparr>hdr_parser := ?hp, parsed_header := parsed_msg ?hp, rtmp_state := PAYLOAD_PARSING\<rparr>"
  define ch where "ch = chunked (unat (recv_chunk_size pp)) (continuation_bytes ?cs) b"
  have wire: "wire = header_bytes h @ ch" using info by (simp add: wire_def ch_def)
  have hdr: "parse_header (hdr_parser p) (header_bytes h @ x) = (Yes, length (header_bytes h), x, ?hp)" for x
    using parse_header_bytes [OF assms(2)] assms(1) by (simp add: idle_def)
  then have ne: "header_bytes h \<noteq> []"
    using header_progress [of "hdr_parser p" "header_bytes h"] assms(1) by (auto simp: idle_def)
  have pay: "parse_payload junk (parsed_header p1) (pay_parser p1) x = take_chunk junk ?cs i pp x" for x
    using assms(1,7) by (simp add: p1_def parse_payload_def Let_def idle_def)
  have infos: "(incomplete_infos pp)(?cs := None) = incomplete_infos q"
    using info assms(1) dispatch_infos [OF assms(9)] by (simp add: idle_def fun_upd_idem)
  have "\<exists>hp hd. at_header hp \<and> parse_private junk p1 (length (header_bytes h)) (ch @ s) =
      Done (Yes, length (header_bytes h) + length ch, s,
        (message_complete (q\<lparr>incomplete_infos := (incomplete_infos pp)(?cs := None)\<rparr>)
          (p1\<lparr>hdr_parser := hp, parsed_header := hd\<rparr>))\<lparr>rtmp_state := HEADER_PARSING\<rparr>)"
    unfolding ch_def
  proof (rule chunks_received [OF _ _ _ _ pay])
    show "2 \<le> ?cs" "?cs \<le> 6559" using assms(2) by (simp_all add: writable_def)
    show "receiving i [] b" using info assms(4,8) by (simp add: receiving_def)
    show "0 < recv_chunk_size pp" using info assms(6) by simp
    show "dispatch_message junk (first_chunk_header i) ([] @ b) pp = Done (True, q)"
      using assms(9) by simp
  qed (use assms(5,10) in \<open>simp_all add: p1_def at_header_def\<close>)
  then obtain hp hd where IH: "at_header hp" "parse_private junk p1 (length (header_bytes h)) (ch @ s) =
      Done (Yes, length (header_bytes h) + length ch, s,
        (message_complete q (p1\<lparr>hdr_parser := hp, parsed_header := hd\<rparr>))\<lparr>rtmp_state := HEADER_PARSING\<rparr>)"
    unfolding infos by auto
  have "parse_private junk p 0 (wire @ s) = parse_private junk p1 (length (header_bytes h)) (ch @ s)"
    using private_header [where junk = junk and k = 0, OF _ _ hdr] assms(1) ne by (simp add: wire idle_def p1_def)
  moreover have "message_complete q (p1\<lparr>hdr_parser := hp, parsed_header := hd\<rparr>) =
      message_complete q (p\<lparr>hdr_parser := hp, parsed_header := hd\<rparr>)"
    by (simp add: message_complete_def Let_def p1_def set_win_ack_size_def cong: option.case_cong rtmp_body.case_cong)
  ultimately show ?thesis
    using IH by (intro exI [of _ hp] exI [of _ hd]) (simp add: wire)
qed


lemma parse_of_private:
  assumes "parse_private junk p 0 s = Done (res, n, r, q)"
  shows "\<exists>acts q'. parse junk p s = Done (res, n, r, acts, q') \<and> rtmp_state q' = rtmp_state q
    \<and> hdr_parser q' = hdr_parser q \<and> pay_parser q' = pay_parser q
    \<and> parsed_message q' = parsed_message q \<and> win_ack_size q' = win_ack_size q"
  using assms by (auto simp: parse_def Let_def)

subsection \<open>Media messages from writer to parser\<close>

text \<open>The message that arrives: header of the wire, rest from the clock of the connection.\<close>

definition arrived :: "rtmp_message \<Rightarrow> rtmp_message \<Rightarrow> bool" where
  "arrived sent got \<longleftrightarrow> body got = body sent
     \<and> timestamp (header got) = timestamp (header sent)
     \<and> msg_type_id (header got) = msg_type_id (header sent)
     \<and> chunk_stream_id (header got) = chunk_stream_id (header sent)
     \<and> msg_stream_id (header got) = msg_stream_id (header sent)"

definition media_body :: "rtmp_body \<Rightarrow> bytes option" where
  "media_body b = (case b of AudioMessage d \<Rightarrow> Some d | VideoMessage d \<Rightarrow> Some d | _ \<Rightarrow> None)"

lemma media_type:
  "media_body b = Some d \<Longrightarrow> msg_type_id (header (media_message fmt cs sid chunk ts b)) =
     (case b of VideoMessage _ \<Rightarrow> VIDEODATA | _ \<Rightarrow> AUDIODATA)"
  by (simp add: media_message_def addressed_def base_message_def Let_def)

lemma media_bytes:
  assumes "media_body b = Some d"
  shows "message_bytes (media_message FULL cs sid chunk ts b) =
      header_bytes (header_reset\<lparr>chunk_stream_id := cs, msg_stream_id := sid, timestamp := ts,
        timestamp_delta := ts, msg_length := of_nat (length d),
        msg_type_id := (case b of VideoMessage _ \<Rightarrow> VIDEODATA | _ \<Rightarrow> AUDIODATA)\<rparr>)
      @ chunked (unat chunk) (continuation_bytes cs) d"
proof -
  have d: "fst (write_bytes d ([], 0)) = d" by (simp add: write_bytes_def)
  show ?thesis
    using assms
    by (cases b) (simp_all add: media_body_def message_bytes_def body_bytes_def is_control_body_def
        control_type_def media_message_def addressed_def base_message_def header_reset_def
        write_body_payload_def d Let_def)
qed

lemma dispatch_media:
  assumes "media_body b = Some d" and "unat (msg_length h) = length d"
    and "msg_type_id h = (case b of VideoMessage _ \<Rightarrow> VIDEODATA | _ \<Rightarrow> AUDIODATA)"
  shows "\<exists>m q. dispatch_message junk h d pp = Done (True, q) \<and> payload_parsed q = Some m
    \<and> header m = h \<and> body m = b \<and> recv_chunk_size q = recv_chunk_size pp
    \<and> incomplete_infos q = incomplete_infos pp"
  using assms
  by (cases b) (simp_all add: media_body_def dispatch_message_def is_control_msg_def is_command_msg_def
      is_data_msg_def is_video_msg_def is_audio_msg_def msg_type_value_def parse_media_msg_def
      base_message_def)

lemma new_recv_full:
  assumes "format_type h = FULL"
  obtains i pp' where "new_recv_info h pp = Inr (i, pp')"
    and "timestamp (first_chunk_header i) = timestamp h"
    and "msg_length (first_chunk_header i) = msg_length h"
    and "msg_type_id (first_chunk_header i) = msg_type_id h"
    and "chunk_stream_id (first_chunk_header i) = chunk_stream_id h"
    and "msg_stream_id (first_chunk_header i) = msg_stream_id h"
proof -
  obtain r where "unroll (sn32 (ucast (timestamp h))) (sn32 (ucast (last_message_timestamp pp)))
      (rollover_count pp) = Inr (unroll_count (sn32 (ucast (timestamp h))) r, r)"
    by (rule unroll_value)
  then show thesis
    using that [of "fst (projr (new_recv_info h pp))" "snd (projr (new_recv_info h pp))"] assms
    by (simp add: new_recv_info_def take_length_and_type_def has_msg_len_and_type_def
        full_timestamp_def Let_def)
qed

text \<open>A full header of a media message: what is collected under it is the message.\<close>

lemma media_dispatched:
  assumes "format_type h = FULL" and "unat (msg_length h) = length d" and "media_body b = Some d"
    and "msg_type_id h = (case b of VideoMessage _ \<Rightarrow> VIDEODATA | _ \<Rightarrow> AUDIODATA)"
  obtains i pp got q where "new_recv_info h p = Inr (i, pp)" "msg_length (first_chunk_header i) = msg_length h"
    "dispatch_message junk (first_chunk_header i) d pp = Done (True, q)" "payload_parsed q = Some got" "body got = b"
    "timestamp (header got) = timestamp h" "msg_type_id (header got) = msg_type_id h"
    "chunk_stream_id (header got) = chunk_stream_id h" "msg_stream_id (header got) = msg_stream_id h"
    "recv_chunk_size q = recv_chunk_size p" "incomplete_infos q = incomplete_infos p"
proof -
  obtain i pp where i: "new_recv_info h p = Inr (i, pp)" "timestamp (first_chunk_header i) = timestamp h"
    "msg_length (first_chunk_header i) = msg_length h" "msg_type_id (first_chunk_header i) = msg_type_id h"
    "chunk_stream_id (first_chunk_header i) = chunk_stream_id h" "msg_stream_id (first_chunk_header i) = msg_stream_id h"
    by (rule new_recv_full [OF assms(1)])
  obtain got q where "dispatch_message junk (first_chunk_header i) d pp = Done (True, q)"
    "payload_parsed q = Some got" "header got = first_chunk_header i" "body got = b"
    "recv_chunk_size q = recv_chunk_size pp" "incomplete_infos q = incomplete_infos pp"
    using dispatch_media [OF assms(3), of "first_chunk_header i"] i(3,4) assms(2,4) by metis
  then show thesis using that [OF i(1)] i new_recv_info_infos [OF i(1)] by simp
qed

lemma media_arrives:
  assumes "idle p" and "media_body b = Some d" and "0 < length d" and "length d < 0x1000000"
    and "2 \<le> cs" and "cs \<le> 6559" and "ts < 0xFFFFFF"
    and "0 < recv_chunk_size (pay_parser p)"
    and m_def: "m = media_message FULL cs sid (recv_chunk_size (pay_parser p)) ts b"
  shows "\<exists>out n acts q got. write_payload m [] = Some (out, n)
    \<and> parse junk p (out @ s) = Done (Yes, n, s, acts, q)
    \<and> parsed_message q = Some got \<and> arrived m got
    \<and> idle q \<and> recv_chunk_size (pay_parser q) = recv_chunk_size (pay_parser p)"
proof -
  let ?ty = "case b of VideoMessage _ \<Rightarrow> VIDEODATA | _ \<Rightarrow> AUDIODATA"
  define h where "h = header_reset\<lparr>chunk_stream_id := cs, msg_stream_id := sid, timestamp := ts,
    timestamp_delta := ts, msg_length := of_nat (length d), msg_type_id := ?ty\<rparr>"
  let ?h = "inherit (parsed_msg (hdr_parser p)) h"
  have ty: "?ty \<noteq> TYPE_UNKNOWN" by (cases b) simp_all
  have len: "unat (of_nat (length d) :: u32) = length d"
    using assms(4) by (simp add: unsigned_of_nat take_bit_nat_eq_self)
  have w: "writable h"
    using assms(4-7) ty len by (simp add: writable_def h_def header_reset_def word_less_nat_alt)
  have fields: "format_type ?h = FULL" "timestamp ?h = ts" "msg_length ?h = msg_length h"
    "msg_type_id ?h = ?ty" "chunk_stream_id ?h = cs" "msg_stream_id ?h = sid"
    by (simp_all add: inherit_def h_def header_reset_def)
  obtain i pp got q where i: "new_recv_info ?h (pay_parser p) = Inr (i, pp)"
    "msg_length (first_chunk_header i) = msg_length h"
    and disp: "dispatch_message junk (first_chunk_header i) d pp = Done (True, q)" "payload_parsed q = Some got"
    and got: "body got = b" "timestamp (header got) = ts" "msg_type_id (header got) = ?ty"
      "chunk_stream_id (header got) = cs" "msg_stream_id (header got) = sid"
      "recv_chunk_size q = recv_chunk_size (pay_parser p)" "incomplete_infos q = incomplete_infos (pay_parser p)"
    by (rule media_dispatched [of ?h d b "pay_parser p" junk]) (use fields len assms(2) in \<open>simp_all add: h_def\<close>)
  have wire: "write_payload m [] = Some (message_bytes m, length (message_bytes m))"
    using write_payload_bytes [of m "[]"] assms(8)
    by (simp add: m_def media_message_def addressed_def Let_def)
  have bytes: "message_bytes m = header_bytes h @ chunked (unat (recv_chunk_size (pay_parser p)))
      (continuation_bytes (chunk_stream_id h)) d"
    using media_bytes [OF assms(2)] by (simp add: m_def h_def)
  obtain hp hd where fin: "at_header hp" "parse_private junk p 0 (message_bytes m @ s) =
      Done (Yes, length (message_bytes m), s, (message_complete q
        (p\<lparr>hdr_parser := hp, parsed_header := hd\<rparr>))\<lparr>rtmp_state := HEADER_PARSING\<rparr>)"
    using message_received [OF assms(1) w _ _ _ assms(8) i disp, of s] assms(3) len
    unfolding bytes by (auto simp: h_def has_msg_len_and_type_def header_reset_def)
  have mc: "pay_parser (message_complete q x) = q" for x
    using disp(2) got(1) assms(2) by (auto simp: message_complete_def Let_def media_body_def split: rtmp_body.splits)
  obtain acts q' where parse: "parse junk p (message_bytes m @ s) =
      Done (Yes, length (message_bytes m), s, acts, q')"
    "rtmp_state q' = HEADER_PARSING" "hdr_parser q' = hp" "pay_parser q' = q"
    "parsed_message q' = Some got"
    using parse_of_private [OF fin(2)] disp(2) mc by auto
  have "arrived m got"
    using got by (simp add: arrived_def m_def media_message_def addressed_def base_message_def Let_def)
  moreover have "idle q'" "recv_chunk_size q = recv_chunk_size (pay_parser p)"
    using parse fin(1) got(6,7) assms(1) by (simp_all add: idle_def)
  ultimately show ?thesis
    using wire parse by auto
qed

lemma idle_new: "idle new_rtmp_parser" "recv_chunk_size (pay_parser new_rtmp_parser) = 128"
  by (simp_all add: idle_def new_rtmp_parser_def at_header_def header_parser_reset_def new_payload_parser_def)

text \<open>C11: an audio or video message that the server's own writer puts on the wire, in chunks of the
  size that the parser expects, is received: the parser consumes exactly its bytes, whatever
  follows them, delivers the same payload with the same timestamp, type, chunk stream and
  stream, and is ready for the next message.\<close>

theorem media_received:
  assumes "idle p" and "media_body b = Some d" and "0 < length d" and "length d < 0x1000000"
    and "2 \<le> cs" and "cs \<le> 6559" and "ts < 0xFFFFFF"
    and "0 < recv_chunk_size (pay_parser p)"
    and m_def: "m = media_message FULL cs sid (recv_chunk_size (pay_parser p)) ts b"
  shows "\<exists>out n acts q got. write_payload m [] = Some (out, n)
    \<and> parse junk p (out @ s) = Done (Yes, n, s, acts, q)
    \<and> parsed_message q = Some got \<and> arrived m got
    \<and> idle q \<and> recv_chunk_size (pay_parser q) = recv_chunk_size (pay_parser p)"
  by (rule media_arrives [OF assms])

theorem media_received_witness:
  "\<exists>out n acts q got.
     write_payload (media_message FULL 6 1 128 1000 (VideoMessage (replicate 300 7))) [] = Some (out, n)
    \<and> parse 0 new_rtmp_parser (out @ [9]) = Done (Yes, n, [9], acts, q)
    \<and> parsed_message q = Some got
    \<and> arrived (media_message FULL 6 1 128 1000 (VideoMessage (replicate 300 7))) got
    \<and> idle q \<and> recv_chunk_size (pay_parser q) = recv_chunk_size (pay_parser new_rtmp_parser)"
  by (rule media_received [where d = "replicate 300 7"]) (simp_all add: idle_new media_body_def)

end
