(* ===== verification/Flv_Util.thy ===== *)
theory Flv_Util
  imports Rtmp_Prelude
begin

text \<open>
  Byte buffers, \<open>flv_util.cpp\<close>. A pointer \<open>buffer\<close> with its length \<open>len\<close> is the list of the bytes
  from the pointer on; a \<open>buffer_t\<close> is the list of its \<open>len_\<close> valid bytes. The readers do not look
  at the length: a read past the end is the result \<open>Outside\<close>. \<open>Refused\<close> is a \<open>return false\<close>.

  Shown: the integers that are read are the big-endian ones that \<open>to_vector\<close> makes, and the bit
  reader returns the bits of its data in order.
\<close>

datatype 'a access = Ok 'a | Refused | Outside

definition bind_access :: "'a access \<Rightarrow> ('a \<Rightarrow> 'b access) \<Rightarrow> 'b access" where
  "bind_access x f = (case x of Ok a \<Rightarrow> f a | Refused \<Rightarrow> Refused | Outside \<Rightarrow> Outside)"

lemma bind_access_simps [simp]:
  "bind_access (Ok a) f = f a" "bind_access Refused f = Refused" "bind_access Outside f = Outside"
  by (simp_all add: bind_access_def)

lemma bind_access_Ok:
  "bind_access x f = Ok b \<longleftrightarrow> (\<exists>a. x = Ok a \<and> f a = Ok b)"
  by (cases x) simp_all

text \<open>The macro \<open>CHECK\<close>.\<close>

definition check :: "bool \<Rightarrow> 'a access \<Rightarrow> 'a access" where
  "check c x = (if c then x else Refused)"

lemma check_simps [simp]: "check True x = x" "check False x = Refused"
  by (simp_all add: check_def)

subsection \<open>Readers\<close>

definition read_1byte :: "bytes \<Rightarrow> (byte \<times> bytes) access" where
  "read_1byte buffer = (case buffer of a # r \<Rightarrow> Ok (a, r) | _ \<Rightarrow> Outside)"

definition read_2byte :: "bytes \<Rightarrow> (u16 \<times> bytes) access" where
  "read_2byte buffer = (case buffer of
     a # b # r \<Rightarrow> Ok (push_bit 8 (ucast a) OR ucast b, r) | _ \<Rightarrow> Outside)"

definition read_3byte :: "bytes \<Rightarrow> (u32 \<times> bytes) access" where
  "read_3byte buffer = (case buffer of
     a # b # c # r \<Rightarrow> Ok (push_bit 16 (ucast a) OR push_bit 8 (ucast b) OR ucast c, r)
   | _ \<Rightarrow> Outside)"

definition read_4byte :: "bytes \<Rightarrow> (u32 \<times> bytes) access" where
  "read_4byte buffer = (case buffer of
     a # b # c # d # r \<Rightarrow>
       Ok (push_bit 24 (ucast a) OR push_bit 16 (ucast b) OR push_bit 8 (ucast c) OR ucast d, r)
   | _ \<Rightarrow> Outside)"

definition get_2byte :: "bytes \<Rightarrow> u16 access" where
  "get_2byte src = (case src of a # b # _ \<Rightarrow> Ok (push_bit 8 (ucast a) OR ucast b) | _ \<Rightarrow> Outside)"

definition read_nbyte :: "bytes \<Rightarrow> nat \<Rightarrow> (bytes \<times> bytes) access" where
  "read_nbyte buffer n = (if n \<le> length buffer then Ok (take n buffer, drop n buffer) else Outside)"

text \<open>A whole buffer as an integer of 32 bits.\<close>

fun nbyte_value :: "bytes \<Rightarrow> u32" where
  "nbyte_value [] = 0"
| "nbyte_value (b # bs) = push_bit (8 * length bs) (ucast b) OR nbyte_value bs"

lemma reads_be:
  "read_2byte (be16 v @ s) = Ok (v, s)"
  "read_4byte (be32 w @ s) = Ok (w, s)"
  "get_2byte (be16 v @ s) = Ok v"
  "nbyte_value (be32 w) = w"
  "read_3byte (be24 w @ s) = Ok (w AND mask 24, s)"
  using of_be16_split [of v] of_be32_split [of w] of_be24_split [of w]
  by (simp_all add: read_2byte_def read_3byte_def read_4byte_def get_2byte_def be16_def be24_def
      be32_def of_be16_def of_be32_def of_be24_def)

text \<open>A read after a \<open>CHECK\<close> of the length.\<close>

definition checked :: "nat \<Rightarrow> (bytes \<Rightarrow> 'a access) \<Rightarrow> bytes \<Rightarrow> 'a access" where
  "checked n rd s = check (length s \<ge> n) (rd s)"

lemma checked_reads [simp]:
  "checked 1 read_1byte s = (case s of a # r \<Rightarrow> Ok (a, r) | _ \<Rightarrow> Refused)"
  "checked 2 read_2byte s = (case s of
     a # b # r \<Rightarrow> Ok (push_bit 8 (ucast a) OR ucast b, r) | _ \<Rightarrow> Refused)"
  "checked 2 get_2byte s = (case s of a # b # r \<Rightarrow> Ok (push_bit 8 (ucast a) OR ucast b) | _ \<Rightarrow> Refused)"
  "checked 3 read_3byte s = (case s of
     a # b # c # r \<Rightarrow> Ok (push_bit 16 (ucast a) OR push_bit 8 (ucast b) OR ucast c, r)
   | _ \<Rightarrow> Refused)"
  by (auto simp: checked_def check_def read_1byte_def read_2byte_def get_2byte_def read_3byte_def
      split: list.split)

subsection \<open>Writers\<close>

text \<open>\<open>write_nbyte\<close> copies into the memory at a position.\<close>

definition write_nbyte :: "bytes \<Rightarrow> bytes \<Rightarrow> nat \<Rightarrow> bytes" where
  "write_nbyte src mem pos = take pos mem @ src @ drop (pos + length src) mem"

lemma length_write_nbyte [simp]:
  "pos + length src \<le> length mem \<Longrightarrow> length (write_nbyte src mem pos) = length mem"
  by (simp add: write_nbyte_def)

definition to_vector_8 :: "byte \<Rightarrow> bytes" where
  "to_vector_8 value = [value AND 0xFF]"

definition to_vector_16 :: "u16 \<Rightarrow> bytes" where
  "to_vector_16 value = [ucast (drop_bit 8 (value AND 0xFF00)), ucast (value AND 0x00FF)]"

definition to_vector_32 :: "u32 \<Rightarrow> bytes" where
  "to_vector_32 value = [ucast (drop_bit 24 (value AND 0xFF000000)),
     ucast (drop_bit 16 (value AND 0x00FF0000)), ucast (drop_bit 8 (value AND 0x0000FF00)),
     ucast (value AND 0x000000FF)]"

definition to_vector_64 :: "u64 \<Rightarrow> bytes" where
  "to_vector_64 value = [ucast (drop_bit 56 (value AND 0xFF00000000000000)),
     ucast (drop_bit 48 (value AND 0x00FF000000000000)),
     ucast (drop_bit 40 (value AND 0x0000FF0000000000)),
     ucast (drop_bit 32 (value AND 0x000000FF00000000)),
     ucast (drop_bit 24 (value AND 0x00000000FF000000)),
     ucast (drop_bit 16 (value AND 0x0000000000FF0000)),
     ucast (drop_bit 8 (value AND 0x000000000000FF00)),
     ucast (value AND 0x00000000000000FF)]"

lemma byte_of_masked:
  fixes v :: "'a::len word"
  assumes "m = push_bit k (mask 8)"
  shows "(ucast (drop_bit k (v AND m)) :: byte) = ucast (drop_bit k v)"
  by (rule bit_word_eqI) (auto simp: assms codec_bit_simps dest: bit_imp_le_length)

lemma to_vector_be:
  "to_vector_8 a = [a]" "to_vector_16 v = be16 v" "to_vector_32 w = be32 w" "to_vector_64 x = be64 x"
proof -
  show "to_vector_8 a = [a]"
  proof -
    have all: "(0xFF :: byte) = - 1" by code_simp
    show ?thesis unfolding to_vector_8_def all by simp
  qed
  have m: "(0xFF00 :: u16) = push_bit 8 (mask 8)" "(0xFF :: u16) = push_bit 0 (mask 8)"
    "(0xFF000000 :: u32) = push_bit 24 (mask 8)" "(0x00FF0000 :: u32) = push_bit 16 (mask 8)"
    "(0x0000FF00 :: u32) = push_bit 8 (mask 8)" "(0x000000FF :: u32) = push_bit 0 (mask 8)"
    "(0xFF00000000000000 :: u64) = push_bit 56 (mask 8)"
    "(0x00FF000000000000 :: u64) = push_bit 48 (mask 8)"
    "(0x0000FF0000000000 :: u64) = push_bit 40 (mask 8)"
    "(0x000000FF00000000 :: u64) = push_bit 32 (mask 8)"
    "(0x00000000FF000000 :: u64) = push_bit 24 (mask 8)"
    "(0x0000000000FF0000 :: u64) = push_bit 16 (mask 8)"
    "(0x000000000000FF00 :: u64) = push_bit 8 (mask 8)"
    "(0x00000000000000FF :: u64) = push_bit 0 (mask 8)"
    by code_simp+
  show "to_vector_16 v = be16 v"
    using byte_of_masked [OF m(1), of v] byte_of_masked [OF m(2), of v]
    by (simp add: to_vector_16_def be16_def)
  show "to_vector_32 w = be32 w"
    using byte_of_masked [OF m(3), of w] byte_of_masked [OF m(4), of w] byte_of_masked [OF m(5), of w]
      byte_of_masked [OF m(6), of w]
    by (simp add: to_vector_32_def be32_def)
  show "to_vector_64 x = be64 x"
    using byte_of_masked [OF m(7), of x] byte_of_masked [OF m(8), of x] byte_of_masked [OF m(9), of x]
      byte_of_masked [OF m(10), of x] byte_of_masked [OF m(11), of x] byte_of_masked [OF m(12), of x]
      byte_of_masked [OF m(13), of x] byte_of_masked [OF m(14), of x]
    by (simp add: to_vector_64_def be64_def)
qed

subsection \<open>The bit reader\<close>

text \<open>\<open>BitReader\<close>: its data and \<open>pos_\<close>. The loop of \<open>ReadBits\<close> takes what is left of the current byte.\<close>

function read_bits_loop :: "bytes \<Rightarrow> nat \<Rightarrow> nat \<Rightarrow> u32 \<Rightarrow> (u32 \<times> nat) access" where
  "read_bits_loop data n pos result =
     (if n = 0 then Ok (result, pos)
      else if pos div 8 \<ge> length data then Outside
      else let bits_avail = 8 - pos mod 8;
               chunk_size = (if bits_avail \<ge> n then n else bits_avail);
               chunk_bits = drop_bit (bits_avail - chunk_size) (ucast (data ! (pos div 8)))
                 AND (push_bit chunk_size 1 - 1)
           in read_bits_loop data (n - chunk_size) (pos + chunk_size)
                (push_bit chunk_size result OR chunk_bits))"
  by pat_completeness auto
termination
proof (relation "measure (\<lambda>(d, n, p, r). n)", simp, goal_cases)
  case (1 data n pos result bits_avail chunk_size chunk_bits)
  have "0 < bits_avail" unfolding 1(3) by (simp add: mod_less_divisor)
  then show ?case using 1 by auto
qed

declare read_bits_loop.simps [simp del]

definition read_bits :: "bytes \<Rightarrow> nat \<Rightarrow> nat \<Rightarrow> (u32 \<times> nat) access" where
  "read_bits data pos n = read_bits_loop data n pos 0"

text \<open>The bits of the data, the most significant first, and the number that bits denote.\<close>

definition byte_bits :: "byte \<Rightarrow> bool list" where
  "byte_bits b = map (bit b) [7, 6, 5, 4, 3, 2, 1, 0]"

definition data_bits :: "bytes \<Rightarrow> bool list" where
  "data_bits data = concat (map byte_bits data)"

definition append_bit :: "u32 \<Rightarrow> bool \<Rightarrow> u32" where
  "append_bit v b = push_bit 1 v OR of_bool b"

definition bits_value :: "bool list \<Rightarrow> u32" where
  "bits_value = foldl append_bit 0"

lemma bit_append_bit:
  "i < 32 \<Longrightarrow> bit (append_bit v b) i \<longleftrightarrow> (if i = 0 then b else bit v (i - 1))"
  unfolding append_bit_def bit_or_iff bit_push_bit_iff bit_of_bool_iff by auto

lemma bit_foldl_append:
  "i < 32 \<Longrightarrow> bit (foldl append_bit r bs) i \<longleftrightarrow>
    (if i < length bs then bs ! (length bs - 1 - i) else bit r (i - length bs))"
proof (induction bs arbitrary: i rule: rev_induct)
  case (snoc b bs)
  show ?case
  proof (cases i)
    case 0
    then show ?thesis by (simp add: bit_append_bit nth_append)
  next
    case (Suc j)
    then have "bit (foldl append_bit r (bs @ [b])) i = bit (foldl append_bit r bs) j"
      using snoc.prems by (simp add: bit_append_bit)
    then show ?thesis using snoc.IH [of j] snoc.prems Suc by (auto simp: nth_append)
  qed
qed simp

lemma nth_byte_bits: "i < 8 \<Longrightarrow> byte_bits b ! i = bit b (7 - i)"
proof -
  assume "i < 8"
  then have "i \<in> {0, 1, 2, 3, 4, 5, 6, 7}" by auto
  then show ?thesis by (auto simp: byte_bits_def)
qed

lemma length_byte_bits [simp]: "length (byte_bits b) = 8"
  by (simp add: byte_bits_def)

lemma length_data_bits [simp]: "length (data_bits data) = 8 * length data"
  by (induction data) (simp_all add: data_bits_def)

lemma drop_data_bits:
  "i < length data \<Longrightarrow> drop (8 * i) (data_bits data) = byte_bits (data ! i) @ drop (8 * i + 8) (data_bits data)"
proof (induction data arbitrary: i)
  case (Cons b data)
  then show ?case by (cases i) (simp_all add: data_bits_def add.commute)
qed simp

lemma chunk_value:
  assumes "c \<le> avail" and "avail \<le> 8"
  shows "foldl append_bit r (take c (drop (8 - avail) (byte_bits b))) =
    push_bit c r OR (drop_bit (avail - c) (ucast b) AND (push_bit c 1 - 1))"
proof (rule bit_word_eqI)
  fix i assume i: "i < LENGTH(32)"
  have m: "2 ^ c - 1 = (mask c :: u32)"
    by (simp add: mask_eq_exp_minus_1)
  show "bit (foldl append_bit r (take c (drop (8 - avail) (byte_bits b)))) i =
      bit (push_bit c r OR (drop_bit (avail - c) (ucast b) AND (push_bit c 1 - 1))) i"
  proof (cases "i < c")
    case True
    have "take c (drop (8 - avail) (byte_bits b)) ! (c - 1 - i) = bit b (avail - c + i)"
      using True assms by (simp add: nth_byte_bits)
    then show ?thesis
      using True i assms
      by (auto simp: bit_foldl_append m bit_or_iff bit_and_iff bit_push_bit_iff bit_mask_iff
          bit_drop_bit_eq bit_ucast_iff)
  next
    case False
    then show ?thesis
      using i assms
      by (auto simp: bit_foldl_append m bit_or_iff bit_and_iff bit_push_bit_iff bit_mask_iff)
  qed
qed

lemma read_bits_loop_value:
  "pos + n \<le> 8 * length data \<Longrightarrow> read_bits_loop data n pos r =
    Ok (foldl append_bit r (take n (drop pos (data_bits data))), pos + n)"
proof (induction data n pos r rule: read_bits_loop.induct)
  case (1 data n pos r)
  show ?case
  proof (cases "n = 0")
    case False
    let ?avail = "8 - pos mod 8"
    define c where "c = (if ?avail \<ge> n then n else ?avail)"
    have c: "0 < c" "c \<le> n" "c \<le> ?avail" using False by (auto simp: c_def)
    have i: "pos div 8 < length data" using 1(2) False by (simp add: div_less_iff_less_mult)
    have pos: "pos = 8 * (pos div 8) + pos mod 8" by simp
    have "drop pos (data_bits data) = drop (pos mod 8) (drop (8 * (pos div 8)) (data_bits data))"
      by (subst pos) (simp add: add.commute)
    also have "\<dots> = drop (pos mod 8) (byte_bits (data ! (pos div 8))) @ drop (8 * (pos div 8) + 8) (data_bits data)"
      by (simp add: drop_data_bits [OF i])
    finally have dr: "take c (drop pos (data_bits data)) =
        take c (drop (8 - ?avail) (byte_bits (data ! (pos div 8))))"
      using c(3) by simp
    have split: "take n (drop pos (data_bits data)) =
        take c (drop pos (data_bits data)) @ take (n - c) (drop (pos + c) (data_bits data))"
      using c(2) take_add [of c "n - c" "drop pos (data_bits data)"] by (simp add: add.commute)
    have IH: "read_bits_loop data (n - c) (pos + c)
        (push_bit c r OR (drop_bit (?avail - c) (ucast (data ! (pos div 8))) AND (push_bit c 1 - 1))) =
        Ok (foldl append_bit (push_bit c r OR (drop_bit (?avail - c) (ucast (data ! (pos div 8)))
          AND (push_bit c 1 - 1))) (take (n - c) (drop (pos + c) (data_bits data))), pos + c + (n - c))"
      using 1(1) [OF False _ refl c_def refl] i 1(2) c(2) by simp
    have cv: "foldl append_bit r (take c (drop (pos mod 8) (byte_bits (data ! (pos div 8))))) =
        push_bit c r OR (drop_bit (?avail - c) (ucast (data ! (pos div 8))) AND (push_bit c 1 - 1))"
      using chunk_value [OF c(3)] by simp
    show ?thesis
      using False i IH c(2)
      by (subst read_bits_loop.simps)
        (simp add: Let_def split dr cv [simplified] flip: c_def)
  qed (simp add: read_bits_loop.simps)
qed

text \<open>C37: the bit reader returns the next bits of its data, the most significant first, wherever
  they lie across bytes, and moves past them.\<close>

theorem read_bits_exact:
  assumes "pos + n \<le> 8 * length data"
  shows "read_bits data pos n = Ok (bits_value (take n (drop pos (data_bits data))), pos + n)"
  using read_bits_loop_value [OF assms] by (simp add: read_bits_def bits_value_def)

theorem read_bits_exact_witness:
  "read_bits [0x12, 0x34, 0x56] 5 10 = Ok (282, 15)"
proof -
  have "bits_value (take 10 (drop 5 (data_bits [0x12, 0x34, 0x56]))) = 282"
    by code_simp
  then show ?thesis using read_bits_exact [of 5 10 "[0x12, 0x34, 0x56]"] by simp
qed

end
