(* ===== verification/Flv_Parse.thy ===== *)
theory Flv_Parse
  imports Flv_Util
begin

text \<open>
  FLV audio and video tags, \<open>parsingflv.cpp\<close>: what kind of packet a tag body is, the AAC and AVC
  configurations, the samples, and the rewriting of the lengths in front of NAL units into start
  codes. Out-parameters are results; those of a refused call are not used by the callers.

  Shown: one of the two parsers of the AAC configuration accepts a part of what the other does, and
  reads the same there; the first parameter sets are found when the record has one sequence
  parameter set, and picture parameter sets are lost when it has more; the rewriting in place does what it should on a list of NAL units, and leaves the buffer
  when a length is too large.
\<close>

subsection \<open>Packet kinds\<close>

definition FLV_AVC :: byte where "FLV_AVC = 7"
definition FLV_AAC :: byte where "FLV_AAC = 10"

definition high_byte :: "u16 \<Rightarrow> byte" where
  "high_byte v = ucast (drop_bit 8 (v AND 0xFF00))"

definition low_byte :: "u16 \<Rightarrow> byte" where
  "low_byte v = ucast (v AND 0x00FF)"

lemma high_low_byte [simp]:
  "high_byte (push_bit 8 (ucast a) OR ucast b) = a" "low_byte (push_bit 8 (ucast a) OR ucast b) = b"
proof -
  have "be16 (of_be16 a b) = [a, b]" by simp
  then show "high_byte (push_bit 8 (ucast a) OR ucast b) = a"
    "low_byte (push_bit 8 (ucast a) OR ucast b) = b"
    unfolding to_vector_be(2) [symmetric]
    by (simp_all add: to_vector_16_def high_byte_def low_byte_def of_be16_def)
qed

definition is_aac_audio :: "bytes \<Rightarrow> bool access" where
  "is_aac_audio buffer = bind_access (get_2byte buffer) (\<lambda>fmt_aac_type.
     Ok (drop_bit 4 (high_byte fmt_aac_type AND 0xF0) = FLV_AAC \<and> low_byte fmt_aac_type = 1))"

definition is_aac_sequence_header :: "bytes \<Rightarrow> bool access" where
  "is_aac_sequence_header buffer = bind_access (get_2byte buffer) (\<lambda>fmt_aac_type.
     Ok (drop_bit 4 (high_byte fmt_aac_type AND 0xF0) = FLV_AAC \<and> low_byte fmt_aac_type = 0))"

definition is_avc_video :: "bytes \<Rightarrow> bool access" where
  "is_avc_video buffer = bind_access (get_2byte buffer) (\<lambda>fmt_avc_type.
     Ok (high_byte fmt_avc_type AND 0x0F = FLV_AVC \<and> low_byte fmt_avc_type = 1))"

definition is_avc_sequence_header :: "bytes \<Rightarrow> bool access" where
  "is_avc_sequence_header buffer = bind_access (get_2byte buffer) (\<lambda>fmt_avc_type.
     Ok (high_byte fmt_avc_type AND 0x0F = FLV_AVC \<and> low_byte fmt_avc_type = 0))"

definition is_avc_end_of_sequence :: "bytes \<Rightarrow> bool access" where
  "is_avc_end_of_sequence buffer = bind_access (get_2byte buffer) (\<lambda>fmt_avc_type.
     Ok (high_byte fmt_avc_type AND 0x0F = FLV_AVC \<and> low_byte fmt_avc_type = 2))"

text \<open>The same with a check of the length; \<open>Refused\<close> is false.\<close>

definition IsAACSequenceHeader :: "bytes \<Rightarrow> unit access" where
  "IsAACSequenceHeader buffer = bind_access (checked 2 get_2byte buffer) (\<lambda>v.
     check (drop_bit 4 (high_byte v AND 0xF0) = FLV_AAC) (check (low_byte v = 0) (Ok ())))"

definition IsAACRaw :: "bytes \<Rightarrow> unit access" where
  "IsAACRaw buffer = bind_access (checked 2 get_2byte buffer) (\<lambda>v.
     check (drop_bit 4 (high_byte v AND 0xF0) = FLV_AAC) (check (low_byte v = 1) (Ok ())))"

definition IsAVCSequenceHeader :: "bytes \<Rightarrow> unit access" where
  "IsAVCSequenceHeader buffer = bind_access (checked 2 get_2byte buffer) (\<lambda>v.
     check (high_byte v AND 0x0F = FLV_AVC) (check (low_byte v = 0) (Ok ())))"

definition IsAVCNALU :: "bytes \<Rightarrow> unit access" where
  "IsAVCNALU buffer = bind_access (checked 2 get_2byte buffer) (\<lambda>v.
     check (high_byte v AND 0x0F = FLV_AVC) (check (low_byte v = 1) (Ok ())))"

definition IsAVCEndOfSequence :: "bytes \<Rightarrow> unit access" where
  "IsAVCEndOfSequence buffer = bind_access (checked 2 get_2byte buffer) (\<lambda>v.
     check (high_byte v AND 0x0F = FLV_AVC) (check (low_byte v = 2) (Ok ())))"

subsection \<open>AAC\<close>

definition sampling_rates :: "u32 list" where
  "sampling_rates = [96000, 88200, 64000, 48000, 44100, 32000, 24000, 22050, 16000, 12000, 11025,
     8000, 7350, 0, 0, 0]"

text \<open>Object type, sample rate and channel count; first for the object types above 31.\<close>

definition escaped_aac_header :: "byte \<Rightarrow> byte \<Rightarrow> bytes \<Rightarrow> (u32 \<times> u32 \<times> u32) access" where
  "escaped_aac_header hb lb s =
     (let audio_object_type = (push_bit 3 (hb AND 0x07) OR drop_bit 5 lb) + 32;
          sample_rate_index = drop_bit 1 lb AND 0x0F
      in if sample_rate_index = 0x0F then
           bind_access (checked 3 read_3byte s) (\<lambda>(w, s).
           bind_access (checked 1 read_1byte s) (\<lambda>(b3, s).
             Ok (ucast audio_object_type, push_bit 23 (ucast (lb AND 0x01)) OR drop_bit 1 w,
                 ucast (push_bit 3 (ucast (w AND 0x01)) OR drop_bit 5 b3))))
         else bind_access (checked 1 read_1byte s) (\<lambda>(b3, s).
           Ok (ucast audio_object_type, sampling_rates ! unat sample_rate_index,
               ucast (push_bit 3 (lb AND 0x01) OR drop_bit 5 b3))))"

definition sample_index :: "byte \<Rightarrow> byte \<Rightarrow> byte" where
  "sample_index hb lb = (push_bit 1 hb AND 0x0F) OR drop_bit 7 (lb AND 0x80)"

definition plain_aac_header :: "byte \<Rightarrow> byte \<Rightarrow> bytes \<Rightarrow> (u32 \<times> u32 \<times> u32) access" where
  "plain_aac_header hb lb s =
     (let sample_rate_index = sample_index hb lb
      in if sample_rate_index = 0x0F then
           bind_access (check (length s > 3) (read_3byte s)) (\<lambda>(w, s).
             Ok (ucast (drop_bit 3 hb),
                 push_bit 17 (ucast (lb AND 0x7F)) OR drop_bit 7 (w AND 0xFFFF80),
                 drop_bit 3 w AND 0x0F))
         else Ok (ucast (drop_bit 3 hb), sampling_rates ! unat sample_rate_index,
                  ucast (drop_bit 3 lb AND 0x0F)))"

definition get_aac_header :: "bytes \<Rightarrow> (u32 \<times> u32 \<times> u32) access" where
  "get_aac_header buffer = bind_access (checked 2 read_2byte buffer) (\<lambda>(v, s).
     if drop_bit 4 (high_byte v AND 0xF0) \<noteq> FLV_AAC \<or> low_byte v \<noteq> 0 then Refused
     else bind_access (checked 2 read_2byte s) (\<lambda>(aac_header, s).
       let hb = high_byte aac_header; lb = low_byte aac_header
       in if drop_bit 3 hb = 31 then escaped_aac_header hb lb s else plain_aac_header hb lb s))"

record aac_audio_data =
  sound_format :: byte
  sound_rate :: byte
  sound_size :: byte
  sound_type :: byte
  aac_packet_type :: byte

record audio_specific_config =
  auio_object_type :: u32
  sampling_frequency :: u32
  channel_count :: u32
  sampling_frequency_index :: byte
  channel_configuration :: byte

text \<open>\<open>fmt & 0x0c >> 2\<close> is \<open>fmt & (0x0c >> 2)\<close> in C++.\<close>

definition aac_audio_data_of :: "u16 \<Rightarrow> aac_audio_data" where
  "aac_audio_data_of v = (let fmt = high_byte v in
     \<lparr> sound_format = drop_bit 4 (fmt AND 0xF0), sound_rate = fmt AND drop_bit 2 0x0C,
       sound_size = fmt AND drop_bit 1 0x02, sound_type = fmt AND 0x01,
       aac_packet_type = low_byte v \<rparr>)"

definition channel_config_table :: "u32 list" where
  "channel_config_table = [0, 1, 2, 3, 4, 5, 6, 8]"

definition ParseAACSequenceHeader ::
  "bytes \<Rightarrow> (aac_audio_data \<times> audio_specific_config) access" where
  "ParseAACSequenceHeader buffer = bind_access (checked 2 read_2byte buffer) (\<lambda>(v, s).
     let audio_data = aac_audio_data_of v in
     check (sound_format audio_data = FLV_AAC) (check (aac_packet_type audio_data = 0)
     (check (length s \<ge> 4)
     (bind_access (read_bits s 0 5) (\<lambda>(audio_object_type, pos).
      check (1 \<le> audio_object_type \<and> audio_object_type < 31)
     (bind_access (read_bits s pos 4) (\<lambda>(index, pos).
      bind_access (if index = 0x0F then check (length s \<ge> 8) (read_bits s pos 24)
                   else Ok (sampling_rates ! unat index, pos)) (\<lambda>(frequency, pos).
      bind_access (read_bits s pos 4) (\<lambda>(channels, pos).
      check (1 \<le> channels \<and> channels < 8)
        (Ok (audio_data, \<lparr> auio_object_type = audio_object_type, sampling_frequency = frequency,
           channel_count = channel_config_table ! unat channels,
           sampling_frequency_index = ucast index,
           channel_configuration = ucast channels \<rparr>)))))))))))"

definition get_audio :: "bytes \<Rightarrow> bytes access" where
  "get_audio buffer = bind_access (read_2byte buffer) (\<lambda>(v, s).
     if drop_bit 4 (high_byte v AND 0xF0) \<noteq> FLV_AAC \<or> low_byte v \<noteq> 1 then Refused
     else bind_access (read_nbyte s (length s)) (\<lambda>(audio_es, _). Ok audio_es))"

definition ParseAACRaw :: "bytes \<Rightarrow> (aac_audio_data \<times> bytes) access" where
  "ParseAACRaw buffer = bind_access (checked 2 read_2byte buffer) (\<lambda>(v, s).
     let audio_data = aac_audio_data_of v in
     check (sound_format audio_data = FLV_AAC) (check (aac_packet_type audio_data = 1)
     (bind_access (read_nbyte s (length s)) (\<lambda>(audio_es, _). Ok (audio_data, audio_es)))))"

subsection \<open>AVC configuration\<close>

text \<open>A length of 16 bits and as many bytes, at most \<open>max_len\<close>.\<close>

definition read_parameter_set :: "nat \<Rightarrow> bytes \<Rightarrow> (bytes \<times> bytes) access" where
  "read_parameter_set max_len s = bind_access (checked 2 read_2byte s) (\<lambda>(len, s).
     if unat len > max_len then Refused
     else check (length s \<ge> unat len) (read_nbyte s (unat len)))"

text \<open>The loops over the parameter sets leave after the first one.\<close>

definition first_parameter_set :: "byte \<Rightarrow> bytes \<Rightarrow> (bytes \<times> bytes) access" where
  "first_parameter_set number s = (if number > 0 then read_parameter_set 0xFFFF s else Ok ([], s))"

definition get_first_sps_and_first_pps_from_avc_sequence_header ::
  "bytes \<Rightarrow> (bytes \<times> bytes \<times> byte) access" where
  "get_first_sps_and_first_pps_from_avc_sequence_header buffer =
     bind_access (checked 1 read_1byte buffer) (\<lambda>(fmt, s).
     bind_access (checked 1 read_1byte s) (\<lambda>(avc_type, s).
     if avc_type \<noteq> 0 then Refused else
     bind_access (checked 3 read_3byte s) (\<lambda>(cts, s).
     bind_access (check (length s \<ge> 4) (read_nbyte s 4)) (\<lambda>(vpcl, s).
     bind_access (checked 1 read_1byte s) (\<lambda>(nal_code_len, s).
     bind_access (checked 1 read_1byte s) (\<lambda>(number_of_sps, s).
     bind_access (first_parameter_set (number_of_sps AND 0x1F) s) (\<lambda>(sps, s).
     bind_access (checked 1 read_1byte s) (\<lambda>(number_of_pps, s).
     bind_access (first_parameter_set number_of_pps s) (\<lambda>(pps, s).
       Ok (sps, pps, (nal_code_len AND 0x03) + 1))))))))))"

record avc_video_data =
  frame_type :: byte
  codec_id :: byte
  avc_packet_type :: byte
  composition_time_offset :: u32

record avc_decoder_config =
  version :: byte
  profile_indication :: byte
  profile_compatibility :: byte
  avc_config_level :: byte
  nal_start_code_length :: byte
  num_of_sps :: byte
  num_of_pps :: byte
  sps_list :: bytes
  pps_list :: bytes

definition start_code :: "nat \<Rightarrow> bytes" where
  "start_code n = replicate (n - 1) 0 @ [1]"

text \<open>All parameter sets, each after a start code.\<close>

fun read_parameter_sets :: "nat \<Rightarrow> bytes \<Rightarrow> bytes \<Rightarrow> (bytes \<times> bytes) access" where
  "read_parameter_sets 0 acc s = Ok (acc, s)"
| "read_parameter_sets (Suc n) acc s = bind_access (read_parameter_set 0xFFFF s) (\<lambda>(ps, s).
     read_parameter_sets n (acc @ start_code 4 @ ps) s)"

definition ParseAVCSequenceHeader :: "bytes \<Rightarrow> (avc_video_data \<times> avc_decoder_config) access" where
  "ParseAVCSequenceHeader buffer =
     bind_access (checked 1 read_1byte buffer) (\<lambda>(fmt, s).
     check (fmt AND 0x0F = FLV_AVC)
     (bind_access (checked 1 read_1byte s) (\<lambda>(packet_type, s).
     check (packet_type = 0)
     (bind_access (checked 3 read_3byte s) (\<lambda>(cts, s).
     check (cts = 0)
     (check (length s \<ge> 4)
     (bind_access (read_1byte s) (\<lambda>(ver, s).
     bind_access (read_1byte s) (\<lambda>(prof, s).
     bind_access (read_1byte s) (\<lambda>(compat, s).
     bind_access (read_1byte s) (\<lambda>(level, s).
     bind_access (checked 1 read_1byte s) (\<lambda>(nal_len, s).
     check (nal_len AND 0x03 \<noteq> 2)
     (bind_access (checked 1 read_1byte s) (\<lambda>(nsps, s).
     check (nsps AND 0x1F \<ge> 1)
     (bind_access (read_parameter_sets (unat (nsps AND 0x1F)) [] s) (\<lambda>(spss, s).
     bind_access (checked 1 read_1byte s) (\<lambda>(npps, s).
     bind_access (read_parameter_sets (unat npps) [] s) (\<lambda>(ppss, s).
       Ok (\<lparr> frame_type = drop_bit 4 (fmt AND 0xF0), codec_id = fmt AND 0x0F,
             avc_packet_type = packet_type, composition_time_offset = cts \<rparr>,
           \<lparr> version = ver, profile_indication = prof, profile_compatibility = compat,
             avc_config_level = level, nal_start_code_length = (nal_len AND 0x03) + 1,
             num_of_sps = nsps AND 0x1F, num_of_pps = npps, sps_list = spss,
             pps_list = ppss \<rparr>)))))))))))))))))))"

subsection \<open>AVC samples\<close>

text \<open>What the callers use of \<open>video_frame_t\<close>.\<close>

record video_frame =
  cts :: u64
  keyframe :: byte
  frame_codec_id :: byte

definition get_avc_end_of_sequence :: "bytes \<Rightarrow> bytes access" where
  "get_avc_end_of_sequence buffer =
     bind_access (read_nbyte buffer (length buffer)) (\<lambda>(eos, _). Ok eos)"

definition get_video :: "bytes \<Rightarrow> (bytes \<times> video_frame) access" where
  "get_video buffer =
     bind_access (checked 1 read_1byte buffer) (\<lambda>(fmt, s).
     bind_access (checked 1 read_1byte s) (\<lambda>(avc_type, s).
     if avc_type \<noteq> 1 then Refused else
     bind_access (checked 3 read_3byte s) (\<lambda>(c, s).
     bind_access (read_nbyte s (length s)) (\<lambda>(video_es, _).
       Ok (video_es, \<lparr> cts = ucast c, keyframe = drop_bit 4 (fmt AND 0xF0),
         frame_codec_id = fmt AND 0x0F \<rparr>)))))"

definition ParseAVCNALU :: "bytes \<Rightarrow> (avc_video_data \<times> bytes) access" where
  "ParseAVCNALU buffer =
     bind_access (checked 1 read_1byte buffer) (\<lambda>(fmt, s).
     check (fmt AND 0x0F = FLV_AVC)
     (bind_access (checked 1 read_1byte s) (\<lambda>(packet_type, s).
     check (packet_type = 1)
     (bind_access (checked 3 read_3byte s) (\<lambda>(c, s).
     bind_access (read_nbyte s (length s)) (\<lambda>(video_es, _).
       Ok (\<lparr> frame_type = drop_bit 4 (fmt AND 0xF0), codec_id = fmt AND 0x0F,
             avc_packet_type = packet_type, composition_time_offset = c \<rparr>, video_es)))))))"

text \<open>The composition time is not read here.\<close>

definition ParseAVCEndOfSequence :: "bytes \<Rightarrow> (avc_video_data \<times> bytes) access" where
  "ParseAVCEndOfSequence buffer =
     bind_access (checked 1 read_1byte buffer) (\<lambda>(fmt, s).
     check (fmt AND 0x0F = FLV_AVC)
     (bind_access (checked 1 read_1byte s) (\<lambda>(packet_type, s).
     check (packet_type = 2)
     (bind_access (read_nbyte s (length s)) (\<lambda>(eos, _).
       Ok (\<lparr> frame_type = drop_bit 4 (fmt AND 0xF0), codec_id = fmt AND 0x0F,
             avc_packet_type = packet_type, composition_time_offset = 0 \<rparr>, eos))))))"

text \<open>
  The rewriting of NAL unit lengths into start codes, in the memory of the sample: the positions
  that are read and written, and the bytes left. A length larger than what is left makes the count
  wrap around, and the next read is outside; so is the fill of a start code of no bytes.
\<close>

function replace_nalu :: "nat \<Rightarrow> bytes \<Rightarrow> nat \<Rightarrow> nat \<Rightarrow> nat \<Rightarrow> bytes access" where
  "replace_nalu n mem mp4 ts left =
     (if left = 0 then Ok mem
      else if n = 0 \<or> left < n then Outside
      else let nal_length = unat (nbyte_value (take n (drop mp4 mem)));
               mem' = write_nbyte (start_code n) mem ts
           in if nal_length > left - n then Outside
              else replace_nalu n mem' (mp4 + n + nal_length) (ts + n + nal_length)
                     (left - n - nal_length))"
  by pat_completeness auto
termination
  by (relation "measure (\<lambda>(n, mem, mp4, ts, left). left)") auto

declare replace_nalu.simps [simp del]

definition replace_nalu_start_code_from_mp4_to_ts :: "nat \<Rightarrow> bytes \<Rightarrow> bytes access" where
  "replace_nalu_start_code_from_mp4_to_ts n video_es =
     (if n = 0 then Outside else replace_nalu n video_es 0 0 (length video_es))"

subsection \<open>NAL units\<close>

text \<open>The specification: units with their lengths in front, and with start codes in front.\<close>

definition mp4_units :: "bytes list \<Rightarrow> bytes" where
  "mp4_units us = concat (map (\<lambda>u. be32 (of_nat (length u)) @ u) us)"

definition ts_units :: "bytes list \<Rightarrow> bytes" where
  "ts_units us = concat (map (\<lambda>u. [0, 0, 0, 1] @ u) us)"

lemma start_code_4 [simp]: "start_code 4 = [0, 0, 0, 1]"
  by (simp add: start_code_def numeral_eq_Suc)

lemma unit_lists [simp]:
  "mp4_units [] = []" "mp4_units (u # us) = be32 (of_nat (length u)) @ u @ mp4_units us"
  "ts_units [] = []" "ts_units (u # us) = [0, 0, 0, 1] @ u @ ts_units us"
  by (simp_all add: mp4_units_def ts_units_def)

lemma write_start_code:
  "write_nbyte [0, 0, 0, 1] mem p = (take p mem @ [0, 0, 0, 1]) @ drop (p + 4) mem"
proof -
  have "length [0, 0, 0, 1 :: byte] = 4" by simp
  then show ?thesis unfolding write_nbyte_def by (simp only: append_assoc)
qed

lemma replace_nalu_step:
  assumes "length u < 2 ^ 32"
  shows "replace_nalu 4 (pre @ be32 (of_nat (length u)) @ u @ rest) (length pre) (length pre)
      (4 + length u + length rest) =
    replace_nalu 4 (pre @ [0, 0, 0, 1] @ u @ rest) (length pre + 4 + length u)
      (length pre + 4 + length u) (length rest)"
proof -
  let ?hd = "be32 (of_nat (length u))"
  have hd: "take 4 (drop (length pre) (pre @ ?hd @ u @ rest)) = ?hd"
    by simp
  have len: "unat (nbyte_value ?hd) = length u"
    using assms by (simp add: reads_be unat_of_nat)
  have wr: "write_nbyte (start_code 4) (pre @ ?hd @ u @ rest) (length pre) = pre @ [0, 0, 0, 1] @ u @ rest"
    by (simp add: write_start_code)
  show ?thesis
    by (subst replace_nalu.simps) (simp only: hd len wr Let_def, simp)
qed

lemma replace_nalu_units:
  assumes "\<forall>u\<in>set us. length u < 2 ^ 32"
  shows "replace_nalu 4 (pre @ mp4_units us) (length pre) (length pre) (length (mp4_units us)) =
    Ok (pre @ ts_units us)"
  using assms
proof (induction us arbitrary: pre)
  case (Cons u us)
  have "length u < 2 ^ 32" using Cons.prems by simp
  note step = replace_nalu_step [OF this, of pre "mp4_units us"]
  have "length (pre @ [0, 0, 0, 1] @ u) = length pre + 4 + length u" by simp
  note IH = Cons.IH [of "pre @ [0, 0, 0, 1] @ u", unfolded this]
  have len: "length (mp4_units (u # us)) = 4 + length u + length (mp4_units us)" by simp
  show ?case
    unfolding len unfolding unit_lists unfolding step using IH Cons.prems by simp
qed (simp add: replace_nalu.simps)

lemma be32_nbyte: "length l = 4 \<Longrightarrow> be32 (nbyte_value l) = l"
proof -
  assume l4: "length l = 4"
  have "l = [l ! 0, l ! 1, l ! 2, l ! 3]"
    using l4 by (intro nth_equalityI) (auto simp: less_Suc_eq nth_Cons' numeral_eq_Suc)
  then obtain a b c d where l: "l = [a, b, c, d]" by blast
  have "nbyte_value [a, b, c, d] = of_be32 a b c d"
    unfolding nbyte_value.simps of_be32_def by (simp add: or.assoc)
  then show ?thesis by (simp add: l)
qed

lemma replace_nalu_complete:
  assumes "replace_nalu n mem p q left = Ok r" "n = 4" "q = p" "p + left = length mem"
  shows "\<exists>us. (\<forall>u\<in>set us. length u < 2 ^ 32) \<and> drop p mem = mp4_units us \<and>
    r = take p mem @ ts_units us"
  using assms
proof (induction n mem p q left arbitrary: r rule: replace_nalu.induct)
  case (1 n mem mp4 ts left)
  show ?case
  proof (cases "left = 0")
    case True
    then show ?thesis using 1 by (intro exI [of _ "[]"]) (auto simp: replace_nalu.simps)
  next
    case False
    let ?hd = "take 4 (drop mp4 mem)"
    define k where "k = unat (nbyte_value ?hd)"
    define mem' where "mem' = write_nbyte (start_code 4) mem mp4"
    have ok: "\<not> left < 4" "k \<le> left - 4"
      and rest: "replace_nalu 4 mem' (mp4 + 4 + k) (mp4 + 4 + k) (left - 4 - k) = Ok r"
      using 1(2-5) False by (subst (asm) replace_nalu.simps,
        simp add: Let_def k_def mem'_def split: if_splits)+
    have len: "length mem' = length mem" and "length ?hd = 4"
      using ok 1(5) by (simp_all add: mem'_def)
    then have hd: "be32 (of_nat k) = ?hd" by (simp add: k_def be32_nbyte)
    have k: "k < 2 ^ 32" unfolding k_def using unsigned_less [of "nbyte_value ?hd"] by simp
    define pre where "pre = take mp4 mem @ [0, 0, 0, 1]"
    have mem': "mem' = pre @ drop (mp4 + 4) mem" and pre: "length pre = mp4 + 4"
      using ok 1(5) by (simp_all add: mem'_def pre_def write_start_code)
    have dr: "drop (mp4 + 4 + k) mem' = drop (mp4 + 4 + k) mem"
      by (simp add: mem' pre add.commute add.left_commute)
    have tk: "take (mp4 + 4 + k) mem' = take mp4 mem @ [0, 0, 0, 1] @ take k (drop (mp4 + 4) mem)"
      by (simp add: mem' pre) (simp add: pre_def)
    have "\<exists>us. (\<forall>u\<in>set us. length u < 2 ^ 32) \<and> drop (mp4 + 4 + k) mem' = mp4_units us \<and>
        r = take (mp4 + 4 + k) mem' @ ts_units us"
      using 1(1) [OF False, of k mem' r] 1(3-5) ok rest len by (simp add: mem'_def k_def)
    then obtain us where us: "\<forall>u\<in>set us. length u < 2 ^ 32"
      "drop (mp4 + 4 + k) mem = mp4_units us" "r = take (mp4 + 4 + k) mem' @ ts_units us"
      unfolding dr by (elim exE conjE)
    let ?u = "take k (drop (mp4 + 4) mem)"
    have "length ?u = k" using ok 1(5) by simp
    moreover have "drop mp4 mem = ?hd @ ?u @ drop (mp4 + 4 + k) mem"
      using append_take_drop_id [of 4 "drop mp4 mem"] append_take_drop_id [of k "drop (mp4 + 4) mem"]
      by (simp add: add.commute add.left_commute)
    ultimately have "drop mp4 mem = mp4_units (?u # us)" "\<forall>u\<in>set (?u # us). length u < 2 ^ 32"
      "r = take mp4 mem @ ts_units (?u # us)"
      using us tk hd k by simp_all
    then show ?thesis by (intro exI conjI)
  qed
qed


text \<open>C20: the rewriting in place turns a list of NAL units with lengths into the list of the
  same units with start codes, and it does so exactly for samples that are such a list: on
  any other sample it reads or writes outside the sample.\<close>

theorem nalu_rewriting:
  "replace_nalu_start_code_from_mp4_to_ts 4 video_es = Ok r \<longleftrightarrow>
    (\<exists>us. (\<forall>u\<in>set us. length u < 2 ^ 32) \<and> video_es = mp4_units us \<and> r = ts_units us)"
    (is "?ok \<longleftrightarrow> ?units")
proof
  assume ?ok
  then show ?units
    using replace_nalu_complete [of 4 video_es 0 0 "length video_es" r]
    by (simp add: replace_nalu_start_code_from_mp4_to_ts_def)
next
  assume ?units
  then obtain us where us: "\<forall>u\<in>set us. length u < 2 ^ 32" "video_es = mp4_units us" "r = ts_units us"
    by auto
  then show ?ok
    using replace_nalu_units [OF us(1), of "[]"] by (simp add: replace_nalu_start_code_from_mp4_to_ts_def)
qed

theorem nalu_rewriting_witness:
  "replace_nalu_start_code_from_mp4_to_ts 4 [0, 0, 0, 2, 0x65, 0x88, 0, 0, 0, 1, 9] =
    Ok [0, 0, 0, 1, 0x65, 0x88, 0, 0, 0, 1, 9]"
proof -
  have "[0, 0, 0, 2, 0x65, 0x88, 0, 0, 0, 1, 9 :: byte] = mp4_units [[0x65, 0x88], [9]]"
    by code_simp
  moreover have "ts_units [[0x65, 0x88], [9]] = [0, 0, 0, 1, 0x65, 0x88, 0, 0, 0, 1, 9]"
    by code_simp
  ultimately show ?thesis
    by (subst nalu_rewriting) (rule exI [of _ "[[0x65, 0x88], [9]]"], simp)
qed

subsection \<open>The two parsers of the AAC configuration\<close>

lemma nth_data_bits:
  "i < 8 * length data \<Longrightarrow> data_bits data ! i = bit (data ! (i div 8)) (7 - i mod 8)"
proof (induction data arbitrary: i)
  case (Cons b data)
  show ?case
  proof (cases "i < 8")
    case True
    then show ?thesis by (simp add: data_bits_def nth_append nth_byte_bits)
  next
    case False
    then have "data_bits (b # data) ! i = data_bits data ! (i - 8)"
      by (simp add: data_bits_def nth_append)
    moreover have "i div 8 = Suc ((i - 8) div 8)" "(i - 8) mod 8 = i mod 8"
      using False by (simp_all add: le_div_geq le_mod_geq)
    ultimately show ?thesis using Cons False by simp
  qed
qed simp

lemma read_bits_eq:
  assumes "pos + n \<le> 8 * length data"
    and "\<And>i. i < 32 \<Longrightarrow> bit v i \<longleftrightarrow>
      i < n \<and> bit (data ! ((pos + n - 1 - i) div 8)) (7 - (pos + n - 1 - i) mod 8)"
  shows "read_bits data pos n = Ok (v, pos + n)"
proof -
  have "foldl append_bit 0 (take n (drop pos (data_bits data))) = v"
    using assms by (intro bit_word_eqI) (auto simp: bit_foldl_append nth_data_bits)
  then show ?thesis using read_bits_loop_value [OF assms(1), of 0] by (simp add: read_bits_def)
qed

lemma read_bits_all:
  assumes "pos + n \<le> 8 * length data"
    and "list_all (\<lambda>i. bit v i \<longleftrightarrow>
      i < n \<and> bit (data ! ((pos + n - 1 - i) div 8)) (7 - (pos + n - 1 - i) mod 8)) [0..<32]"
  shows "read_bits data pos n = Ok (v, pos + n)"
  using assms by (intro read_bits_eq) (auto simp: list_all_iff)

lemma upt_32:
  "[0..<32] = [0, 1, 2, 3, 4, 5, 6, 7, 8, 9, 10, 11, 12, 13, 14, 15, 16, 17, 18, 19, 20, 21, 22, 23,
    24, 25, 26, 27, 28, 29, 30, 31]"
  by code_simp

lemmas bit_lists = upt_32 list.pred_inject codec_bit_simps comp_apply of_be24_def sample_index_def

lemma config_bits:
  "read_bits (a # s) 0 5 = Ok (ucast (drop_bit 3 a), 5)"
  "read_bits (a # b # s) 5 4 = Ok (ucast (sample_index a b), 9)"
  "read_bits (a # b # s) 9 4 = Ok (ucast (drop_bit 3 b AND 0x0F), 13)"
  "read_bits (a # b # c # d # e # s) 9 24 = Ok (push_bit 17 (ucast (b AND 0x7F)) OR drop_bit 7 (of_be24 c d e AND 0xFFFF80), 33)"
  "read_bits (a # b # c # d # e # s) 33 4 = Ok (drop_bit 3 (of_be24 c d e) AND 0x0F, 37)"
proof -
  have "read_bits (a # s) 0 5 = Ok (ucast (drop_bit 3 a), 0 + 5)"
    by (rule read_bits_all, simp) (simp only: bit_lists, simp)
  then show "read_bits (a # s) 0 5 = Ok (ucast (drop_bit 3 a), 5)" by simp
  have "read_bits (a # b # s) 5 4 = Ok (ucast (sample_index a b), 5 + 4)"
    by (rule read_bits_all, simp) (simp only: bit_lists, simp)
  then show "read_bits (a # b # s) 5 4 = Ok (ucast (sample_index a b), 9)" by simp
  have "read_bits (a # b # s) 9 4 = Ok (ucast (drop_bit 3 b AND 0x0F), 9 + 4)"
    by (rule read_bits_all, simp) (simp only: bit_lists, simp)
  then show "read_bits (a # b # s) 9 4 = Ok (ucast (drop_bit 3 b AND 0x0F), 13)" by simp
  have "read_bits (a # b # c # d # e # s) 9 24 = Ok (push_bit 17 (ucast (b AND 0x7F)) OR drop_bit 7 (of_be24 c d e AND 0xFFFF80), 9 + 24)"
    by (rule read_bits_all, simp) (simp only: bit_lists, simp)
  then show "read_bits (a # b # c # d # e # s) 9 24 = Ok (push_bit 17 (ucast (b AND 0x7F)) OR drop_bit 7 (of_be24 c d e AND 0xFFFF80), 33)" by simp
  have "read_bits (a # b # c # d # e # s) 33 4 = Ok (drop_bit 3 (of_be24 c d e) AND 0x0F, 33 + 4)"
    by (rule read_bits_all, simp) (simp only: bit_lists, simp)
  then show "read_bits (a # b # c # d # e # s) 33 4 = Ok (drop_bit 3 (of_be24 c d e) AND 0x0F, 37)" by simp
qed

lemma ucast_u32_eq: "(ucast (b :: byte) :: u32) = ucast c \<longleftrightarrow> b = c"
  by (auto simp: bit_eq_iff bit_ucast_iff dest: bit_byte_less)

lemma ucast_small_eq:
  "(ucast (b :: byte) :: u32) = 15 \<longleftrightarrow> b = 15" "(ucast (b :: byte) :: u32) = 31 \<longleftrightarrow> b = 31"
  using ucast_u32_eq [of b 15] ucast_u32_eq [of b 31] by simp_all

lemma ucast_ucast_small: "v < 8 \<Longrightarrow> ucast (ucast (v :: u32) :: byte) = v"
  by (simp add: word_unat_eq_iff word_less_nat_alt unsigned_ucast_eq unsigned_take_bit_eq take_bit_nat_eq_self)

lemma unat_ucast_small: "v < 8 \<Longrightarrow> unat (ucast (v :: u32) :: byte) = unat v"
  by (simp add: word_less_nat_alt unsigned_ucast_eq unsigned_take_bit_eq take_bit_nat_eq_self)

lemma high_low_byte_0 [simp]:
  "high_byte (push_bit 8 (ucast a)) = a" "low_byte (push_bit 8 (ucast a)) = 0"
  using high_low_byte [of a 0] by simp_all

lemma get_aac_header_sequence:
  assumes "drop_bit 4 (x AND 0xF0) = FLV_AAC"
  shows "get_aac_header (x # 0 # a # b # s) =
    (if drop_bit 3 a = 31 then escaped_aac_header a b s else plain_aac_header a b s)"
  using assms by (simp add: get_aac_header_def Let_def)



lemma byte_u32 [simp]:
  "ucast (ucast (b :: byte) :: u32) = b" "unat (ucast (b :: byte) :: u32) = unat b"
proof -
  show "ucast (ucast (b :: byte) :: u32) = b"
    by (rule bit_word_eqI) (simp only: bit_ucast_iff, simp)
  show "unat (ucast (b :: byte) :: u32) = unat b"
    by (simp add: unsigned_ucast_eq take_bit_nat_eq_self unsigned_less [of b, THEN less_trans])
qed

lemma check_Ok: "check c x = Ok v \<longleftrightarrow> c \<and> x = Ok v"
  by (simp add: check_def)

lemma aac_audio_data_of_bytes:
  "sound_format (aac_audio_data_of (push_bit 8 (ucast x) OR ucast y)) = drop_bit 4 (x AND 0xF0)"
  "aac_packet_type (aac_audio_data_of (push_bit 8 (ucast x) OR ucast y)) = y"
  "sound_format (aac_audio_data_of (push_bit 8 (ucast x))) = drop_bit 4 (x AND 0xF0)"
  "aac_packet_type (aac_audio_data_of (push_bit 8 (ucast x))) = 0"
  by (simp_all only: aac_audio_data_of_def high_low_byte_0 high_low_byte Let_def aac_audio_data.simps)

lemmas parse_aac_simps = ParseAACSequenceHeader_def Let_def config_bits ucast_small_eq check_Ok
  bind_access_Ok aac_audio_data_of_bytes

lemma parse_aac_config:
  assumes "ParseAACSequenceHeader buffer = Ok (ad, c)"
  shows "get_aac_header buffer =
    Ok (auio_object_type c, sampling_frequency c, ucast (channel_configuration c))"
proof -
  obtain x y r where buf: "buffer = x # y # r"
    using assms by (auto simp: ParseAACSequenceHeader_def split: list.splits)
  have "4 \<le> length r"
    using assms by (simp add: buf ParseAACSequenceHeader_def Let_def check_def split: if_splits)
  then obtain a b s where r: "r = a # b # s"
    by (auto simp: Suc_le_length_iff eval_nat_numeral)
  have y: "y = 0" and x: "drop_bit 4 (x AND 0xF0) = FLV_AAC" and a: "drop_bit 3 a \<noteq> 31"
    using assms unfolding buf r by (auto simp add: parse_aac_simps)
  note get = get_aac_header_sequence [OF x, of a b s]
  show ?thesis
  proof (cases "sample_index a b = 15")
    case True
    then have "6 \<le> length s" using assms unfolding buf r by (auto simp: parse_aac_simps)
    then obtain d e f t where s: "s = d # e # f # t"
      by (auto simp: Suc_le_length_iff eval_nat_numeral)
    have "read_3byte s = Ok (of_be24 d e f, t)"
      by (simp only: s read_3byte_def list.case of_be24_def)
    then show ?thesis
      using assms a get True \<open>6 \<le> length s\<close> unfolding buf r s y
      by (auto simp: parse_aac_simps plain_aac_header_def ucast_ucast_small)
  next
    case False
    then show ?thesis
      using assms a get unfolding buf r y
      by (auto simp: parse_aac_simps plain_aac_header_def)
  qed
qed


text \<open>Whether the sampling frequency of a configuration is written out.\<close>

definition explicit_rate :: "bytes \<Rightarrow> bool" where
  "explicit_rate buffer \<longleftrightarrow> sample_index (buffer ! 2) (buffer ! 3) = 0x0F"

lemma escaped_object_type: "32 \<le> unat ((push_bit 3 (a AND 0x07) OR drop_bit 5 b) + 32 :: byte)"
proof -
  let ?w = "push_bit 3 (a AND 0x07) OR drop_bit 5 b :: byte"
  have "?w = ?w AND 0x3F" by (rule byte_eqI, simp only: byte_bit_simps, simp)
  then have "?w \<le> 0x3F" by (metis word_and_le1)
  then have "unat ?w \<le> 63" by (simp add: word_le_nat_alt)
  then have "unat (?w + 32) = unat ?w + 32" by (subst unat_add_lem [THEN iffD1]) simp_all
  then show ?thesis by simp
qed

lemma parse_aac_accepts:
  assumes get: "get_aac_header buffer = Ok (ot, rate, ch)" and "1 \<le> ot" "ot < 31" "1 \<le> ch" "ch < 8"
    and long: "(if explicit_rate buffer then 10 else 6) \<le> length buffer"
  shows "\<exists>ad c. ParseAACSequenceHeader buffer = Ok (ad, c) \<and> channel_count c = channel_config_table ! unat ch"
proof -
  have "6 \<le> length buffer" using long by (simp split: if_splits)
  then obtain x y a b d e t where buf: "buffer = x # y # a # b # d # e # t"
    by (auto simp: Suc_le_length_iff eval_nat_numeral)
  have x: "drop_bit 4 (x AND 0xF0) = FLV_AAC" and y: "y = 0"
    using get by (auto simp: buf get_aac_header_def Let_def split: if_splits)
  note seq = get_aac_header_sequence [OF x, of a b "d # e # t"]
  have a: "drop_bit 3 a \<noteq> 31"
  proof
    assume "drop_bit 3 a = 31"
    then have e: "escaped_aac_header a b (d # e # t) = Ok (ot, rate, ch)" using get seq by (simp add: buf y)
    have "ot = ucast ((push_bit 3 (a AND 0x07) OR drop_bit 5 b) + 32 :: byte)"
      using e by (auto simp: escaped_aac_header_def Let_def bind_access_Ok split: if_splits)
    then have "32 \<le> unat ot" by (simp only: byte_u32 escaped_object_type)
    then show False using assms(3) by (simp add: word_less_nat_alt)
  qed
  have plain: "plain_aac_header a b (d # e # t) = Ok (ot, rate, ch)" using get seq a by (simp add: buf y)
  show ?thesis
  proof (cases "sample_index a b = 15")
    case True
    then have "4 \<le> length t" using long by (simp add: buf explicit_rate_def)
    then obtain f s where t: "t = f # s" by (cases t) auto
    have r: "read_3byte (d # e # f # s) = Ok (of_be24 d e f, s)"
      by (simp only: read_3byte_def list.case of_be24_def)
    show ?thesis
      using plain assms(2-5) x True \<open>4 \<le> length t\<close> unfolding buf t y
      by (auto simp: parse_aac_simps plain_aac_header_def r)
  next
    case False
    then show ?thesis
      using plain assms(2-5) x unfolding buf y
      by (auto simp: parse_aac_simps plain_aac_header_def)
  qed
qed

lemma parse_aac_length:
  assumes "ParseAACSequenceHeader buffer = Ok (ad, c)"
  shows "(if explicit_rate buffer then 10 else 6) \<le> length buffer"
    and "1 \<le> auio_object_type c \<and> auio_object_type c < 31"
    and "1 \<le> (ucast (channel_configuration c) :: u32) \<and> (ucast (channel_configuration c) :: u32) < 8"
    and "channel_count c = channel_config_table ! unat (ucast (channel_configuration c) :: u32)"
proof -
  obtain x y r where buf: "buffer = x # y # r"
    using assms by (auto simp: ParseAACSequenceHeader_def split: list.splits)
  have "4 \<le> length r"
    using assms by (simp add: buf ParseAACSequenceHeader_def Let_def check_def split: if_splits)
  then obtain a b d e s where r: "r = a # b # d # e # s" by (auto simp: Suc_le_length_iff eval_nat_numeral)
  show "(if explicit_rate buffer then 10 else 6) \<le> length buffer"
    using assms unfolding buf r by (auto simp: parse_aac_simps explicit_rate_def)
  show "1 \<le> auio_object_type c \<and> auio_object_type c < 31"
    using assms unfolding buf r by (auto simp: parse_aac_simps)
  show "1 \<le> (ucast (channel_configuration c) :: u32) \<and> (ucast (channel_configuration c) :: u32) < 8"
    "channel_count c = channel_config_table ! unat (ucast (channel_configuration c) :: u32)"
    using assms unfolding buf r by (auto simp: parse_aac_simps ucast_ucast_small unat_ucast_small)
qed

text \<open>C36: \<open>ParseAACSequenceHeader\<close>, with its bit reader, accepts a configuration exactly when
  \<open>get_aac_header\<close>, with its masks and shifts, reads an object type from 1 to 30 and a channel
  configuration from 1 to 7 and there are four bytes behind the tag, or eight when the sampling
  frequency is written out. It then gives the same object type, sampling frequency and channel
  configuration, and the number of channels from its table.\<close>

theorem aac_parser_stricter:
  "(\<exists>ad c. ParseAACSequenceHeader buffer = Ok (ad, c) \<and> auio_object_type c = object_type \<and>
      sampling_frequency c = rate \<and> ucast (channel_configuration c) = channels \<and>
      channel_count c = channel_config_table ! unat channels) \<longleftrightarrow>
    get_aac_header buffer = Ok (object_type, rate, channels) \<and> 1 \<le> object_type \<and> object_type < 31 \<and>
      1 \<le> channels \<and> channels < 8 \<and> (if explicit_rate buffer then 10 else 6) \<le> length buffer"
  (is "?parsed \<longleftrightarrow> ?read")
proof
  assume ?parsed
  then obtain ad c where p: "ParseAACSequenceHeader buffer = Ok (ad, c)" "auio_object_type c = object_type"
    "sampling_frequency c = rate" "ucast (channel_configuration c) = channels" by blast
  then show ?read
    using parse_aac_config [OF p(1)] parse_aac_length [OF p(1)] by (auto simp only: p)
next
  assume ?read
  then obtain ad c where p: "ParseAACSequenceHeader buffer = Ok (ad, c)"
    "channel_count c = channel_config_table ! unat channels"
    using parse_aac_accepts [of buffer object_type rate channels] by blast
  then show ?parsed
    using parse_aac_config [OF p(1)] \<open>?read\<close> by auto
qed

definition aac_config_example :: bytes where
  "aac_config_example = [0xAF, 0, 0x12, 0x10, 0x56, 0xE5]"

theorem aac_parser_stricter_witness:
  "get_aac_header [0xAF, 0, 0x12, 0x10] = Ok (2, 44100, 2) \<and>
    \<not> (\<exists>ad c. ParseAACSequenceHeader [0xAF, 0, 0x12, 0x10] = Ok (ad, c) \<and> auio_object_type c = 2 \<and>
      sampling_frequency c = 44100 \<and> ucast (channel_configuration c) = (2 :: u32) \<and>
      channel_count c = channel_config_table ! unat (2 :: u32))"
proof
  show "get_aac_header [0xAF, 0, 0x12, 0x10] = Ok (2, 44100, 2)" by code_simp
  show "\<not> (\<exists>ad c. ParseAACSequenceHeader [0xAF, 0, 0x12, 0x10] = Ok (ad, c) \<and> auio_object_type c = 2 \<and>
      sampling_frequency c = 44100 \<and> ucast (channel_configuration c) = (2 :: u32) \<and>
      channel_count c = channel_config_table ! unat (2 :: u32))"
    unfolding aac_parser_stricter by simp
qed

subsection \<open>Parameter sets\<close>

text \<open>A record as encoders write it: its sets have their lengths in front, and the bits above the
  number of sequence parameter sets are ones.\<close>

definition sized :: "bytes \<Rightarrow> bytes" where
  "sized p = be16 (of_nat (length p)) @ p"

definition avc_record :: "byte \<Rightarrow> u32 \<Rightarrow> bytes \<Rightarrow> byte \<Rightarrow> bytes list \<Rightarrow> bytes list \<Rightarrow> bytes" where
  "avc_record fmt time vpcl nal_len spss ppss = [fmt, 0] @ be24 time @ vpcl @
     [nal_len, 0xE0 OR of_nat (length spss)] @ concat (map sized spss) @
     [of_nat (length ppss)] @ concat (map sized ppss)"

abbreviation short_sets :: "bytes list \<Rightarrow> bool" where
  "short_sets ps \<equiv> \<forall>p\<in>set ps. length p < 2 ^ 16"

lemma read_sized:
  assumes "length p < 2 ^ 16"
  shows "read_parameter_set 0xFFFF (sized p @ s) = Ok (p, s)"
proof -
  have "unat (of_nat (length p) :: u16) = length p" using assms by (simp add: unat_of_nat)
  then show ?thesis
    using assms by (simp add: read_parameter_set_def sized_def checked_def reads_be read_nbyte_def)
qed

lemma read_parameter_sets_sized:
  assumes "short_sets ps"
  shows "read_parameter_sets (length ps) acc (concat (map sized ps) @ s) = Ok (acc @ ts_units ps, s)"
  using assms by (induction ps arbitrary: acc) (simp_all add: read_sized)

lemma number_of_sets:
  assumes "n < 32"
  shows "(0xE0 OR of_nat n) AND 0x1F = (of_nat n :: byte)"
proof -
  have "list_all (\<lambda>n. (0xE0 OR of_nat n) AND 0x1F = (of_nat n :: byte)) [0..<32]" by code_simp
  then show ?thesis using assms by (simp only: list_all_iff) simp
qed

lemma read_record_head:
  assumes "length vpcl = 4"
  shows "checked 1 read_1byte ([a] @ s) = Ok (a, s)"
    "checked 3 read_3byte (be24 time @ s) = Ok (time AND mask 24, s)"
    "check (length (vpcl @ s) \<ge> 4) (read_nbyte (vpcl @ s) 4) = Ok (vpcl, s)"
  using assms by (simp_all add: checked_def reads_be read_nbyte_def read_1byte_def del: checked_reads)

lemma first_set_sized:
  assumes "length p < 2 ^ 16" "0 < n"
  shows "first_parameter_set n (sized p @ s) = Ok (p, s)"
  using assms by (simp add: first_parameter_set_def read_sized)

lemma first_set_none: "first_parameter_set 0 s = Ok ([], s)"
  by (simp add: first_parameter_set_def)

lemma checked_Suc_0 [simp]:
  "checked (Suc 0) read_1byte s = (case s of a # r \<Rightarrow> Ok (a, r) | _ \<Rightarrow> Refused)"
  using checked_reads(1) [of s] by simp

lemma get_first_sets:
  assumes "length vpcl = 4"
  shows "get_first_sps_and_first_pps_from_avc_sequence_header
      ([fmt, 0] @ be24 time @ vpcl @ [nal_len, n] @ s) =
    bind_access (first_parameter_set (n AND 0x1F) s) (\<lambda>(sps, s).
     bind_access (checked 1 read_1byte s) (\<lambda>(number_of_pps, s).
     bind_access (first_parameter_set number_of_pps s) (\<lambda>(pps, s).
       Ok (sps, pps, (nal_len AND 0x03) + 1))))"
proof -
  have cons: "checked 1 read_1byte (a # s) = Ok (a, s)" for a s by (simp only: checked_reads list.case)
  show ?thesis
    unfolding get_first_sps_and_first_pps_from_avc_sequence_header_def
    by (simp only: append.simps append_assoc cons bind_access_simps prod.case read_record_head [OF assms]
      not_not if_False simp_thms)
qed

text \<open>When the record has one sequence parameter set, the streamer's configuration has this one,
  the first picture parameter set, and the length of NAL unit lengths.\<close>

theorem first_sets_found:
  assumes "length vpcl = 4" "length sps < 2 ^ 16" "length pps < 2 ^ 16" "length ppss < 255"
  shows "get_first_sps_and_first_pps_from_avc_sequence_header
      (avc_record fmt time vpcl nal_len [sps] (pps # ppss)) = Ok (sps, pps, (nal_len AND 3) + 1)"
proof -
  have n: "(0xE0 OR of_nat (length [sps])) AND 0x1F = (1 :: byte)"
    using number_of_sets [of 1] by simp
  have "(of_nat (length (pps # ppss)) :: byte) \<noteq> 0"
    using assms(4) by (simp add: word_unat_eq_iff unat_of_nat del: of_nat_Suc length_Cons)
  then show ?thesis
    using get_first_sets [OF assms(1), of fmt time nal_len] n assms(2,3)
    by (simp add: avc_record_def first_set_sized word_neq_0_conv del: of_nat_Suc)
qed

theorem first_sets_found_witness:
  "get_first_sps_and_first_pps_from_avc_sequence_header
      (avc_record 0x17 0 [1, 0x64, 0, 0x1F] 0xFF [[0x67, 0x64]] [[0x68], [0x69]]) =
    Ok ([0x67, 0x64], [0x68], 4)"
proof -
  have "(0xFF AND 3) + 1 = (4 :: byte)" by code_simp
  then show ?thesis
    using first_sets_found [of "[1, 0x64, 0, 0x1F]" "[0x67, 0x64]" "[0x68]" "[[0x69]]" "0x17" 0 "0xFF"]
    by simp
qed

lemma of_nat_not_0: "0 < n \<Longrightarrow> n < 32 \<Longrightarrow> (of_nat n :: byte) \<noteq> 0"
  by (simp add: word_unat_eq_iff unat_of_nat)

lemma sized_short:
  assumes "length p < 2 ^ 8"
  shows "sized p = [0, of_nat (length p)] @ p"
proof -
  have "length p div 256 = 0" using assms by simp
  then have "(of_nat (length p) :: u16) = ucast (of_nat (length p) :: byte)"
    using assms by (simp add: word_unat_eq_iff unat_of_nat unsigned_ucast_eq take_bit_nat_eq_self)
  then have "be16 (of_nat (length p)) = [0, of_nat (length p)]"
    by (simp add: be16_def) (auto intro!: bit_word_eqI simp: codec_bit_simps dest: bit_byte_less)
  then show ?thesis by (simp add: sized_def)
qed

text \<open>When the record has two or more sequence parameter sets, the loop over them is left after
  the first, and what follows is the length of the second and not the number of picture
  parameter sets: the picture parameter set is lost, with no error, whenever the second sequence
  parameter set is shorter than 256 bytes.\<close>

theorem pps_lost:
  assumes "length vpcl = 4" "length sps < 2 ^ 16" "length sps' < 2 ^ 8" "length spss < 30"
  shows "get_first_sps_and_first_pps_from_avc_sequence_header
      (avc_record fmt time vpcl nal_len (sps # sps' # spss) ppss) = Ok (sps, [], (nal_len AND 3) + 1)"
proof -
  have n: "(0xE0 OR of_nat (length (sps # sps' # spss))) AND 0x1F =
      (of_nat (length (sps # sps' # spss)) :: byte)"
    using assms(4) by (intro number_of_sets) simp
  have "(of_nat (length (sps # sps' # spss)) :: byte) \<noteq> 0"
    using assms(4) by (intro of_nat_not_0) simp_all
  then show ?thesis
    using get_first_sets [OF assms(1), of fmt time nal_len] n assms(2)
    by (simp add: avc_record_def first_set_sized word_neq_0_conv sized_short [OF assms(3)]
      first_set_none del: of_nat_Suc)
qed

theorem pps_lost_witness:
  "get_first_sps_and_first_pps_from_avc_sequence_header
      (avc_record 0x17 0 [1, 0x64, 0, 0x1F] 0xFF [[0x67, 0x64], [0x67]] [[0x68]]) =
    Ok ([0x67, 0x64], [], 4)"
proof -
  have "(0xFF AND 3) + 1 = (4 :: byte)" by code_simp
  then show ?thesis
    using pps_lost [of "[1, 0x64, 0, 0x1F]" "[0x67, 0x64]" "[0x67]" "[]" "0x17" 0 "0xFF" "[[0x68]]"]
    by simp
qed

text \<open>C35: \<open>ParseAVCSequenceHeader\<close> reads every such record to its end: its configuration has all the
  sequence and all the picture parameter sets, each after a start code.\<close>

theorem avc_record_parsed:
  assumes "1 \<le> length spss" "length spss < 32" "length ppss < 256" "short_sets spss" "short_sets ppss"
    and "nal_len AND 3 \<noteq> 2"
  shows "ParseAVCSequenceHeader (avc_record 0x17 0 [v, prof, comp_flags, level] nal_len spss ppss) =
    Ok (\<lparr> frame_type = 1, codec_id = FLV_AVC, avc_packet_type = 0, composition_time_offset = 0 \<rparr>,
      \<lparr> version = v, profile_indication = prof, profile_compatibility = comp_flags,
        avc_config_level = level, nal_start_code_length = (nal_len AND 3) + 1,
        num_of_sps = of_nat (length spss), num_of_pps = of_nat (length ppss),
        sps_list = ts_units spss, pps_list = ts_units ppss \<rparr>)"
proof -
  have pps: "unat (of_nat (length ppss) :: byte) = length ppss"
    and sps: "unat (of_nat (length spss) :: byte) = length spss"
    using assms(2,3) by (simp_all add: unat_of_nat)
  have one: "(1 :: byte) \<le> of_nat (length spss)"
    using assms(1) sps by (simp add: word_le_nat_alt)
  have fmt: "0x17 AND 0x0F = FLV_AVC" "drop_bit 4 (0x17 AND 0xF0) = (1 :: byte)"
    by code_simp+
  note sets = read_parameter_sets_sized [OF assms(4), of "[]"]
    read_parameter_sets_sized [OF assms(5), of "[]" "[]", simplified]
  show ?thesis
    unfolding ParseAVCSequenceHeader_def avc_record_def FLV_AVC_def
    by (simp add: read_1byte_def fmt [unfolded FLV_AVC_def] number_of_sets [OF assms(2)] sps pps one sets assms(6)
      be24_def del: of_nat_Suc)
qed


theorem avc_record_parsed_witness:
  "ParseAVCSequenceHeader (avc_record 0x17 0 [1, 0x64, 0, 0x1F] 0xFF [[0x67, 0x64]] [[0x68]]) =
    Ok (\<lparr> frame_type = 1, codec_id = FLV_AVC, avc_packet_type = 0, composition_time_offset = 0 \<rparr>,
      \<lparr> version = 1, profile_indication = 0x64, profile_compatibility = 0, avc_config_level = 0x1F,
        nal_start_code_length = 4, num_of_sps = 1, num_of_pps = 1,
        sps_list = [0, 0, 0, 1, 0x67, 0x64], pps_list = [0, 0, 0, 1, 0x68] \<rparr>)"
proof -
  have "(0xFF AND 3) + 1 = (4 :: byte)" "0xFF AND 3 \<noteq> (2 :: byte)" by code_simp+
  then show ?thesis
    using avc_record_parsed [of "[[0x67, 0x64]]" "[[0x68]]" "0xFF" 1 "0x64" 0 "0x1F"] by simp
qed

end
