(* ===== verification/Flv_Message.thy ===== *)
theory Flv_Message
  imports Flv_Parse
begin

text \<open>
  The elementary stream of a publisher, \<open>flv_message.cpp\<close>: an audio or video message of the client
  becomes a configuration, a numbered frame in the list \<open>media_es_\<close>, or the end of the stream, all
  kept in the \<open>MediaPublishEsContext\<close> of its connection (its members \<open>last_message_timestamp_\<close>
  and \<open>rollover_count_\<close> are kept with their only user, the payload parser). Characters are bytes. A call returns whether
  it succeeded (\<open>ec\<close> is 0 then, and 1 otherwise) and the new context, or \<open>Outside\<close> when it reads past
  the message.

  Shown: frames are numbered without gaps, what is queued for a video message, which messages are
  read past their end, that frames before the first key frame are dropped, and that the dump
  format replays what was received.
\<close>

subsection \<open>Contexts\<close>

datatype media_es_type = Video | Audio

definition track_of :: "media_es_type \<Rightarrow> byte" where
  "track_of t = (case t of Video \<Rightarrow> 1 | Audio \<Rightarrow> 2)"

record media_es =
  es_type :: media_es_type
  es_frame_number :: u64
  track_id :: byte
  is_key_frame :: byte
  pts :: u64
  dts :: u64
  es_size :: u32
  es_data :: bytes

record audio_es_init =
  audio_codec_info :: bytes
  sample_rate :: u32
  audio_channels :: u32

record video_es_init =
  video_codec_info :: bytes
  sps :: bytes
  pps :: bytes

datatype publish_state_t = Begin | Init | Publishing | End

record recording_flv_context =
  write_audio_header_done :: bool
  write_video_header_done :: bool
  write_flv_header_done :: bool
  audio_index :: u32
  video_index :: u32
  media_index :: u32

record es_context =
  publish_state :: publish_state_t
  publish_live_addr_port :: bytes
  publish_live_uri :: bytes
  publish_id :: bytes
  publish_es_addr_port :: bytes
  audio_init_es :: audio_es_init
  video_init_es :: video_es_init
  video_eos :: bytes
  peer_epoch_timestamp :: u64
  base_timestamp :: u64
  nal_startcode_len :: byte
  video_timestamp_delta :: u32
  audio_timestamp_delta :: u32
  provider :: bytes
  es_stream_name :: bytes
  recording :: byte
  es_stream_type :: bytes
  es_client_id :: bytes
  es_stream_id :: u32
  ready_to_end_of_stream :: bool
  media_es_list :: "media_es list"
  frame_number :: u64
  audio_frame_number :: u64
  video_frame_number :: u64
  first_video_key_frame_sent :: bool
  record_flv_context :: recording_flv_context

definition new_es_context :: es_context where
  "new_es_context = \<lparr> publish_state = Begin, publish_live_addr_port = ascii ''172.16.33.52:8081'',
     publish_live_uri = ascii ''/cdn/live'', publish_id = [], publish_es_addr_port = [],
     audio_init_es = \<lparr> audio_codec_info = [], sample_rate = 0, audio_channels = 0 \<rparr>,
     video_init_es = \<lparr> video_codec_info = [], sps = [], pps = [] \<rparr>, video_eos = [],
     peer_epoch_timestamp = 0, base_timestamp = 0,
     nal_startcode_len = 4, video_timestamp_delta = 0, audio_timestamp_delta = 0,
     provider = ascii ''brokering'', es_stream_name = [], recording = 1, es_stream_type = [],
     es_client_id = [], es_stream_id = 0, ready_to_end_of_stream = False, media_es_list = [],
     frame_number = 0, audio_frame_number = 0, video_frame_number = 0,
     first_video_key_frame_sent = False,
     record_flv_context = \<lparr> write_audio_header_done = False, write_video_header_done = False,
       write_flv_header_done = False, audio_index = 0, video_index = 0, media_index = 0 \<rparr> \<rparr>"

definition READY_TO_SEND_AUDIO_FRAME_COUNT :: u64 where "READY_TO_SEND_AUDIO_FRAME_COUNT = 1"
definition READY_TO_SEND_VIDEO_FRAME_COUNT :: u64 where "READY_TO_SEND_VIDEO_FRAME_COUNT = 1"

definition ready_to_send :: "es_context \<Rightarrow> bool" where
  "ready_to_send context \<longleftrightarrow> audio_codec_info (audio_init_es context) \<noteq> [] \<and>
     video_codec_info (video_init_es context) \<noteq> [] \<and>
     video_frame_number context \<ge> READY_TO_SEND_VIDEO_FRAME_COUNT \<and>
     audio_frame_number context \<ge> READY_TO_SEND_AUDIO_FRAME_COUNT"

definition end_of_video_es :: "es_context \<Rightarrow> bool" where
  "end_of_video_es context \<longleftrightarrow> video_eos context \<noteq> []"

text \<open>The argument \<open>key\<close> is not used: \<open>isKeyFrame\<close> keeps the 1 of its declaration.\<close>

definition make_media_es ::
  "media_es_type \<Rightarrow> bytes \<Rightarrow> u64 \<Rightarrow> byte \<Rightarrow> u64 \<Rightarrow> u64 \<Rightarrow> u32 \<Rightarrow> media_es" where
  "make_media_es type data number key p d n =
     \<lparr> es_type = type, es_frame_number = number, track_id = track_of type, is_key_frame = 1,
       pts = p, dts = d, es_size = n, es_data = data \<rparr>"

definition push_audio :: "es_context \<Rightarrow> media_es \<Rightarrow> es_context" where
  "push_audio context es = context \<lparr> media_es_list := media_es_list context @ [es],
     frame_number := frame_number context + 1,
     audio_frame_number := audio_frame_number context + 1 \<rparr>"

definition push_video :: "es_context \<Rightarrow> media_es \<Rightarrow> es_context" where
  "push_video context es = context \<lparr> media_es_list := media_es_list context @ [es],
     frame_number := frame_number context + 1,
     video_frame_number := video_frame_number context + 1 \<rparr>"

text \<open>An \<open>if\<close> on a call that returns whether it succeeded.\<close>

definition try_access :: "'a access \<Rightarrow> ('a \<Rightarrow> 'b access) \<Rightarrow> 'b access \<Rightarrow> 'b access" where
  "try_access x yes no = (case x of Ok a \<Rightarrow> yes a | Refused \<Rightarrow> no | Outside \<Rightarrow> Outside)"

lemma try_access_simps [simp]:
  "try_access (Ok a) yes no = yes a" "try_access Refused yes no = no"
  "try_access Outside yes no = Outside"
  by (simp_all add: try_access_def)

subsection \<open>Live messages\<close>

definition FLV_AUDIO_ES :: byte where "FLV_AUDIO_ES = 8"
definition FLV_VIDEO_ES :: byte where "FLV_VIDEO_ES = 9"

definition set_audio_config :: "es_context \<Rightarrow> u32 \<Rightarrow> u32 \<Rightarrow> es_context" where
  "set_audio_config context rate channels = context \<lparr> audio_init_es :=
     \<lparr> audio_codec_info = to_vector_32 rate @ to_vector_32 channels, sample_rate = rate,
       audio_channels = channels \<rparr> \<rparr>"

definition set_video_config :: "es_context \<Rightarrow> bytes \<Rightarrow> bytes \<Rightarrow> byte \<Rightarrow> es_context" where
  "set_video_config context s p n = context \<lparr> video_init_es :=
     \<lparr> video_codec_info = start_code 4 @ s @ start_code 4 @ p, sps = s, pps = p \<rparr>,
     nal_startcode_len := n \<rparr>"

definition process_audio_config :: "es_context \<Rightarrow> bytes \<Rightarrow> (bool \<times> es_context) access" where
  "process_audio_config context buffer =
     try_access (get_aac_header buffer)
       (\<lambda>(object_type, rate, channels). Ok (True, set_audio_config context rate channels))
       (Ok (False, context))"

definition process_audio_es :: "es_context \<Rightarrow> u64 \<Rightarrow> bytes \<Rightarrow> (bool \<times> es_context) access" where
  "process_audio_es context time buffer =
     try_access (get_audio buffer)
       (\<lambda>audio_es. let d = time * 90 in
          Ok (True, push_audio context (make_media_es Audio audio_es (frame_number context + 1) 1
            d d (of_nat (length audio_es)))))
       (Ok (False, context))"

definition process_video_config :: "es_context \<Rightarrow> bytes \<Rightarrow> (bool \<times> es_context) access" where
  "process_video_config context buffer =
     try_access (get_first_sps_and_first_pps_from_avc_sequence_header buffer)
       (\<lambda>(s, p, n). Ok (True, set_video_config context s p n))
       (Ok (False, context))"

definition queue_video :: "es_context \<Rightarrow> bytes \<Rightarrow> byte \<Rightarrow> u64 \<Rightarrow> u64 \<Rightarrow> bool \<times> es_context" where
  "queue_video context video_es key p d =
     (if key \<noteq> 1 \<and> \<not> first_video_key_frame_sent context then (False, context)
      else let context = (if key = 1 then context \<lparr> first_video_key_frame_sent := True \<rparr> else context)
           in (True, push_video context (make_media_es Video video_es (frame_number context + 1) key
                p d (of_nat (length video_es)))))"

definition process_video_es :: "es_context \<Rightarrow> u64 \<Rightarrow> bytes \<Rightarrow> (bool \<times> es_context) access" where
  "process_video_es context time buffer =
     try_access (get_video buffer)
       (\<lambda>(video_es, frame). bind_access (replace_nalu_start_code_from_mp4_to_ts 4 video_es) (\<lambda>video_es.
          let d = time * 90; p = d + cts frame * 90
          in Ok (queue_video context video_es (keyframe frame) p d)))
       (Ok (False, context))"

definition process_video_eos :: "es_context \<Rightarrow> bytes \<Rightarrow> (bool \<times> es_context) access" where
  "process_video_eos context buffer =
     bind_access (get_avc_end_of_sequence buffer) (\<lambda>eos. Ok (True, context \<lparr> video_eos := eos \<rparr>))"

definition process_flv_es_message ::
  "es_context \<Rightarrow> byte \<Rightarrow> u64 \<Rightarrow> bytes \<Rightarrow> (bool \<times> es_context) access" where
  "process_flv_es_message context message_type time buffer =
     (if message_type = FLV_AUDIO_ES then
        try_access (IsAACSequenceHeader buffer) (\<lambda>_. process_audio_config context buffer)
       (try_access (IsAACRaw buffer) (\<lambda>_. process_audio_es context time buffer)
          (Ok (False, context)))
      else if message_type = FLV_VIDEO_ES then
        try_access (IsAVCSequenceHeader buffer) (\<lambda>_. process_video_config context buffer)
       (try_access (IsAVCNALU buffer) (\<lambda>_. process_video_es context time buffer)
       (bind_access (is_avc_end_of_sequence buffer) (\<lambda>eos.
          if eos then process_video_eos context buffer else Ok (False, context))))
      else Ok (False, context))"

subsection \<open>Dumped messages\<close>

text \<open>The dump of a message has its type, timestamp and length in front. Here the timestamp is
  scaled at 32 bits, and there is no rule about the first key frame.\<close>

definition dump_audio_es :: "es_context \<Rightarrow> u32 \<Rightarrow> bytes \<Rightarrow> (bool \<times> es_context) access" where
  "dump_audio_es context time buffer =
     try_access (get_audio buffer)
       (\<lambda>audio_es. let d = ucast (time * 90) in
          Ok (True, push_audio context (make_media_es Audio audio_es (frame_number context + 1) 1
            d d (of_nat (length audio_es)))))
       (Ok (False, context))"

definition dump_video_es :: "es_context \<Rightarrow> u32 \<Rightarrow> bytes \<Rightarrow> (bool \<times> es_context) access" where
  "dump_video_es context time buffer =
     try_access (get_video buffer)
       (\<lambda>(video_es, frame). bind_access (replace_nalu_start_code_from_mp4_to_ts 4 video_es) (\<lambda>video_es.
          let d = ucast (time * 90); p = d + cts frame * 90
          in Ok (True, push_video context (make_media_es Video video_es
               (frame_number context + 1) (keyframe frame) p d (of_nat (length video_es))))))
       (Ok (False, context))"

definition process_flv_es_dump_message ::
  "es_context \<Rightarrow> bytes \<Rightarrow> (bool \<times> es_context) access" where
  "process_flv_es_dump_message context buffer =
     bind_access (read_1byte buffer) (\<lambda>(message_type, s).
     bind_access (read_4byte s) (\<lambda>(time, s).
     bind_access (read_4byte s) (\<lambda>(message_length, s).
     if message_type = FLV_AUDIO_ES then
        bind_access (is_aac_sequence_header s) (\<lambda>b.
        if b then process_audio_config context s else
        bind_access (is_aac_audio s) (\<lambda>b.
        if b then dump_audio_es context time s else Ok (False, context)))
     else if message_type = FLV_VIDEO_ES then
        bind_access (is_avc_sequence_header s) (\<lambda>b.
        if b then process_video_config context s else
        bind_access (is_avc_video s) (\<lambda>b.
        if b then dump_video_es context time s else
        bind_access (is_avc_end_of_sequence s) (\<lambda>b.
        if b then process_video_eos context s else Ok (False, context))))
     else Ok (False, context))))"

subsection \<open>Reads past the message\<close>

lemma access_Outside:
  "bind_access x f = Outside \<longleftrightarrow> x = Outside \<or> (\<exists>a. x = Ok a \<and> f a = Outside)"
  "try_access x g y = Outside \<longleftrightarrow> x = Outside \<or> (\<exists>a. x = Ok a \<and> g a = Outside) \<or> (x = Refused \<and> y = Outside)"
  "check c x = Outside \<longleftrightarrow> c \<and> x = Outside"
  by (cases x; simp add: check_def)+

lemma reads_Outside [simp]:
  "read_nbyte s n = Outside \<longleftrightarrow> length s < n" "read_3byte s = Outside \<longleftrightarrow> length s < 3"
  by (auto simp: read_nbyte_def read_3byte_def split: list.split)

lemma checked_not_Outside [simp]:
  "checked 1 read_1byte s \<noteq> Outside" "checked (Suc 0) read_1byte s \<noteq> Outside"
  "checked 2 read_2byte s \<noteq> Outside" "checked 2 get_2byte s \<noteq> Outside"
  "checked 3 read_3byte s \<noteq> Outside" "check (n \<le> length s) (read_nbyte s n) \<noteq> Outside"
  "check (length s > 3) (read_3byte s) \<noteq> Outside"
  by (auto simp: check_def read_nbyte_def read_3byte_def split: list.splits)

lemma read_parameter_set_not_Outside [simp]: "read_parameter_set m s \<noteq> Outside"
  by (auto simp: read_parameter_set_def access_Outside simp del: checked_reads)

lemma configurations_not_Outside:
  "get_aac_header buffer \<noteq> Outside"
  "get_first_sps_and_first_pps_from_avc_sequence_header buffer \<noteq> Outside"
proof -
  have "escaped_aac_header a b s \<noteq> Outside" "plain_aac_header a b s \<noteq> Outside" for a b s
    by (auto simp: escaped_aac_header_def plain_aac_header_def access_Outside Let_def
        simp del: checked_reads checked_Suc_0)
  then show "get_aac_header buffer \<noteq> Outside"
    by (auto simp: get_aac_header_def access_Outside Let_def simp del: checked_reads)
  show "get_first_sps_and_first_pps_from_avc_sequence_header buffer \<noteq> Outside"
    by (auto simp: get_first_sps_and_first_pps_from_avc_sequence_header_def first_parameter_set_def
        access_Outside simp del: checked_reads checked_Suc_0)
qed

lemma kinds_not_Outside [simp]:
  "IsAACSequenceHeader buffer \<noteq> Outside" "IsAACRaw buffer \<noteq> Outside"
  "IsAVCSequenceHeader buffer \<noteq> Outside" "IsAVCNALU buffer \<noteq> Outside"
  by (auto simp: IsAACSequenceHeader_def IsAACRaw_def IsAVCSequenceHeader_def IsAVCNALU_def
      access_Outside simp del: checked_reads)

lemma kinds_length:
  "IsAACRaw buffer = Ok v \<Longrightarrow> \<exists>a s. buffer = a # 1 # s \<and> drop_bit 4 (a AND 0xF0) = FLV_AAC"
  "IsAVCNALU buffer = Ok v \<Longrightarrow> \<exists>a s. buffer = a # 1 # s \<and> a AND 0x0F = FLV_AVC"
  by (auto simp: IsAACRaw_def IsAVCNALU_def check_Ok bind_access_Ok split: list.splits)

lemma get_audio_raw:
  "drop_bit 4 (a AND 0xF0) = FLV_AAC \<Longrightarrow> get_audio (a # 1 # s) = Ok s"
  using high_low_byte [of a 1] by (simp add: get_audio_def read_2byte_def read_nbyte_def)

lemma get_video_nalu:
  "get_video (a # 1 # s) = (case s of
     b # c # d # es \<Rightarrow> Ok (es, \<lparr> cts = ucast (of_be24 b c d), keyframe = drop_bit 4 (a AND 0xF0),
       frame_codec_id = a AND 0x0F \<rparr>)
   | _ \<Rightarrow> Refused)"
  by (auto simp: get_video_def read_nbyte_def of_be24_def split: list.split)

lemma replace_nalu_not_Refused: "replace_nalu n mem p q left \<noteq> Refused"
proof (induction n mem p q left rule: replace_nalu.induct)
  case (1 n mem mp4 ts left)
  then show ?case by (subst replace_nalu.simps) (auto simp: Let_def)
qed

definition nal_units :: "bytes \<Rightarrow> bool" where
  "nal_units es \<longleftrightarrow> (\<exists>us. (\<forall>u\<in>set us. length u < 2 ^ 32) \<and> es = mp4_units us)"

lemma replace_start_codes:
  "replace_nalu_start_code_from_mp4_to_ts 4 es = Outside \<longleftrightarrow> \<not> nal_units es"
  "replace_nalu_start_code_from_mp4_to_ts 4 es \<noteq> Refused"
proof -
  let ?r = "replace_nalu_start_code_from_mp4_to_ts 4 es"
  have "?r = replace_nalu 4 es 0 0 (length es)"
    by (simp add: replace_nalu_start_code_from_mp4_to_ts_def)
  then show no: "?r \<noteq> Refused" by (simp add: replace_nalu_not_Refused)
  have "(\<exists>r. ?r = Ok r) \<longleftrightarrow> nal_units es"
    using replace_nalu_units [of _ "[]"] replace_nalu_complete [of 4 es 0 0 "length es"] 
    by (auto simp: nal_units_def replace_nalu_start_code_from_mp4_to_ts_def)
  then show "?r = Outside \<longleftrightarrow> \<not> nal_units es"
    using no by (cases ?r) auto
qed

text \<open>C21: which messages are read past their end, for any context: the video messages of fewer than
  two bytes, whose kind is looked at without a check of the length, and the NAL unit packets
  whose sample is not a list of units with their lengths, which the rewriting of start codes
  follows past the sample.\<close>

theorem reads_outside:
  "process_flv_es_message context message_type time buffer = Outside \<longleftrightarrow>
    message_type = FLV_VIDEO_ES \<and>
    (length buffer < 2 \<or>
     (IsAVCNALU buffer = Ok () \<and> 5 \<le> length buffer \<and> \<not> nal_units (drop 5 buffer)))"
proof -
  have audio: "process_audio_config context buffer \<noteq> Outside"
    "IsAACRaw buffer = Ok () \<Longrightarrow> process_audio_es context time buffer \<noteq> Outside"
    using kinds_length(1) [of buffer "()"] configurations_not_Outside
    by (auto simp: process_audio_config_def process_audio_es_def access_Outside get_audio_raw Let_def)
  have config: "process_video_config context buffer \<noteq> Outside"
    using configurations_not_Outside by (auto simp: process_video_config_def access_Outside)
  have nalu: "process_video_es context time buffer = Outside \<longleftrightarrow>
      5 \<le> length buffer \<and> \<not> nal_units (drop 5 buffer)" if k: "IsAVCNALU buffer = Ok ()"
  proof -
    obtain a s where b: "buffer = a # 1 # s" using kinds_length(2) [OF k] by auto
    show ?thesis
    proof (cases "length s < 3")
      case True
      then show ?thesis
        by (auto simp: b process_video_es_def get_video_nalu split: list.split)
    next
      case False
      then obtain c d e es where "s = c # d # e # es"
        by (auto simp: not_less Suc_le_length_iff eval_nat_numeral)
      then show ?thesis
        by (simp add: b process_video_es_def get_video_nalu access_Outside replace_start_codes Let_def)
    qed
  qed
  have eos: "is_avc_end_of_sequence buffer = Outside \<longleftrightarrow> length buffer < 2"
    "process_video_eos context buffer \<noteq> Outside"
    by (auto simp: is_avc_end_of_sequence_def get_2byte_def process_video_eos_def
        get_avc_end_of_sequence_def access_Outside split: list.split)
  have short: "IsAVCSequenceHeader buffer = Refused" "IsAVCNALU buffer = Refused" if "length buffer < 2"
    using that by (auto simp: IsAVCSequenceHeader_def IsAVCNALU_def split: list.split)
  have excl: "IsAVCNALU buffer = Refused" "\<not> length buffer < 2" if "IsAVCSequenceHeader buffer = Ok ()"
    using that by (auto simp: IsAVCSequenceHeader_def IsAVCNALU_def check_Ok bind_access_Ok
        split: list.splits)
  have types: "FLV_AUDIO_ES \<noteq> FLV_VIDEO_ES" by (simp add: FLV_AUDIO_ES_def FLV_VIDEO_ES_def)
  have au: "process_flv_es_message context FLV_AUDIO_ES time buffer \<noteq> Outside"
    unfolding process_flv_es_message_def
    by (cases "IsAACSequenceHeader buffer"; cases "IsAACRaw buffer") (use audio in auto)
  have vi: "process_flv_es_message context FLV_VIDEO_ES time buffer = Outside \<longleftrightarrow>
      length buffer < 2 \<or>
      (IsAVCNALU buffer = Ok () \<and> 5 \<le> length buffer \<and> \<not> nal_units (drop 5 buffer))"
    unfolding process_flv_es_message_def
    by (cases "IsAVCSequenceHeader buffer"; cases "IsAVCNALU buffer")
      (use types config nalu eos short excl in \<open>auto simp: access_Outside\<close>)
  have "process_flv_es_message context message_type time buffer \<noteq> Outside"
    if "message_type \<noteq> FLV_AUDIO_ES" "message_type \<noteq> FLV_VIDEO_ES"
    using that by (simp add: process_flv_es_message_def)
  then show ?thesis using au vi types by metis
qed

theorem reads_outside_witness:
  "process_flv_es_message new_es_context FLV_VIDEO_ES 0 [0x17] = Outside"
  using reads_outside [of new_es_context FLV_VIDEO_ES 0 "[0x17]"] by simp

subsection \<open>Frames\<close>

lemma nalu_kind:
  assumes "fmt AND 0x0F = FLV_AVC"
  shows "IsAVCNALU (fmt # 1 # s) = Ok ()" "IsAVCSequenceHeader (fmt # 1 # s) = Refused"
  using assms high_low_byte [of fmt 1] by (simp_all add: IsAVCNALU_def IsAVCSequenceHeader_def)

lemma raw_kind:
  assumes "drop_bit 4 (fmt AND 0xF0) = FLV_AAC"
  shows "IsAACRaw (fmt # 1 # s) = Ok ()" "IsAACSequenceHeader (fmt # 1 # s) = Refused"
  using assms high_low_byte [of fmt 1] by (simp_all add: IsAACRaw_def IsAACSequenceHeader_def)

lemma flv_types [simp]: "FLV_AUDIO_ES \<noteq> FLV_VIDEO_ES" "FLV_VIDEO_ES \<noteq> FLV_AUDIO_ES"
  by (simp_all add: FLV_AUDIO_ES_def FLV_VIDEO_ES_def)

lemma process_nalu:
  assumes "fmt AND 0x0F = FLV_AVC"
  shows "process_flv_es_message context FLV_VIDEO_ES time (fmt # 1 # s) =
    process_video_es context time (fmt # 1 # s)"
  using assms by (simp add: process_flv_es_message_def nalu_kind)

lemma process_raw:
  assumes "drop_bit 4 (fmt AND 0xF0) = FLV_AAC"
  shows "process_flv_es_message context FLV_AUDIO_ES time (fmt # 1 # s) =
    process_audio_es context time (fmt # 1 # s)"
  using assms by (simp add: process_flv_es_message_def raw_kind)

lemma start_codes_of_units:
  assumes "\<forall>u\<in>set us. length u < 2 ^ 32"
  shows "replace_nalu_start_code_from_mp4_to_ts 4 (mp4_units us) = Ok (ts_units us)"
  using replace_nalu_units [OF assms, of "[]"] by (simp add: replace_nalu_start_code_from_mp4_to_ts_def)

lemma queue_video_key:
  assumes "key = 1 \<or> first_video_key_frame_sent context"
  shows "queue_video context es key p d = (True, context \<lparr>
      media_es_list := media_es_list context @
        [\<lparr> es_type = Video, es_frame_number = frame_number context + 1, track_id = 1,
          is_key_frame = 1, pts = p, dts = d, es_size = of_nat (length es), es_data = es \<rparr>],
      frame_number := frame_number context + 1,
      video_frame_number := video_frame_number context + 1,
      first_video_key_frame_sent := True \<rparr>)"
  using assms by (cases "key = 1")
    (simp_all add: queue_video_def make_media_es_def push_video_def track_of_def)

lemma queue_video_inter:
  assumes "key \<noteq> 1" "\<not> first_video_key_frame_sent context"
  shows "queue_video context es key p d = (False, context)"
  using assms by (simp add: queue_video_def)

text \<open>C38: a NAL unit packet of a key frame, or of any frame after the first key frame, is queued
  under the next frame number, with its units behind start codes, the decoding time at 90 kHz and
  the presentation time behind it by the composition time. It is queued as a key frame whatever
  its frame type is.\<close>

theorem video_frame_queued:
  assumes "fmt AND 0x0F = FLV_AVC" "\<forall>u\<in>set us. length u < 2 ^ 32"
    and "drop_bit 4 (fmt AND 0xF0) = 1 \<or> first_video_key_frame_sent context"
  shows "process_flv_es_message context FLV_VIDEO_ES time ([fmt, 1, b, c, d] @ mp4_units us) =
    Ok (True, context \<lparr>
      media_es_list := media_es_list context @
        [\<lparr> es_type = Video, es_frame_number = frame_number context + 1, track_id = 1,
          is_key_frame = 1, pts = (time + ucast (of_be24 b c d)) * 90, dts = time * 90,
          es_size = of_nat (length (ts_units us)), es_data = ts_units us \<rparr>],
      frame_number := frame_number context + 1,
      video_frame_number := video_frame_number context + 1,
      first_video_key_frame_sent := True \<rparr>)"
proof -
  have "process_flv_es_message context FLV_VIDEO_ES time ([fmt, 1, b, c, d] @ mp4_units us) =
      process_video_es context time (fmt # 1 # [b, c, d] @ mp4_units us)"
    using process_nalu [OF assms(1)] by simp
  then show ?thesis
    using queue_video_key [OF assms(3)]
    by (simp add: process_video_es_def get_video_nalu start_codes_of_units [OF assms(2)]
        Let_def distrib_right)
qed

theorem video_frame_queued_witness:
  "process_flv_es_message (new_es_context \<lparr> first_video_key_frame_sent := True, frame_number := 6 \<rparr>)
      FLV_VIDEO_ES 1000 [0x27, 1, 0, 0, 40, 0, 0, 0, 2, 0x41, 0x9A] =
    Ok (True, new_es_context \<lparr> first_video_key_frame_sent := True, frame_number := 7,
      video_frame_number := 1, media_es_list :=
        [\<lparr> es_type = Video, es_frame_number = 7, track_id = 1, is_key_frame = 1, pts = 93600,
          dts = 90000, es_size = 6, es_data = [0, 0, 0, 1, 0x41, 0x9A] \<rparr>] \<rparr>)"
proof -
  have u: "be32 2 = [0, 0, 0, 2]" by code_simp
  have "0x27 AND 0x0F = FLV_AVC" by code_simp
  moreover have "of_be24 0 0 40 = 40" by code_simp
  ultimately show ?thesis
    using video_frame_queued [of "0x27" "[[0x41, 0x9A]]"
      "new_es_context \<lparr> first_video_key_frame_sent := True, frame_number := 6 \<rparr>" 1000 0 0 40]
    by (simp add: u new_es_context_def)
qed

text \<open>Until a key frame was queued, a frame of another type is dropped: the call fails and the
  context is as before.\<close>

theorem inter_frame_dropped:
  assumes "fmt AND 0x0F = FLV_AVC" "\<forall>u\<in>set us. length u < 2 ^ 32"
    and "drop_bit 4 (fmt AND 0xF0) \<noteq> 1" "\<not> first_video_key_frame_sent context"
  shows "process_flv_es_message context FLV_VIDEO_ES time ([fmt, 1, b, c, d] @ mp4_units us) =
    Ok (False, context)"
proof -
  have "process_flv_es_message context FLV_VIDEO_ES time ([fmt, 1, b, c, d] @ mp4_units us) =
      process_video_es context time (fmt # 1 # [b, c, d] @ mp4_units us)"
    using process_nalu [OF assms(1)] by simp
  then show ?thesis
    using queue_video_inter [OF assms(3,4)]
    by (simp add: process_video_es_def get_video_nalu start_codes_of_units [OF assms(2)] Let_def)
qed

theorem inter_frame_dropped_witness:
  "process_flv_es_message new_es_context FLV_VIDEO_ES 1000 [0x27, 1, 0, 0, 40, 0, 0, 0, 2, 0x41, 0x9A] =
    Ok (False, new_es_context)"
proof -
  have u: "be32 2 = [0, 0, 0, 2]" by code_simp
  have "0x27 AND 0x0F = FLV_AVC" "drop_bit 4 (0x27 AND 0xF0) \<noteq> (1 :: byte)" by code_simp+
  then show ?thesis
    using inter_frame_dropped [of "0x27" "[[0x41, 0x9A]]" new_es_context 1000 0 0 40]
    by (simp add: u new_es_context_def)
qed


subsection \<open>Numbering\<close>

text \<open>What a message does to the list and the counters: nothing, or one more frame.\<close>

definition queued_by :: "es_context \<Rightarrow> es_context \<Rightarrow> bool" where
  "queued_by c c' \<longleftrightarrow>
     (media_es_list c' = media_es_list c \<and> frame_number c' = frame_number c \<and>
      audio_frame_number c' = audio_frame_number c \<and> video_frame_number c' = video_frame_number c) \<or>
     (\<exists>es. media_es_list c' = media_es_list c @ [es] \<and> es_frame_number es = frame_number c + 1 \<and>
        es_size es = of_nat (length (es_data es)) \<and>
        frame_number c' = frame_number c + 1 \<and>
        audio_frame_number c' = audio_frame_number c + (if es_type es = Audio then 1 else 0) \<and>
        video_frame_number c' = video_frame_number c + (if es_type es = Video then 1 else 0))"

lemma try_access_Ok:
  "try_access x g y = Ok b \<longleftrightarrow> (\<exists>a. x = Ok a \<and> g a = Ok b) \<or> (x = Refused \<and> y = Ok b)"
  by (cases x) simp_all

lemmas frame_simps = queued_by_def try_access_Ok bind_access_Ok Let_def push_audio_def push_video_def
  make_media_es_def set_audio_config_def set_video_config_def

lemma queued_by_refl [simp]: "queued_by c c" "queued_by c (set_audio_config c r n)"
  "queued_by c (set_video_config c s p m)" "queued_by c (c \<lparr> video_eos := e \<rparr>)"
  by (simp_all add: queued_by_def set_audio_config_def set_video_config_def)

lemma queue_video_queued:
  assumes "queue_video c es key p d = (r, c')"
  shows "queued_by c c'"
proof (cases "key = 1 \<or> first_video_key_frame_sent c")
  case True
  then show ?thesis using assms by (auto simp: queue_video_key queued_by_def)
next
  case False
  then show ?thesis using assms by (simp add: queue_video_inter)
qed

lemma process_parts_queued:
  "process_audio_config c buffer = Ok (r, c') \<Longrightarrow> queued_by c c'"
  "process_audio_es c time buffer = Ok (r, c') \<Longrightarrow> queued_by c c'"
  "process_video_config c buffer = Ok (r, c') \<Longrightarrow> queued_by c c'"
  "process_video_es c time buffer = Ok (r, c') \<Longrightarrow> queued_by c c'"
  "process_video_eos c buffer = Ok (r, c') \<Longrightarrow> queued_by c c'"
  subgoal by (auto simp: process_audio_config_def try_access_Ok)
  subgoal by (auto simp: process_audio_es_def frame_simps)
  subgoal by (auto simp: process_video_config_def try_access_Ok)
  subgoal by (auto simp: process_video_es_def try_access_Ok bind_access_Ok Let_def dest: queue_video_queued)
  subgoal by (auto simp: process_video_eos_def bind_access_Ok)
  done

lemma process_queued:
  "process_flv_es_message c type time buffer = Ok (r, c') \<Longrightarrow> queued_by c c'"
  by (auto simp: process_flv_es_message_def try_access_Ok bind_access_Ok dest: process_parts_queued
      split: if_splits)

text \<open>The invariant: the queued frames have consecutive numbers up to the counter, their sizes are
  those of their data, and the counters of the two tracks add up.\<close>

definition numbered :: "nat \<Rightarrow> media_es list \<Rightarrow> u64 \<Rightarrow> bool" where
  "numbered k ess n \<longleftrightarrow>
     map es_frame_number ess = map (\<lambda>i. of_nat (k + i + 1)) [0..<length ess] \<and>
     n = of_nat (k + length ess)"

definition frames_numbered :: "es_context \<Rightarrow> bool" where
  "frames_numbered c \<longleftrightarrow>
     (\<exists>k. numbered k (media_es_list c) (frame_number c)) \<and>
     frame_number c = audio_frame_number c + video_frame_number c \<and>
     (\<forall>es\<in>set (media_es_list c). es_size es = of_nat (length (es_data es)))"

lemma numbered_append:
  "numbered k ess n \<Longrightarrow> es_frame_number es = n + 1 \<Longrightarrow> numbered k (ess @ [es]) (n + 1)"
  by (simp add: numbered_def algebra_simps)

lemma numbered_tl: "numbered k (es # ess) n \<Longrightarrow> numbered (Suc k) ess n"
  by (simp add: numbered_def upt_conv_Cons map_Suc_upt [symmetric] comp_def del: upt_Suc map_Suc_upt)

lemma frames_numbered_new [simp]: "frames_numbered new_es_context"
  by (simp add: frames_numbered_def new_es_context_def numbered_def exI [of _ 0])

lemma frames_numbered_queued:
  assumes "frames_numbered c" "queued_by c c'"
  shows "frames_numbered c'"
proof -
  from assms(2) consider
      "media_es_list c' = media_es_list c" "frame_number c' = frame_number c"
      "audio_frame_number c' = audio_frame_number c" "video_frame_number c' = video_frame_number c"
    | es where "media_es_list c' = media_es_list c @ [es]" "es_frame_number es = frame_number c + 1"
      "es_size es = of_nat (length (es_data es))" "frame_number c' = frame_number c + 1"
      "audio_frame_number c' = audio_frame_number c + (if es_type es = Audio then 1 else 0)"
      "video_frame_number c' = video_frame_number c + (if es_type es = Video then 1 else 0)"
    by (auto simp: queued_by_def)
  then show ?thesis
  proof cases
    case 1
    then show ?thesis using assms(1) unfolding frames_numbered_def by metis
  next
    case 2
    then have "frame_number c' = audio_frame_number c' + video_frame_number c'"
      using assms(1) by (cases "es_type es") (simp_all add: frames_numbered_def)
    moreover obtain k where "numbered k (media_es_list c) (frame_number c)"
      using assms(1) unfolding frames_numbered_def by blast
    then have "numbered k (media_es_list c') (frame_number c')"
      using 2 by (simp only: numbered_append)
    moreover have "\<forall>es\<in>set (media_es_list c'). es_size es = of_nat (length (es_data es))"
      using 2 assms(1) unfolding frames_numbered_def by simp
    ultimately show ?thesis unfolding frames_numbered_def by blast
  qed
qed

lemma es_context_pop:
  "media_es_list (c \<lparr> media_es_list := l \<rparr>) = l"
  "frame_number (c \<lparr> media_es_list := l \<rparr>) = frame_number c"
  "audio_frame_number (c \<lparr> media_es_list := l \<rparr>) = audio_frame_number c"
  "video_frame_number (c \<lparr> media_es_list := l \<rparr>) = video_frame_number c"
  by simp_all

lemma frames_numbered_pop:
  assumes "frames_numbered c" "media_es_list c = es # rest"
  shows "frames_numbered (c \<lparr> media_es_list := rest \<rparr>)"
proof -
  obtain k where "numbered k (es # rest) (frame_number c)"
    using assms unfolding frames_numbered_def by metis
  then have "numbered (Suc k) rest (frame_number c)" by (rule numbered_tl)
  moreover have "es' \<in> set (media_es_list c)" if "es' \<in> set rest" for es'
    using that assms(2) by simp
  ultimately show ?thesis using assms(1) unfolding frames_numbered_def by (metis es_context_pop)
qed

subsection \<open>Replaying a dump\<close>

text \<open>The dump of a message.\<close>

definition dump_of :: "byte \<Rightarrow> u32 \<Rightarrow> bytes \<Rightarrow> bytes" where
  "dump_of type time body = [type] @ be32 time @ be32 (of_nat (length body)) @ body"

lemma process_dump_of:
  "process_flv_es_dump_message c (dump_of type time body) =
    (if type = FLV_AUDIO_ES then
        bind_access (is_aac_sequence_header body) (\<lambda>b.
        if b then process_audio_config c body else
        bind_access (is_aac_audio body) (\<lambda>b.
        if b then dump_audio_es c time body else Ok (False, c)))
     else if type = FLV_VIDEO_ES then
        bind_access (is_avc_sequence_header body) (\<lambda>b.
        if b then process_video_config c body else
        bind_access (is_avc_video body) (\<lambda>b.
        if b then dump_video_es c time body else
        bind_access (is_avc_end_of_sequence body) (\<lambda>b.
        if b then process_video_eos c body else Ok (False, c))))
     else Ok (False, c))"
  by (simp add: process_flv_es_dump_message_def dump_of_def read_1byte_def reads_be)


lemma kinds_agree:
  assumes "2 \<le> length body"
  shows "is_aac_sequence_header body = Ok (IsAACSequenceHeader body = Ok ())"
    "is_aac_audio body = Ok (IsAACRaw body = Ok ())"
    "is_avc_sequence_header body = Ok (IsAVCSequenceHeader body = Ok ())"
    "is_avc_video body = Ok (IsAVCNALU body = Ok ())"
proof -
  obtain a b s where "body = a # b # s"
    using assms by (auto simp: Suc_le_length_iff eval_nat_numeral)
  then show "is_aac_sequence_header body = Ok (IsAACSequenceHeader body = Ok ())"
    "is_aac_audio body = Ok (IsAACRaw body = Ok ())"
    "is_avc_sequence_header body = Ok (IsAVCSequenceHeader body = Ok ())"
    "is_avc_video body = Ok (IsAVCNALU body = Ok ())"
    by (simp_all add: is_aac_sequence_header_def IsAACSequenceHeader_def is_aac_audio_def IsAACRaw_def
      is_avc_sequence_header_def IsAVCSequenceHeader_def is_avc_video_def IsAVCNALU_def check_Ok
      get_2byte_def)
qed

lemma unit_access: "(x :: unit access) \<noteq> Outside \<Longrightarrow> x = Ok () \<or> x = Refused"
  by (cases x) simp_all

lemmas kinds_cases = kinds_not_Outside [THEN unit_access]

lemma scaled_time:
  assumes "unat (time :: u32) * 90 < 2 ^ 32"
  shows "ucast (time * 90) = (ucast time * 90 :: u64)"
  using assms by (simp add: word_unat_eq_iff unat_word_ariths unsigned_ucast_eq take_bit_nat_eq_self)

lemma queue_video_True:
  assumes "queue_video c es key p d = (True, c')"
  shows "push_video c (make_media_es Video es (frame_number c + 1) key p d (of_nat (length es))) =
    c' \<lparr> first_video_key_frame_sent := first_video_key_frame_sent c \<rparr>"
proof -
  have "key = 1 \<or> first_video_key_frame_sent c"
    using assms queue_video_inter [of key c es p d] by force
  then show ?thesis
    using assms by (auto simp: queue_video_key push_video_def make_media_es_def track_of_def)
qed

lemma dump_es_replays:
  assumes "unat time * 90 < 2 ^ 32"
  shows "dump_audio_es c time body = process_audio_es c (ucast time) body"
    and "process_video_es c (ucast time) body = Ok (True, c') \<Longrightarrow> dump_video_es c time body =
      Ok (True, c' \<lparr> first_video_key_frame_sent := first_video_key_frame_sent c \<rparr>)"
  using queue_video_True
  by (auto simp: dump_audio_es_def process_audio_es_def dump_video_es_def process_video_es_def
      scaled_time [OF assms] Let_def try_access_Ok bind_access_Ok)

lemma process_keeps_first:
  "process_audio_config c buffer = Ok (r, c') \<Longrightarrow>
    first_video_key_frame_sent c' = first_video_key_frame_sent c"
  "process_audio_es c time buffer = Ok (r, c') \<Longrightarrow>
    first_video_key_frame_sent c' = first_video_key_frame_sent c"
  "process_video_config c buffer = Ok (r, c') \<Longrightarrow>
    first_video_key_frame_sent c' = first_video_key_frame_sent c"
  "process_video_eos c buffer = Ok (r, c') \<Longrightarrow>
    first_video_key_frame_sent c' = first_video_key_frame_sent c"
  by (auto simp: process_audio_config_def process_audio_es_def process_video_config_def
      process_video_eos_def frame_simps)

lemma first_unchanged:
  "first_video_key_frame_sent c' = f \<Longrightarrow> c' \<lparr> first_video_key_frame_sent := f \<rparr> = c'"
  by auto

lemma dump_replayed:
  assumes "process_flv_es_message c type (ucast time) body = Ok (True, c')"
    and "unat time * 90 < 2 ^ 32"
  shows "process_flv_es_dump_message c (dump_of type time body) =
    Ok (True, c' \<lparr> first_video_key_frame_sent := first_video_key_frame_sent c \<rparr>)"
proof (cases "2 \<le> length body")
  case True
  note kinds = kinds_agree [OF True] and keep = process_keeps_first [THEN first_unchanged]
    and es = dump_es_replays [OF assms(2)]
  consider "type = FLV_AUDIO_ES" | "type = FLV_VIDEO_ES"
    using assms(1) by (auto simp: process_flv_es_message_def split: if_splits)
  then show ?thesis
  proof cases
    case 1
    then show ?thesis
      using assms(1) keep(1,2) es(1) kinds_cases(1,2) [of body]
      unfolding process_dump_of kinds process_flv_es_message_def
      by (elim disjE) simp_all
  next
    case 2
    then show ?thesis
      using assms(1) keep(3,4) es(2) kinds_cases(3,4) [of body]
      unfolding process_dump_of kinds process_flv_es_message_def
      by (elim disjE) (auto simp: bind_access_Ok split: if_splits)
  qed
next
  case False
  then have "IsAACSequenceHeader body = Refused" "IsAACRaw body = Refused"
    "IsAVCSequenceHeader body = Refused" "IsAVCNALU body = Refused"
    "is_avc_end_of_sequence body = Outside"
    by (auto simp: IsAACSequenceHeader_def IsAACRaw_def IsAVCSequenceHeader_def IsAVCNALU_def
      is_avc_end_of_sequence_def get_2byte_def split: list.split)
  then show ?thesis
    using assms(1) by (simp add: process_flv_es_message_def split: if_splits)
qed

text \<open>Replaying the dump of a message that was accepted gives the context that the message gave,
  up to the mark of the first key frame, which only live messages set, as long as the scaled
  timestamp fits into 32 bits.\<close>

theorem dump_replays:
  assumes "process_flv_es_message c type (ucast time) body = Ok (True, c')"
    and "unat time * 90 < 2 ^ 32"
  shows "process_flv_es_dump_message c (dump_of type time body) =
    Ok (True, c' \<lparr> first_video_key_frame_sent := first_video_key_frame_sent c \<rparr>)"
  by (rule dump_replayed [OF assms])

theorem dump_replays_witness:
  "process_flv_es_dump_message new_es_context [9, 0, 0, 3, 0xE8, 0, 0, 0, 11,
      0x17, 1, 0, 0, 40, 0, 0, 0, 2, 0x65, 0x9A] =
    Ok (True, new_es_context \<lparr> frame_number := 1, video_frame_number := 1, media_es_list :=
        [\<lparr> es_type = Video, es_frame_number = 1, track_id = 1, is_key_frame = 1, pts = 93600,
          dts = 90000, es_size = 6, es_data = [0, 0, 0, 1, 0x65, 0x9A] \<rparr>] \<rparr>)"
proof -
  let ?body = "[0x17, 1, 0, 0, 40, 0, 0, 0, 2, 0x65, 0x9A] :: bytes"
  let ?es = "\<lparr> es_type = Video, es_frame_number = 1, track_id = 1, is_key_frame = 1, pts = 93600,
    dts = 90000, es_size = 6, es_data = [0, 0, 0, 1, 0x65, 0x9A] \<rparr>"
  have kind: "IsAVCSequenceHeader ?body = Refused" "IsAVCNALU ?body = Ok ()"
    "get_video ?body = Ok ([0, 0, 0, 2, 0x65, 0x9A],
      \<lparr> cts = 40, keyframe = 1, frame_codec_id = FLV_AVC \<rparr>)"
    "replace_nalu_start_code_from_mp4_to_ts 4 [0, 0, 0, 2, 0x65, 0x9A] =
      Ok [0, 0, 0, 1, 0x65, 0x9A]"
    "dump_of 9 1000 ?body = [9, 0, 0, 3, 0xE8, 0, 0, 0, 11] @ ?body"
    by code_simp+
  have "process_flv_es_message new_es_context 9 (ucast (1000 :: u32)) ?body =
    Ok (True, new_es_context \<lparr> frame_number := 1, video_frame_number := 1, media_es_list := [?es],
      first_video_key_frame_sent := True \<rparr>)"
    by (simp add: process_flv_es_message_def FLV_AUDIO_ES_def FLV_VIDEO_ES_def kind process_video_es_def
      queue_video_key new_es_context_def)
  from dump_replays [OF this] show ?thesis by (simp add: kind(5) new_es_context_def)
qed

end
