(* ===== verification/Base64.thy ===== *)
theory Base64
  imports Rtmp_Prelude "HOL-Library.Signed_Division"
begin

text \<open>
  Base64, \<open>streamer/base64.h\<close>: the functions on \<open>std::string\<close>, whose characters are bytes here. The
  three and four characters that the loops collect are lists, filled with zeroes as in the code.
  Lengths are kept in an \<open>int\<close> of 32 bits: \<open>to_int\<close> is the conversion of a size, and an \<open>int\<close> that does
  not fit is undefined, as is a read before the string or a write behind the result.

  Shown: a string of less than 256 MiB is encoded, and decoding the text gives it back; only that
  of the empty string cannot be decoded.
\<close>

definition kBase64Alphabet :: bytes where
  "kBase64Alphabet = map of_char
     ''ABCDEFGHIJKLMNOPQRSTUVWXYZabcdefghijklmnopqrstuvwxyz0123456789+/''"

definition a3_to_a4 :: "bytes \<Rightarrow> bytes" where
  "a3_to_a4 a3 =
     [drop_bit 2 (a3 ! 0 AND 0xFC),
      push_bit 4 (a3 ! 0 AND 0x03) + drop_bit 4 (a3 ! 1 AND 0xF0),
      push_bit 2 (a3 ! 1 AND 0x0F) + drop_bit 6 (a3 ! 2 AND 0xC0),
      a3 ! 2 AND 0x3F]"

definition a4_to_a3 :: "bytes \<Rightarrow> bytes" where
  "a4_to_a3 a4 =
     [push_bit 2 (a4 ! 0) + drop_bit 4 (a4 ! 1 AND 0x30),
      push_bit 4 (a4 ! 1 AND 0x0F) + drop_bit 2 (a4 ! 2 AND 0x3C),
      push_bit 6 (a4 ! 2 AND 0x03) + a4 ! 3]"

definition b64_lookup :: "byte \<Rightarrow> byte" where
  "b64_lookup c =
     (if of_char CHR ''A'' \<le> c \<and> c \<le> of_char CHR ''Z'' then c - of_char CHR ''A''
      else if of_char CHR ''a'' \<le> c \<and> c \<le> of_char CHR ''z'' then c - 71
      else if of_char CHR ''0'' \<le> c \<and> c \<le> of_char CHR ''9'' then c + 4
      else if c = of_char CHR ''+'' then 62
      else if c = of_char CHR ''/'' then 63
      else 255)"

definition padding :: byte where "padding = of_char CHR ''=''"

text \<open>How a call ends: with a result, with false because the length is not the one computed before, with
the exception of a \<open>resize\<close> to a negative length, or not defined.\<close>

datatype b64_result = Converted bytes | Returns_False | Length_Error | Undefined

definition to_int :: "nat \<Rightarrow> int" where
  "to_int n = sint (word_of_nat n :: 32 word)"

definition int_range :: "int \<Rightarrow> bool" where
  "int_range i \<longleftrightarrow> - (2 ^ 31) \<le> i \<and> i < 2 ^ 31"

definition EncodedLength :: "nat \<Rightarrow> int" where
  "EncodedLength n = to_int ((n + 2 - (n + 2) mod 3) div 3 * 4)"

text \<open>Without a last character that is not padding the code reads before the string.\<close>

definition DecodedLength :: "bytes \<Rightarrow> int option" where
  "DecodedLength inp =
     (let n = to_int (length inp);
          numEq = int (length (takeWhile (\<lambda>c. c = padding) (rev inp)));
          len = 6 * n sdiv 8 - numEq
      in if (\<forall>c\<in>set inp. c = padding) \<or> \<not> int_range (6 * n) \<or> \<not> int_range numEq \<or> \<not> int_range len
         then None else Some len)"

text \<open>The result \<open>out\<close> was resized before to \<open>len\<close>.\<close>

definition finished :: "int \<Rightarrow> bytes \<Rightarrow> b64_result" where
  "finished len out = (if len < int (length out) then Undefined
     else if int (length out) = len then Converted out else Returns_False)"

fun encode_loop :: "bytes \<Rightarrow> bytes \<Rightarrow> bytes \<Rightarrow> bytes \<times> bytes" where
  "encode_loop a3 [] out = (a3, out)"
| "encode_loop a3 (c # input) out =
     (let a3 = a3 @ [c]
      in if length a3 = 3
         then encode_loop [] input (out @ map (\<lambda>v. kBase64Alphabet ! unat v) (a3_to_a4 a3))
         else encode_loop a3 input out)"

text \<open>The characters left over after the loop.\<close>

definition encode_tail :: "bytes \<times> bytes \<Rightarrow> bytes" where
  "encode_tail r =
     (let (a3, out) = r in
      if a3 = [] then out
      else let a4 = a3_to_a4 (a3 @ replicate (3 - length a3) 0)
           in out @ map (\<lambda>v. kBase64Alphabet ! unat v) (take (length a3 + 1) a4) @
              replicate (3 - length a3) padding)"

text \<open>A negative \<open>input_len\<close> is counted down until it does not fit any more.\<close>

definition Encode :: "bytes \<Rightarrow> b64_result" where
  "Encode inp =
     (let len = EncodedLength (length inp); input_len = to_int (length inp)
      in if len < 0 then Length_Error
         else if input_len < 0 then Undefined
         else finished len (encode_tail (encode_loop [] (take (nat input_len) inp) [])))"

fun decode_loop :: "bytes \<Rightarrow> bytes \<Rightarrow> bytes \<Rightarrow> bytes \<times> bytes" where
  "decode_loop a4 [] out = (a4, out)"
| "decode_loop a4 (c # input) out =
     (if c = padding then (a4, out)
      else let a4 = a4 @ [c]
           in if length a4 = 4
              then decode_loop [] input (out @ a4_to_a3 (map b64_lookup a4))
              else decode_loop a4 input out)"

definition decode_tail :: "bytes \<times> bytes \<Rightarrow> bytes" where
  "decode_tail r =
     (let (a4, out) = r in
      if a4 = [] then out
      else let a3 = a4_to_a3 (map b64_lookup (a4 @ replicate (4 - length a4) 0))
           in out @ take (length a4 - 1) a3)"

definition Decode :: "bytes \<Rightarrow> b64_result" where
  "Decode inp =
     (case DecodedLength inp of None \<Rightarrow> Undefined
      | Some len \<Rightarrow>
          let input_len = to_int (length inp);
              input = take (nat (if 0 \<le> input_len then input_len else 2 ^ 31 + input_len)) inp
          in if len < 0 then Length_Error
             else if input_len < 0 \<and> padding \<notin> set input then Undefined
             else finished len (decode_tail (decode_loop [] input [])))"

subsection \<open>Lengths\<close>

lemma length_alphabet [simp]: "length kBase64Alphabet = 64"
  by (simp add: kBase64Alphabet_def)

lemma encode_loop_3:
  "encode_loop [] (a # b # c # input) out =
    encode_loop [] input (out @ map (\<lambda>v. kBase64Alphabet ! unat v) (a3_to_a4 [a, b, c]))"
  by simp

lemma decode_loop_4:
  assumes "padding \<notin> {a, b, c, d}"
  shows "decode_loop [] (a # b # c # d # input) out =
    decode_loop [] input (out @ a4_to_a3 (map b64_lookup [a, b, c, d]))"
  using assms by (auto simp: Let_def)

subsection \<open>Codes\<close>

lemma alphabet_codes:
  "kBase64Alphabet =
    [65, 66, 67, 68, 69, 70, 71, 72, 73, 74, 75, 76, 77, 78, 79, 80, 81, 82, 83, 84, 85, 86, 
     87, 88, 89, 90, 97, 98, 99, 100, 101, 102, 103, 104, 105, 106, 107, 108, 109, 110, 111, 
     112, 113, 114, 115, 116, 117, 118, 119, 120, 121, 122, 48, 49, 50, 51, 52, 53, 54, 55, 56, 
     57, 43, 47]"
  by (simp add: kBase64Alphabet_def)

lemma lookup_codes:
  "b64_lookup c = (if 65 \<le> c \<and> c \<le> 90 then c - 65 else if 97 \<le> c \<and> c \<le> 122 then c - 71
    else if 48 \<le> c \<and> c \<le> 57 then c + 4 else if c = 43 then 62 else if c = 47 then 63 else 255)"
  by (simp add: b64_lookup_def)

lemma lookup_list:
  "map b64_lookup kBase64Alphabet =
    [0, 1, 2, 3, 4, 5, 6, 7, 8, 9, 10, 11, 12, 13, 14, 15, 16, 17, 18, 19, 20, 21, 22, 23, 24, 
     25, 26, 27, 28, 29, 30, 31, 32, 33, 34, 35, 36, 37, 38, 39, 40, 41, 42, 43, 44, 45, 46, 
     47, 48, 49, 50, 51, 52, 53, 54, 55, 56, 57, 58, 59, 60, 61, 62, 63]"
  by (simp add: alphabet_codes lookup_codes)

lemma upt_64:
  "map of_nat [0..<64] = [0, 1, 2, 3, 4, 5, 6, 7, 8, 9, 10, 11, 12, 13, 14, 15, 16, 17, 18, 19, 20, 21, 22, 23, 24, 
     25, 26, 27, 28, 29, 30, 31, 32, 33, 34, 35, 36, 37, 38, 39, 40, 41, 42, 43, 44, 45, 46, 
     47, 48, 49, 50, 51, 52, 53, 54, 55, 56, 57, 58, 59, 60, 61, 62, 63 :: byte]"
  by code_simp

lemma lookup_alphabet:
  assumes "v < 64"
  shows "b64_lookup (kBase64Alphabet ! unat v) = v" "kBase64Alphabet ! unat v \<noteq> padding"
proof -
  have i: "unat v < 64" using assms by (simp add: word_less_nat_alt)
  have "map b64_lookup kBase64Alphabet ! unat v = map of_nat [0..<64] ! unat v"
    by (simp only: lookup_list upt_64)
  then show "b64_lookup (kBase64Alphabet ! unat v) = v" using i by simp
  have "padding \<notin> set kBase64Alphabet" by (simp add: alphabet_codes padding_def)
  then show "kBase64Alphabet ! unat v \<noteq> padding" using i by (metis length_alphabet nth_mem)
qed

lemma disjoint_sums:
  "push_bit 4 (a AND 0x03) + drop_bit 4 (b AND 0xF0) = push_bit 4 (a AND 0x03) OR drop_bit 4 (b AND 0xF0 :: byte)"
  "push_bit 2 (b AND 0x0F) + drop_bit 6 (c AND 0xC0) = push_bit 2 (b AND 0x0F) OR drop_bit 6 (c AND 0xC0 :: byte)"
  by (rule disjunctive_add_eq_or, rule byte_eqI, simp only: byte_bit_simps, simp)+

lemma small_6: "v = v AND 0x3F \<Longrightarrow> v < (64 :: byte)"
proof -
  assume v: "v = v AND 0x3F"
  have "v AND 0x3F \<le> 0x3F" by (rule word_and_le1)
  then show ?thesis using v by (simp add: word_le_nat_alt word_less_nat_alt)
qed

lemma a3_to_a4_small: "\<forall>v\<in>set (a3_to_a4 [a, b, c]). v < 64"
proof -
  have "drop_bit 2 (a AND 0xFC) = drop_bit 2 (a AND 0xFC) AND 0x3F"
    "push_bit 4 (a AND 0x03) OR drop_bit 4 (b AND 0xF0) =
      (push_bit 4 (a AND 0x03) OR drop_bit 4 (b AND 0xF0)) AND 0x3F"
    "push_bit 2 (b AND 0x0F) OR drop_bit 6 (c AND 0xC0) =
      (push_bit 2 (b AND 0x0F) OR drop_bit 6 (c AND 0xC0)) AND 0x3F"
    "c AND 0x3F = (c AND 0x3F) AND 0x3F"
    by (rule byte_eqI, simp only: byte_bit_simps, simp)+
  note this [THEN small_6]
  then show ?thesis by (simp only: a3_to_a4_def nth_Cons_0 nth_Cons_numeral disjoint_sums) simp
qed

lemma a4_to_a3_sums:
  "push_bit 2 (drop_bit 2 (a AND 0xFC)) +
     drop_bit 4 ((push_bit 4 (a AND 0x03) OR drop_bit 4 (b AND 0xF0)) AND 0x30) = (a :: byte)"
  "push_bit 4 ((push_bit 4 (a AND 0x03) OR drop_bit 4 (b AND 0xF0)) AND 0x0F) +
     drop_bit 2 ((push_bit 2 (b AND 0x0F) OR drop_bit 6 (c AND 0xC0)) AND 0x3C) = (b :: byte)"
  "push_bit 6 ((push_bit 2 (b AND 0x0F) OR drop_bit 6 (c AND 0xC0)) AND 0x03) +
     (c AND 0x3F) = (c :: byte)"
proof -
  show "push_bit 2 (drop_bit 2 (a AND 0xFC)) +
     drop_bit 4 ((push_bit 4 (a AND 0x03) OR drop_bit 4 (b AND 0xF0)) AND 0x30) = (a :: byte)"
    by (subst disjunctive_add_eq_or, rule byte_eqI, simp only: byte_bit_simps, simp)
      (rule byte_eqI, simp only: byte_bit_simps, simp)
  show "push_bit 4 ((push_bit 4 (a AND 0x03) OR drop_bit 4 (b AND 0xF0)) AND 0x0F) +
     drop_bit 2 ((push_bit 2 (b AND 0x0F) OR drop_bit 6 (c AND 0xC0)) AND 0x3C) = (b :: byte)"
    by (subst disjunctive_add_eq_or, rule byte_eqI, simp only: byte_bit_simps, simp)
      (rule byte_eqI, simp only: byte_bit_simps, simp)
  show "push_bit 6 ((push_bit 2 (b AND 0x0F) OR drop_bit 6 (c AND 0xC0)) AND 0x03) +
     (c AND 0x3F) = (c :: byte)"
    by (subst disjunctive_add_eq_or, rule byte_eqI, simp only: byte_bit_simps, simp)
      (rule byte_eqI, simp only: byte_bit_simps, simp)
qed

lemma nth_lists:
  "[p, q, r] ! 0 = p" "[p, q, r] ! 1 = q" "[p, q, r] ! 2 = r"
  "[p, q, r, s] ! 0 = p" "[p, q, r, s] ! 1 = q" "[p, q, r, s] ! 2 = r" "[p, q, r, s] ! 3 = s"
  by simp_all

lemma a4_to_a3_quad:
  "a4_to_a3 (a3_to_a4 [a, b, c]) = [a, b, c]"
  "a4_to_a3 [a3_to_a4 [a, b, c] ! 0, a3_to_a4 [a, b, c] ! 1, x, y] ! 0 = a"
  "a4_to_a3 [a3_to_a4 [a, b, c] ! 0, a3_to_a4 [a, b, c] ! 1, a3_to_a4 [a, b, c] ! 2, y] ! 0 = a"
  "a4_to_a3 [a3_to_a4 [a, b, c] ! 0, a3_to_a4 [a, b, c] ! 1, a3_to_a4 [a, b, c] ! 2, y] ! 1 = b"
  by (simp_all only: a4_to_a3_def a3_to_a4_def nth_lists disjoint_sums a4_to_a3_sums)

text \<open>The text in groups.\<close>

definition quad :: "byte \<Rightarrow> byte \<Rightarrow> byte \<Rightarrow> bytes" where
  "quad a b c = map (\<lambda>v. kBase64Alphabet ! unat v) (a3_to_a4 [a, b, c])"

fun groups :: "bytes \<Rightarrow> bytes" where
  "groups [] = []"
| "groups [a] = take 2 (quad a 0 0) @ [padding, padding]"
| "groups [a, b] = take 3 (quad a b 0) @ [padding]"
| "groups (a # b # c # r) = quad a b c @ groups r"

lemma quad_list: "\<exists>w x y z. quad a b c = [w, x, y, z] \<and> padding \<notin> {w, x, y, z} \<and>
    map b64_lookup [w, x, y, z] = a3_to_a4 [a, b, c]"
proof -
  obtain p q r s where a4: "a3_to_a4 [a, b, c] = [p, q, r, s]" by (simp add: a3_to_a4_def)
  have "p < 64" "q < 64" "r < 64" "s < 64" using a3_to_a4_small [of a b c] by (simp_all add: a4)
  then show ?thesis using lookup_alphabet by (simp add: quad_def a4) metis
qed

lemma encode_groups: "encode_tail (encode_loop [] inp out) = out @ groups inp"
proof (induction inp arbitrary: out rule: groups.induct)
  case (4 a b c r)
  then show ?case unfolding encode_loop_3 groups.simps quad_def by simp
qed (simp_all add: encode_tail_def quad_def take_map numeral_eq_Suc)

lemma take_1_a3: "take 1 (a4_to_a3 l) = [a4_to_a3 l ! 0]"
  and take_2_a3: "take 2 (a4_to_a3 l) = [a4_to_a3 l ! 0, a4_to_a3 l ! 1]"
  by (simp_all add: a4_to_a3_def numeral_eq_Suc)

lemma decode_groups: "decode_tail (decode_loop [] (groups inp) out) = out @ inp"
proof (induction inp arbitrary: out rule: groups.induct)
  case (4 a b c r)
  obtain w x y z where q: "quad a b c = [w, x, y, z]" "padding \<notin> {w, x, y, z}"
    "map b64_lookup [w, x, y, z] = a3_to_a4 [a, b, c]" using quad_list by metis
  have "decode_loop [] (groups (a # b # c # r)) out = decode_loop [] (groups r) (out @ [a, b, c])"
    unfolding groups.simps q(1) append.simps decode_loop_4 [OF q(2)] q(3) a4_to_a3_quad(1) ..
  then show ?case using 4 [of "out @ [a, b, c]"] by simp
next
  case (2 a)
  obtain w x y z where q: "quad a 0 0 = [w, x, y, z]" "padding \<notin> {w, x, y, z}"
    "map b64_lookup [w, x, y, z] = a3_to_a4 [a, 0, 0]" using quad_list by metis
  have l: "b64_lookup w = a3_to_a4 [a, 0, 0] ! 0" "b64_lookup x = a3_to_a4 [a, 0, 0] ! 1"
    by (simp_all flip: q(3))
  have "groups [a] = [w, x, padding, padding]" by (simp add: q(1) numeral_eq_Suc)
  moreover have "take 1 (a4_to_a3 (map b64_lookup [w, x, 0, 0])) = [a]"
    unfolding take_1_a3 list.map l a4_to_a3_quad ..
  moreover have "decode_loop [] [w, x, padding, padding] out = ([w, x], out)"
    using q(2) by (auto simp: Let_def)
  moreover have "[w, x] @ replicate (4 - length [w, x]) 0 = [w, x, 0, 0]" "length [w, x] - 1 = 1"
    by (simp_all add: numeral_eq_Suc)
  ultimately show ?case by (simp only: decode_tail_def prod.case Let_def list.distinct if_False)
next
  case (3 a b)
  obtain w x y z where q: "quad a b 0 = [w, x, y, z]" "padding \<notin> {w, x, y, z}"
    "map b64_lookup [w, x, y, z] = a3_to_a4 [a, b, 0]" using quad_list by metis
  have l: "b64_lookup w = a3_to_a4 [a, b, 0] ! 0" "b64_lookup x = a3_to_a4 [a, b, 0] ! 1"
    "b64_lookup y = a3_to_a4 [a, b, 0] ! 2"
    by (simp_all flip: q(3))
  have "groups [a, b] = [w, x, y, padding]" by (simp add: q(1) numeral_eq_Suc)
  moreover have "take 2 (a4_to_a3 (map b64_lookup [w, x, y, 0])) = [a, b]"
    unfolding take_2_a3 list.map l a4_to_a3_quad ..
  moreover have "decode_loop [] [w, x, y, padding] out = ([w, x, y], out)"
    using q(2) by (auto simp: Let_def)
  moreover have "[w, x, y] @ replicate (4 - length [w, x, y]) 0 = [w, x, y, 0]" "length [w, x, y] - 1 = 2"
    by (simp_all add: numeral_eq_Suc)
  ultimately show ?case by (simp only: decode_tail_def prod.case Let_def list.distinct if_False)
qed (simp add: decode_tail_def)


subsection \<open>The round trip\<close>

lemma encoded_bounds:
  "n \<le> 1610612733 \<Longrightarrow> (n + 2) div 3 * 4 < (2 ^ 31 :: nat)"
  "n < 2 ^ 28 \<Longrightarrow> (n + 2) div 3 * 4 \<le> (357913940 :: nat)"
  "2 ^ 28 \<le> n \<Longrightarrow> (357913942 :: nat) \<le> (n + 2) div 3 * 4"
proof -
  have p: "(2 ^ 31 :: nat) = 2147483648" "(2 ^ 28 :: nat) = 268435456" by simp_all
  show "n \<le> 1610612733 \<Longrightarrow> (n + 2) div 3 * 4 < (2 ^ 31 :: nat)" unfolding p by presburger
  show "n < 2 ^ 28 \<Longrightarrow> (n + 2) div 3 * 4 \<le> (357913940 :: nat)" unfolding p by presburger
  show "2 ^ 28 \<le> n \<Longrightarrow> (357913942 :: nat) \<le> (n + 2) div 3 * 4" unfolding p by presburger
qed

lemma to_int_small: "n < 2 ^ 31 \<Longrightarrow> to_int n = int n"
  unfolding to_int_def by (subst signed_of_nat) (simp add: signed_take_bit_int_eq_self)

lemma length_quad: "length (quad a b c) = 4"
  by (simp add: quad_def a3_to_a4_def)

lemma length_groups: "length (groups inp) = (length inp + 2) div 3 * 4"
proof (induction inp rule: groups.induct)
  case (4 a b c r)
  obtain w x y z where q: "quad a b c = [w, x, y, z]" using quad_list by metis
  have "length (groups (a # b # c # r)) = 4 + (length r + 2) div 3 * 4"
    using 4 by (simp add: q)
  also have "\<dots> = (length r + 2 + 3) div 3 * 4"
    by (simp only: div_add_self2) simp
  also have "length r + 2 + 3 = length (a # b # c # r) + 2" by simp
  finally show ?case .
qed (simp_all add: length_quad)

text \<open>The text of a string of up to about 1.6 GB has a length that fits.\<close>

lemma Encode_groups:
  assumes "length inp \<le> 1610612733"
  shows "Encode inp = Converted (groups inp)"
proof -
  have fits: "length (groups inp) < 2 ^ 31"
    unfolding length_groups using assms by (rule encoded_bounds)
  then have "EncodedLength (length inp) = int (length (groups inp))"
    by (simp add: EncodedLength_def length_groups minus_mod_eq_div_mult to_int_small)
  then show ?thesis
    using encode_groups [of inp "[]"] assms by (simp add: Encode_def finished_def to_int_small Let_def)
qed

definition pads :: "bytes \<Rightarrow> nat" where
  "pads l = length (takeWhile (\<lambda>c. c = padding) (rev l))"

lemma pads_append: "\<not> (\<forall>c\<in>set r. c = padding) \<Longrightarrow> pads (l @ r) = pads r"
  by (auto simp: pads_def)

lemma groups_padding:
  "inp \<noteq> [] \<Longrightarrow> \<not> (\<forall>c\<in>set (groups inp). c = padding) \<and>
    6 * length (groups inp) div 8 = length inp + pads (groups inp)"
proof (induction inp rule: groups.induct)
  case (2 a)
  obtain w x y z where q: "quad a 0 0 = [w, x, y, z]" "padding \<notin> {w, x, y, z}"
    using quad_list by metis
  then have "groups [a] = [w, x, padding, padding]" by (simp add: numeral_eq_Suc)
  then show ?case using q(2) by (auto simp: pads_def)
next
  case (3 a b)
  obtain w x y z where q: "quad a b 0 = [w, x, y, z]" "padding \<notin> {w, x, y, z}"
    using quad_list by metis
  then have "groups [a, b] = [w, x, y, padding]" by (simp add: numeral_eq_Suc)
  then show ?case using q(2) by (auto simp: pads_def)
next
  case (4 a b c r)
  obtain w x y z where q: "quad a b c = [w, x, y, z]" "padding \<notin> {w, x, y, z}"
    using quad_list by metis
  show ?case
  proof (cases "r = []")
    case True
    then show ?thesis using q by (auto simp: pads_def)
  next
    case False
    then show ?thesis using 4 q pads_append [of "groups r" "quad a b c"] by auto
  qed
qed simp

lemma DecodedLength_groups:
  assumes "inp \<noteq> []" and "length inp < 2 ^ 28"
  shows "DecodedLength (groups inp) = Some (int (length inp))"
proof -
  have small: "length (groups inp) \<le> 357913940"
    unfolding length_groups using assms(2) by (rule encoded_bounds)
  have pads: "6 * length (groups inp) div 8 = length inp + pads (groups inp)"
    "\<not> (\<forall>c\<in>set (groups inp). c = padding)"
    using groups_padding [OF assms(1)] by auto
  have "6 * int (length (groups inp)) sdiv 8 = int (6 * length (groups inp) div 8)"
    by (cases "groups inp = []") (simp_all add: signed_divide_int_def zdiv_int)
  moreover have "pads (groups inp) \<le> length (groups inp)"
    unfolding pads_def by (metis length_rev length_takeWhile_le)
  ultimately show ?thesis
    using small assms(2) pads
    by (simp add: DecodedLength_def to_int_small int_range_def Let_def flip: pads_def)
qed

text \<open>C34: a string of less than 256 MiB is encoded, and decoding its text gives the string back, unless
  it is empty: decoding the empty text is not defined, as it reads before the text. The bound is
  exact up to the \<open>int\<close> in which \<open>DecodedLength\<close> computes six times the length of the text.\<close>

theorem base64_roundtrip:
  assumes "length inp < 2 ^ 28"
  shows "\<exists>text. Encode inp = Converted text \<and> int (length text) = EncodedLength (length inp) \<and>
    Decode text = (if inp = [] then Undefined else Converted inp)"
proof (intro exI conjI)
  show "Encode inp = Converted (groups inp)" using assms by (intro Encode_groups) simp
  have small: "length (groups inp) \<le> 357913940" unfolding length_groups using assms by (rule encoded_bounds)
  then show "int (length (groups inp)) = EncodedLength (length inp)"
    by (simp add: EncodedLength_def length_groups minus_mod_eq_div_mult to_int_small)
  show "Decode (groups inp) = (if inp = [] then Undefined else Converted inp)"
    using decode_groups [of inp "[]"] DecodedLength_groups [OF _ assms] small
    by (auto simp: Decode_def finished_def to_int_small Let_def DecodedLength_def)
qed

theorem base64_roundtrip_witness:
  "\<exists>text. Encode [0x4D, 0x61, 0x6E, 0xFF] = Converted text \<and> Decode text = Converted [0x4D, 0x61, 0x6E, 0xFF]"
  using base64_roundtrip [of "[0x4D, 0x61, 0x6E, 0xFF]"] by auto

text \<open>Beyond it decoding is not defined, although encoding is.\<close>

lemma decode_overflows:
  assumes "2 ^ 28 \<le> length inp" and "length inp \<le> 1610612733"
  shows "Encode inp = Converted (groups inp) \<and> Decode (groups inp) = Undefined"
proof -
  have "length (groups inp) < 2 ^ 31" "357913942 \<le> length (groups inp)"
    unfolding length_groups using encoded_bounds assms by blast+
  then show ?thesis
    using Encode_groups [OF assms(2)] by (simp add: Decode_def DecodedLength_def int_range_def to_int_small Let_def)
qed

end
