(* ===== verification/Publish.thy ===== *)
theory Publish
  imports Flv_Message Base64
begin

text \<open>
  The publisher, \<open>publish_to_streamer.cpp\<close>: the frames of a context are posted over HTTP, after a
  request that begins the publication and one that describes the tracks, and a request ends it.

  The HTTP client is not part of the repository: \<open>server\<close> gives the response to a request after the
  exchanges so far, \<open>None\<close> when \<open>SendAndReceive\<close> returns false. \<open>doc\<close> stands for the JSON library:
  the string members of a text, \<open>None\<close> when it does not parse. Every function returns its \<open>ec\<close> and
  the exchanges with its own ones appended.

  Shown: the frames are posted in the order in which they were queued, none twice and none left
  out; the numbers in their paths are consecutive; the requests come in the order of the
  protocol; a server that accepts gets exactly the requests that are due, up to every frame that
  waits, and the end; and what is queued after the end is not sent.
\<close>

subsection \<open>Requests\<close>

record http_request =
  req_method :: bytes
  req_url :: bytes
  req_content_type :: "bytes option"
  req_body :: bytes

record http_response =
  status_code :: int
  response_body :: bytes

type_synonym exchange = "http_request \<times> http_response option"
type_synonym server = "exchange list \<Rightarrow> http_request \<Rightarrow> http_response option"
type_synonym json = "bytes \<Rightarrow> (bytes \<rightharpoonup> bytes) option"

text \<open>Both headers \<open>HOST\<close> and \<open>User-Agent\<close> are \<open>flv-es-uploader\<close> in every request.\<close>

definition newline :: bytes where "newline = [0x0A]"

definition octet_stream :: bytes where "octet_stream = ascii ''application/octet-stream''"
definition application_json :: bytes where "application_json = ascii ''application/json''"

definition begin_json :: "es_context \<Rightarrow> bytes" where \<open>
  begin_json context =
    (let name = es_stream_name context; flag = (if recording context = 1 then ascii ''Y'' else ascii ''N'')
     in ascii ''{'' @ newline @
        ascii ''    "filename" : "'' @ name @ ascii ''", "assetId" : "'' @ name @
        ascii ''", "title" : "'' @ name @ ascii ''", '' @ newline @
        ascii ''    "provider": "'' @ provider context @ ascii ''", "type" : "'' @ ascii ''Video'' @
        ascii ''", "recording" : "'' @ flag @ ascii ''"'' @ newline @ ascii ''  }'')\<close>

definition begin_request :: "es_context \<Rightarrow> http_request" where
  "begin_request context = \<lparr> req_method = ascii ''POST'',
     req_url = ascii ''http://'' @ publish_live_addr_port context @ publish_live_uri context,
     req_content_type = Some application_json, req_body = begin_json context \<rparr>"

definition init_json :: "bytes \<Rightarrow> bytes \<Rightarrow> bytes" where \<open>
  init_json avc aac =
    ascii ''{'' @ newline @ ascii ''      "tracks" : ['' @ newline @
    ascii ''        {"trackId" : 1, "trackType" : "video", "timescale" : 90000, "codec": "h264", "codecInfo" : "'' @
    avc @ ascii ''"},'' @ newline @
    ascii ''        {"trackId" : 2, "trackType" : "audio", "timescale" : 90000, "codec": "aac", "codecInfo" : "'' @
    aac @ ascii ''"}'' @ newline @ ascii ''      ]'' @ newline @ ascii ''  }''\<close>

definition init_request :: "es_context \<Rightarrow> bytes \<Rightarrow> bytes \<Rightarrow> http_request" where
  "init_request context avc aac = \<lparr> req_method = ascii ''POST'',
     req_url = ascii ''http://'' @ publish_es_addr_port context @ ascii ''/publish/es/'' @
       publish_id context @ ascii ''/init'',
     req_content_type = Some application_json, req_body = init_json avc aac \<rparr>"

definition es_body :: "media_es \<Rightarrow> bytes" where
  "es_body es = take (unat (es_size es)) (es_data es)"

definition es_request :: "es_context \<Rightarrow> media_es \<Rightarrow> http_request" where
  "es_request context es = \<lparr> req_method = ascii ''POST'',
     req_url = ascii ''http://'' @ publish_es_addr_port context @ ascii ''/publish/es/'' @
       publish_id context @ ascii ''/'' @ decimal (unat (es_frame_number es)),
     req_content_type = Some octet_stream,
     req_body = to_vector_8 (track_id es) @ to_vector_8 (is_key_frame es) @ to_vector_64 (pts es) @
       to_vector_64 (dts es) @ to_vector_32 (es_size es) @ es_body es \<rparr>"

definition end_request :: "es_context \<Rightarrow> http_request" where
  "end_request context = \<lparr> req_method = ascii ''DELETE'',
     req_url = ascii ''http://'' @ publish_live_addr_port context @ publish_live_uri context @
       ascii ''/'' @ publish_id context,
     req_content_type = None, req_body = [] \<rparr>"

subsection \<open>Calls\<close>

text \<open>The error code of an exchange: \<open>failed\<close> when there is no response, the status when it is not
  in the range of success, else 0.\<close>

definition response_error :: "int \<Rightarrow> http_response option \<Rightarrow> int" where
  "response_error failed res = (case res of None \<Rightarrow> failed
     | Some r \<Rightarrow> if status_code r < 200 \<or> status_code r \<ge> 300 then status_code r else 0)"

definition begin_publish ::
  "server \<Rightarrow> json \<Rightarrow> es_context \<Rightarrow> exchange list \<Rightarrow> int \<times> bytes \<times> bytes \<times> exchange list" where
  "begin_publish server doc context log =
     (let req = begin_request context; res = server log req; log = log @ [(req, res)]
      in case res of
           None \<Rightarrow> (-1, [], [], log)
         | Some r \<Rightarrow>
             if status_code r < 200 \<or> status_code r \<ge> 300 then (status_code r, [], [], log)
             else case doc (response_body r) of
                None \<Rightarrow> (1, [], [], log)
              | Some members \<Rightarrow>
                  (case members (ascii ''id'') of None \<Rightarrow> (2, [], [], log)
                   | Some upload_id \<Rightarrow>
                       (case members (ascii ''publishAddr'') of None \<Rightarrow> (3, [], [], log)
                        | Some publish_addr \<Rightarrow> (0, upload_id, publish_addr, log))))"

text \<open>\<open>Encode\<close> ends in another way than with a result or false only for a codec information of more than
1.6 GB; it is a part of one message, which has less than 16 MB. These ways are put together with false.\<close>

definition init_publish :: "server \<Rightarrow> es_context \<Rightarrow> exchange list \<Rightarrow> int \<times> exchange list" where
  "init_publish server context log =
     (case Encode (video_codec_info (video_init_es context)) of
        Converted avc \<Rightarrow>
          (case Encode (audio_codec_info (audio_init_es context)) of
             Converted aac \<Rightarrow>
               let req = init_request context avc aac; res = server log req
               in (response_error 1 res, log @ [(req, res)])
           | _ \<Rightarrow> (3, log))
      | _ \<Rightarrow> (3, log))"

definition publish_es :: "server \<Rightarrow> es_context \<Rightarrow> exchange list \<Rightarrow> int \<times> exchange list" where
  "publish_es server context log =
     (case media_es_list context of
        [] \<Rightarrow> (0, log)
      | es # _ \<Rightarrow>
          if es_body es = [] then (0, log)
          else let req = es_request context es; res = server log req
               in (response_error 1 res, log @ [(req, res)]))"

definition end_publish :: "server \<Rightarrow> es_context \<Rightarrow> exchange list \<Rightarrow> int \<times> exchange list" where
  "end_publish server context log =
     (let req = end_request context; res = server log req
      in (response_error (-1) res, log @ [(req, res)]))"

text \<open>The loop over the frames; whether it ran to its end.\<close>

function publish_frames ::
  "server \<Rightarrow> es_context \<Rightarrow> exchange list \<Rightarrow> bool \<times> es_context \<times> exchange list" where
  "publish_frames server context log =
     (if publish_state context = Publishing \<and> media_es_list context \<noteq> []
      then let (ec, log) = publish_es server context log
           in if ec \<noteq> 0 then (False, context, log)
              else publish_frames server
                     (context \<lparr> media_es_list := tl (media_es_list context) \<rparr>) log
      else (True, context, log))"
  by pat_completeness auto
termination by (relation "measure (\<lambda>(s, c, l). length (media_es_list c))") auto

declare publish_frames.simps [simp del]

text \<open>The three stages of \<open>publish_to_streamer\<close>; the first component is false after a \<open>return\<close>.\<close>

definition begin_stage ::
  "server \<Rightarrow> json \<Rightarrow> es_context \<Rightarrow> exchange list \<Rightarrow> bool \<times> es_context \<times> exchange list" where
  "begin_stage server doc context log =
     (if publish_state context = Begin
      then let (ec, upload_id, publish_addr, log) = begin_publish server doc context log
           in if ec \<noteq> 0 then (False, context, log)
              else (True, context \<lparr> publish_id := upload_id, publish_es_addr_port := publish_addr,
                      publish_state := Init \<rparr>, log)
      else (True, context, log))"

definition init_stage ::
  "server \<Rightarrow> es_context \<Rightarrow> exchange list \<Rightarrow> bool \<times> es_context \<times> exchange list" where
  "init_stage server context log =
     (if publish_state context = Init \<and> ready_to_send context
      then let (ec, log) = init_publish server context log
           in if ec \<noteq> 0 then (False, context, log)
              else (True, context \<lparr> publish_state := Publishing \<rparr>, log)
      else (True, context, log))"

definition end_stage :: "server \<Rightarrow> es_context \<Rightarrow> exchange list \<Rightarrow> es_context \<times> exchange list" where
  "end_stage server context log =
     (if media_es_list context = [] \<and> (ready_to_end_of_stream context \<or> end_of_video_es context)
      then let (ec, log) = end_publish server context log
           in if ec \<noteq> 0 then (context, log) else (context \<lparr> publish_state := End \<rparr>, log)
      else (context, log))"

definition publish_to_streamer ::
  "server \<Rightarrow> json \<Rightarrow> es_context \<Rightarrow> exchange list \<Rightarrow> es_context \<times> exchange list" where
  "publish_to_streamer server doc context log =
     (let (go, context, log) = begin_stage server doc context log
      in if \<not> go then (context, log)
         else let (go, context, log) = init_stage server context log
              in if \<not> go then (context, log)
                 else let (go, context, log) = publish_frames server context log
                      in if \<not> go then (context, log) else end_stage server context log)"

text \<open>The same after a message of the client.\<close>

definition publish_message ::
  "server \<Rightarrow> json \<Rightarrow> es_context \<Rightarrow> exchange list \<Rightarrow> byte \<Rightarrow> u64 \<Rightarrow> bytes \<Rightarrow>
    (es_context \<times> exchange list) access" where
  "publish_message server doc context log message_type time data =
     bind_access (process_flv_es_message context message_type time data) (\<lambda>(ret, context).
       Ok (if ret then publish_to_streamer server doc context log else (context, log)))"

subsection \<open>Runs of a publisher\<close>

text \<open>
  The exchanges of a context and the frames queued so far: the messages of the client, the changes
  that the connection and its handler make to a context, and the publication of what is left at a
  disconnect.
\<close>

inductive publishing :: "server \<Rightarrow> json \<Rightarrow> es_context \<Rightarrow> exchange list \<Rightarrow> media_es list \<Rightarrow> bool"
  for server doc where
  start: "publishing server doc new_es_context [] []"
| message: "publishing server doc c log q \<Longrightarrow> process_flv_es_message c type time data = Ok (r, c1) \<Longrightarrow>
    publish_message server doc c log type time data = Ok (c2, log2) \<Longrightarrow>
    publishing server doc c2 log2 (q @ drop (length (media_es_list c)) (media_es_list c1))"
| handler: "publishing server doc c log q \<Longrightarrow>
    publishing server doc (c \<lparr> provider := p, es_stream_name := n, es_stream_type := t,
      es_client_id := i, es_stream_id := s, ready_to_end_of_stream := b, record_flv_context := f,
      peer_epoch_timestamp := e, base_timestamp := bt \<rparr>) log q"
| disconnect: "publishing server doc c log q \<Longrightarrow>
    publish_to_streamer server doc (c \<lparr> ready_to_end_of_stream := True \<rparr>) log = (c2, log2) \<Longrightarrow>
    publishing server doc c2 log2 q"

text \<open>The frame requests that were accepted.\<close>

definition accepted_es :: "exchange list \<Rightarrow> http_request list" where
  "accepted_es log = map fst (filter (\<lambda>(req, res).
     req_content_type req = Some octet_stream \<and> response_error 1 res = 0) log)"

abbreviation frames_to_send :: "es_context \<Rightarrow> media_es list \<Rightarrow> http_request list" where
  "frames_to_send c ess \<equiv> map (es_request c) (filter (\<lambda>es. es_body es \<noteq> []) ess)"

lemma accepted_es_simps [simp]:
  "accepted_es [] = []" "accepted_es (l @ l') = accepted_es l @ accepted_es l'"
  by (simp_all add: accepted_es_def)

lemma octet_not_json [simp]: "octet_stream \<noteq> application_json" "application_json \<noteq> octet_stream"
  by (simp_all add: octet_stream_def application_json_def ascii_def)

lemma accepted_es_other [simp]:
  "accepted_es [(begin_request c, res)] = []" "accepted_es [(init_request c avc aac, res)] = []"
  "accepted_es [(end_request c, res)] = []"
  "accepted_es [(es_request c es, res)] = (if response_error 1 res = 0 then [es_request c es] else [])"
  by (simp_all add: accepted_es_def begin_request_def init_request_def end_request_def es_request_def)

lemma es_request_cong:
  "publish_id c' = publish_id c \<Longrightarrow> publish_es_addr_port c' = publish_es_addr_port c \<Longrightarrow>
    es_request c' = es_request c"
  by (rule ext) (simp add: es_request_def)

text \<open>What the stages do to the context.\<close>

lemma begin_publish_log:
  "begin_publish server doc c log = (ec, i, a, log') \<Longrightarrow>
    log' = log @ [(begin_request c, server log (begin_request c))]"
  by (simp add: begin_publish_def Let_def split: if_splits option.splits)

lemma init_publish_log:
  "init_publish server c log = (ec, log') \<Longrightarrow> (log' = log \<and> ec \<noteq> 0) \<or>
    (\<exists>avc aac res. log' = log @ [(init_request c avc aac, res)] \<and> ec = response_error 1 res)"
  unfolding init_publish_def Let_def by (auto split: b64_result.splits)

lemma end_publish_log:
  "end_publish server c log = (ec, log') \<Longrightarrow>
    \<exists>res. log' = log @ [(end_request c, res)] \<and> ec = response_error (-1) res"
  unfolding end_publish_def Let_def by blast

lemma begin_stage_cases:
  assumes "begin_stage server doc c log = (go, c', log')"
  obtains (skip) "publish_state c \<noteq> Begin" "go" "c' = c" "log' = log"
    | (fail) res where "publish_state c = Begin" "\<not> go" "c' = c" "log' = log @ [(begin_request c, res)]"
    | (ok) i a res where "publish_state c = Begin" "go" "log' = log @ [(begin_request c, res)]"
        "c' = c \<lparr> publish_id := i, publish_es_addr_port := a, publish_state := Init \<rparr>"
proof (cases "publish_state c = Begin")
  case False
  then have "go" "c' = c" "log' = log"
    using assms by (simp_all only: begin_stage_def if_False prod.inject simp_thms)
  then show thesis using False by (intro skip)
next
  case True
  obtain ec i a log1 where p: "begin_publish server doc c log = (ec, i, a, log1)"
    by (rule prod_cases4)
  have r: "(go, c', log') = (if ec \<noteq> 0 then (False, c, log1) else (True, c \<lparr> publish_id := i,
      publish_es_addr_port := a, publish_state := Init \<rparr>, log1))"
    using assms True p by (simp add: begin_stage_def)
  show thesis
  proof (cases "ec = 0")
    case ec: True
    then show thesis using r True begin_publish_log [OF p] by (intro ok) simp_all
  next
    case ec: False
    then show thesis using r True begin_publish_log [OF p] by (intro fail) simp_all
  qed
qed

lemma init_stage_cases:
  assumes "init_stage server c log = (go, c', log')"
  obtains (skip) "\<not> (publish_state c = Init \<and> ready_to_send c)" "go" "c' = c" "log' = log"
    | (fail) ex where "publish_state c = Init" "\<not> go" "c' = c" "log' = log @ ex"
        "ex = [] \<or> (\<exists>avc aac res. ex = [(init_request c avc aac, res)])"
    | (ok) avc aac res where "publish_state c = Init" "go" "response_error 1 res = 0"
        "log' = log @ [(init_request c avc aac, res)]" "c' = c \<lparr> publish_state := Publishing \<rparr>"
proof (cases "publish_state c = Init \<and> ready_to_send c")
  case False
  then have "go" "c' = c" "log' = log"
    using assms by (simp_all only: init_stage_def if_False prod.inject simp_thms)
  then show thesis using False by (intro skip)
next
  case True
  obtain ec log1 where p: "init_publish server c log = (ec, log1)" by fastforce
  then have r: "(go, c', log') = (if ec \<noteq> 0 then (False, c, log1)
      else (True, c \<lparr> publish_state := Publishing \<rparr>, log1))"
    using assms True by (simp add: init_stage_def)
  from init_publish_log [OF p] show thesis
  proof (elim disjE exE conjE)
    assume "log1 = log" "ec \<noteq> 0"
    then show thesis using r True by (intro fail [of "[]"]) simp_all
  next
    fix avc aac res assume "log1 = log @ [(init_request c avc aac, res)]" "ec = response_error 1 res"
    then show thesis
      using r True fail [of "[(init_request c avc aac, res)]"] ok [of res avc aac]
      by (cases "ec = 0") (simp_all, blast)
  qed
qed

lemma end_stage_cases:
  assumes "end_stage server c log = (c', log')"
  obtains (skip) "c' = c" "log' = log"
    | (fail) res where "media_es_list c = []" "c' = c" "log' = log @ [(end_request c, res)]"
    | (ok) res where "media_es_list c = []" "response_error (-1) res = 0"
        "c' = c \<lparr> publish_state := End \<rparr>" "log' = log @ [(end_request c, res)]"
proof (cases "media_es_list c = [] \<and> (ready_to_end_of_stream c \<or> end_of_video_es c)")
  case False
  then have "c' = c" "log' = log"
    using assms by (simp_all only: end_stage_def if_False prod.inject simp_thms)
  then show thesis using False by (intro skip)
next
  case True
  obtain ec log1 where p: "end_publish server c log = (ec, log1)" by fastforce
  from end_publish_log [OF p] obtain res where
    res: "log1 = log @ [(end_request c, res)]" "ec = response_error (-1) res" by blast
  have "(c', log') = (if ec \<noteq> 0 then (c, log1) else (c \<lparr> publish_state := End \<rparr>, log1))"
    using assms True p by (simp add: end_stage_def)
  then show thesis using True res fail ok by (cases "ec = 0") simp_all
qed

lemma publish_es_log:
  assumes "publish_es server c log = (ec, log')" "media_es_list c = es # rest"
  shows "\<exists>ex. log' = log @ ex \<and> (\<forall>x\<in>set ex. fst x = es_request c es) \<and>
    accepted_es ex = (if ec = 0 then frames_to_send c [es] else [])"
proof (cases "es_body es = []")
  case True
  then show ?thesis using assms by (intro exI [of _ "[]"]) (simp add: publish_es_def)
next
  case False
  then show ?thesis
    using assms by (intro exI [of _ "[(es_request c es, server log (es_request c es))]"])
      (auto simp: publish_es_def Let_def)
qed

lemma publish_frames_run:
  assumes "publish_frames server c log = (go, c', log')"
  shows "\<exists>sent rest ex. media_es_list c = sent @ rest \<and> c' = c \<lparr> media_es_list := rest \<rparr> \<and>
    log' = log @ ex \<and> accepted_es ex = frames_to_send c sent \<and>
    (sent \<noteq> [] \<longrightarrow> publish_state c = Publishing) \<and>
    (\<forall>x\<in>set ex. publish_state c = Publishing \<and> (\<exists>es. fst x = es_request c es))"
  using assms
proof (induction server c log arbitrary: go c' log' rule: publish_frames.induct)
  case (1 server c log)
  show ?case
  proof (cases "publish_state c = Publishing \<and> media_es_list c \<noteq> []")
    case False
    then have "c' = c" "log' = log"
      using 1(2) by (subst (asm) publish_frames.simps, simp)+
    then show ?thesis by (intro exI [of _ "[]"] exI [of _ "media_es_list c"]) simp
  next
    case True
    then obtain es rest where l: "media_es_list c = es # rest" by (cases "media_es_list c") auto
    obtain ec log1 where p: "publish_es server c log = (ec, log1)" by fastforce
    let ?c = "c \<lparr> media_es_list := rest \<rparr>"
    have req: "es_request ?c = es_request c" by (rule es_request_cong) simp_all
    from publish_es_log [OF p l] obtain ex where ex: "log1 = log @ ex"
      "\<forall>x\<in>set ex. fst x = es_request c es" "accepted_es ex = (if ec = 0 then frames_to_send c [es] else [])"
      by auto
    show ?thesis
    proof (cases "ec = 0")
      case False
      then have "c' = c" "log' = log1"
        using 1(2) True p by (subst (asm) publish_frames.simps, simp)+
      then show ?thesis
        using ex False True by (intro exI [of _ "[]"] exI [of _ "media_es_list c"] exI [of _ ex]) auto
    next
      case ok: True
      then have run: "publish_frames server ?c log1 = (go, c', log')"
        using 1(2) True p l by (subst (asm) publish_frames.simps) simp
      have "media_es_list ?c = rest" by simp
      note IH = 1(1) [OF True p [symmetric] refl _ run [folded l [THEN arg_cong, of tl, simplified]],
        unfolded l list.sel this req]
      obtain sent rest' ex' where IH: "rest = sent @ rest'" "c' = ?c \<lparr> media_es_list := rest' \<rparr>"
        "log' = log1 @ ex'" "accepted_es ex' = frames_to_send c sent"
        "\<forall>x\<in>set ex'. publish_state ?c = Publishing \<and> (\<exists>es. fst x = es_request c es)"
        using IH ok by blast
      have "media_es_list c = (es # sent) @ rest'" using l IH(1) by simp
      moreover have "c' = c \<lparr> media_es_list := rest' \<rparr>" using IH(2) by simp
      moreover have "log' = log @ (ex @ ex')" using IH(3) ex(1) by simp
      moreover have "accepted_es (ex @ ex') = frames_to_send c (es # sent)"
        using ex(3) IH(4) ok by simp
      moreover have "\<forall>x\<in>set (ex @ ex'). publish_state c = Publishing \<and> (\<exists>es. fst x = es_request c es)"
        using ex(2) IH(5) True by (metis Un_iff set_append)
      ultimately show ?thesis using True by (intro exI conjI impI) auto
    qed
  qed
qed


text \<open>What every stage keeps, \<open>publish_to_streamer\<close> keeps.\<close>

lemma publish_to_streamer_keeps:
  assumes run: "publish_to_streamer server doc c log = (c', log')" and start: "P c log"
    and b: "\<And>c log go c' log'. P c log \<Longrightarrow> begin_stage server doc c log = (go, c', log') \<Longrightarrow> P c' log'"
    and i: "\<And>c log go c' log'. P c log \<Longrightarrow> init_stage server c log = (go, c', log') \<Longrightarrow> P c' log'"
    and f: "\<And>c log go c' log'. P c log \<Longrightarrow> publish_frames server c log = (go, c', log') \<Longrightarrow> P c' log'"
    and e: "\<And>c log c' log'. P c log \<Longrightarrow> end_stage server c log = (c', log') \<Longrightarrow> P c' log'"
  shows "P c' log'"
proof -
  obtain g1 c1 l1 where 1: "begin_stage server doc c log = (g1, c1, l1)" by (rule prod_cases3)
  obtain g2 c2 l2 where 2: "init_stage server c1 l1 = (g2, c2, l2)" by (rule prod_cases3)
  obtain g3 c3 l3 where 3: "publish_frames server c2 l2 = (g3, c3, l3)" by (rule prod_cases3)
  obtain c4 l4 where 4: "end_stage server c3 l3 = (c4, l4)" by fastforce
  have P1: "P c1 l1" using b [OF start 1] .
  have P2: "P c2 l2" using i [OF P1 2] .
  have P3: "P c3 l3" using f [OF P2 3] .
  have P4: "P c4 l4" using e [OF P3 4] .
  have "(c', log') = (if \<not> g1 then (c1, l1) else if \<not> g2 then (c2, l2) else if \<not> g3 then (c3, l3)
      else (c4, l4))"
    using run unfolding publish_to_streamer_def by (simp add: 1 2 3 4 split: if_splits)
  then show ?thesis using P1 P2 P3 P4 by (simp split: if_splits)
qed

lemma publish_message_keeps:
  assumes "publish_message server doc c log type time data = Ok (c', log')"
    and "process_flv_es_message c type time data = Ok (r, c1)" and "P c1 log"
    and "\<And>c' log'. publish_to_streamer server doc c1 log = (c', log') \<Longrightarrow> P c' log'"
  shows "P c' log'"
  using assms by (cases r) (auto simp: publish_message_def)

lemma process_keeps_publication:
  assumes "process_flv_es_message c type time data = Ok (r, c')"
  shows "publish_id c' = publish_id c \<and> publish_es_addr_port c' = publish_es_addr_port c \<and>
    publish_state c' = publish_state c"
proof -
  have q: "queue_video c es key p d = (r, c') \<Longrightarrow> ?thesis" for es key p d r
    by (cases "key = 1 \<or> first_video_key_frame_sent c") (auto simp: queue_video_key queue_video_inter)
  have "process_audio_config c data = Ok (r, c') \<Longrightarrow> ?thesis"
    "process_audio_es c time data = Ok (r, c') \<Longrightarrow> ?thesis"
    "process_video_config c data = Ok (r, c') \<Longrightarrow> ?thesis"
    "process_video_es c time data = Ok (r, c') \<Longrightarrow> ?thesis"
    "process_video_eos c data = Ok (r, c') \<Longrightarrow> ?thesis"
    subgoal by (auto simp: process_audio_config_def try_access_Ok set_audio_config_def)
    subgoal by (auto simp: process_audio_es_def frame_simps)
    subgoal by (auto simp: process_video_config_def try_access_Ok set_video_config_def)
    subgoal using q by (auto simp: process_video_es_def try_access_Ok bind_access_Ok Let_def)
    subgoal by (auto simp: process_video_eos_def bind_access_Ok)
    done
  then show ?thesis
    using assms by (auto simp: process_flv_es_message_def try_access_Ok bind_access_Ok split: if_splits)
qed

lemma queued_by_append:
  "queued_by c c' \<Longrightarrow>
    media_es_list c' = media_es_list c @ drop (length (media_es_list c)) (media_es_list c')"
  by (auto simp: queued_by_def)

subsection \<open>Order of the frames\<close>

definition frames_accounted :: "media_es list \<Rightarrow> es_context \<Rightarrow> exchange list \<Rightarrow> bool" where
  "frames_accounted q c log \<longleftrightarrow> (\<exists>sent. q = sent @ media_es_list c \<and>
     accepted_es log = frames_to_send c sent \<and> (publish_state c = Begin \<longrightarrow> sent = []))"

lemma frames_accounted_cong:
  assumes "frames_accounted q c log" "media_es_list c' = media_es_list c" "publish_id c' = publish_id c"
    "publish_es_addr_port c' = publish_es_addr_port c" "publish_state c' = Begin \<longrightarrow> publish_state c = Begin"
    "accepted_es log' = accepted_es log"
  shows "frames_accounted q c' log'"
  using assms es_request_cong [OF assms(3,4)] unfolding frames_accounted_def by metis

lemma frames_accounted_publish:
  assumes "publish_to_streamer server doc c log = (c', log')" "frames_accounted q c log"
  shows "frames_accounted q c' log'"
  using assms
proof (rule publish_to_streamer_keeps)
  fix c log go c' log'
  assume P: "frames_accounted q c log"
  show "frames_accounted q c' log'" if b: "begin_stage server doc c log = (go, c', log')"
    using b
  proof (cases rule: begin_stage_cases)
    case (ok i a res)
    then show ?thesis using P unfolding frames_accounted_def by auto
  qed (use P in \<open>auto intro: frames_accounted_cong\<close>)
  show "frames_accounted q c' log'" if i: "init_stage server c log = (go, c', log')"
    using i
  proof (cases rule: init_stage_cases)
    case (fail ex)
    then show ?thesis using P by (auto intro: frames_accounted_cong)
  qed (use P in \<open>auto intro: frames_accounted_cong\<close>)
  show "frames_accounted q c' log'" if f: "publish_frames server c log = (go, c', log')"
  proof -
    obtain done' rest ex where r: "media_es_list c = done' @ rest" "c' = c \<lparr> media_es_list := rest \<rparr>"
      "log' = log @ ex" "accepted_es ex = frames_to_send c done'"
      "done' \<noteq> [] \<longrightarrow> publish_state c = Publishing"
      using publish_frames_run [OF f] by blast
    obtain sent where s: "q = sent @ media_es_list c" "accepted_es log = frames_to_send c sent"
      "publish_state c = Begin \<longrightarrow> sent = []"
      using P unfolding frames_accounted_def by blast
    have "es_request c' = es_request c" by (rule es_request_cong) (simp_all add: r)
    then show ?thesis
      unfolding frames_accounted_def using r s by (intro exI [of _ "sent @ done'"]) auto
  qed
next
  fix c log c' log'
  assume P: "frames_accounted q c log" and e: "end_stage server c log = (c', log')"
  from e show "frames_accounted q c' log'"
    by (cases rule: end_stage_cases) (use P in \<open>auto intro: frames_accounted_cong\<close>)
qed


lemma frames_accounted_run:
  "publishing server doc c log q \<Longrightarrow> frames_accounted q c log"
proof (induction rule: publishing.induct)
  case start
  then show ?case by (simp add: frames_accounted_def new_es_context_def)
next
  case (message c log q type time data r c1 c2 log2)
  let ?q = "q @ drop (length (media_es_list c)) (media_es_list c1)"
  obtain sent where s: "q = sent @ media_es_list c" "accepted_es log = frames_to_send c sent"
      "publish_state c = Begin \<longrightarrow> sent = []"
    using message.IH unfolding frames_accounted_def by blast
  have st: "publish_state c1 = publish_state c" and req: "es_request c1 = es_request c"
    using process_keeps_publication [OF message(2)] es_request_cong [of c1 c] by simp_all
  have "?q = sent @ media_es_list c1"
    using queued_by_append [OF process_queued [OF message(2)]] s(1) by simp
  then have acc: "frames_accounted ?q c1 log"
    unfolding frames_accounted_def using st req s(2,3) by (intro exI [of _ sent]) simp
  show ?case
    by (rule publish_message_keeps [OF message(3,2), where P = "frames_accounted ?q", OF acc])
      (rule frames_accounted_publish [OF _ acc])
next
  case (handler c log q p n t i s b f e bt)
  then show ?case by (auto intro: frames_accounted_cong)
next
  case (disconnect c log q c2 log2)
  then show ?case by (intro frames_accounted_publish [OF disconnect(2)]) (auto intro: frames_accounted_cong)
qed

text \<open>C7: the frame requests that were accepted are, in order, those of the frames that were queued,
  up to the frames that still wait: no frame is posted twice, out of order, or lost. Only frames
  without data are passed over.\<close>

theorem frames_in_order:
  assumes "publishing server doc c log q"
  shows "\<exists>sent. q = sent @ media_es_list c \<and> accepted_es log = frames_to_send c sent"
  using frames_accounted_run [OF assms] by (auto simp: frames_accounted_def)


text \<open>A run: a key frame and the requests that it causes.\<close>

definition all_ok :: server where
  "all_ok log req = Some \<lparr> status_code = 200, response_body = [] \<rparr>"

definition id_doc :: json where
  "id_doc text = Some [ascii ''id'' \<mapsto> ascii ''7'', ascii ''publishAddr'' \<mapsto> ascii ''h:80'']"

lemma publish_run_example:
  "\<exists>c log q. publishing all_ok id_doc c log q \<and> length q = 1"
proof -
  let ?c = "new_es_context" and ?body = "0x17 # 1 # 0 # 0 # 40 # mp4_units [[0x65]]"
  obtain c1 where p: "process_flv_es_message ?c FLV_VIDEO_ES 0 ?body = Ok (True, c1)"
    "length (media_es_list c1) = 1"
  proof -
    have "process_nalu_ok": "0x17 AND 0x0F = FLV_AVC" "drop_bit 4 (0x17 AND 0xF0) = (1 :: byte)"
      by code_simp+
    then show thesis
      using that by (auto simp: process_nalu process_video_es_def get_video_nalu queue_video_key
        start_codes_of_units new_es_context_def Let_def simp del: unit_lists)
  qed
  obtain c2 log2 where m: "publish_message all_ok id_doc ?c [] FLV_VIDEO_ES 0 ?body = Ok (c2, log2)"
    by (cases "publish_to_streamer all_ok id_doc c1 []") (simp add: publish_message_def p(1) del: unit_lists)
  from publishing.message [OF publishing.start p(1) m] show ?thesis
    using p(2) by (intro exI conjI) (auto simp: new_es_context_def)
qed

theorem frames_in_order_witness:
  "\<exists>c log q sent. length q = 1 \<and> q = sent @ media_es_list c \<and> accepted_es log = frames_to_send c sent"
proof -
  obtain c log q where "publishing all_ok id_doc c log q" "length q = 1"
    using publish_run_example by blast
  with frames_in_order [OF this(1)] show ?thesis by blast
qed

subsection \<open>Numbers of the frames\<close>

definition numbered_from_1 :: "media_es list \<Rightarrow> es_context \<Rightarrow> bool" where
  "numbered_from_1 q c \<longleftrightarrow>
     map es_frame_number q = map (\<lambda>i. of_nat (i + 1)) [0..<length q] \<and> frame_number c = of_nat (length q)"

lemma frame_number_publish:
  assumes "publish_to_streamer server doc c log = (c', log')"
  shows "frame_number c' = frame_number c"
  using assms
proof (rule publish_to_streamer_keeps [where P = "\<lambda>c' log. frame_number c' = frame_number c"])
  fix c1 :: es_context and log go c' log'
  assume P: "frame_number c1 = frame_number c"
  show "begin_stage server doc c1 log = (go, c', log') \<Longrightarrow> frame_number c' = frame_number c"
    by (cases rule: begin_stage_cases, assumption) (simp_all add: P)
  show "init_stage server c1 log = (go, c', log') \<Longrightarrow> frame_number c' = frame_number c"
    by (cases rule: init_stage_cases, assumption) (simp_all add: P)
  show "publish_frames server c1 log = (go, c', log') \<Longrightarrow> frame_number c' = frame_number c"
    using publish_frames_run [of server c1 log go c' log'] P by auto
next
  fix c1 :: es_context and log c' log'
  assume P: "frame_number c1 = frame_number c"
  show "end_stage server c1 log = (c', log') \<Longrightarrow> frame_number c' = frame_number c"
    by (cases rule: end_stage_cases, assumption) (simp_all add: P)
qed simp

lemma numbered_run:
  "publishing server doc c log q \<Longrightarrow> numbered_from_1 q c"
proof (induction rule: publishing.induct)
  case start
  then show ?case by (simp add: numbered_from_1_def new_es_context_def)
next
  case (message c log q type time data r c1 c2 log2)
  let ?new = "drop (length (media_es_list c)) (media_es_list c1)"
  have "numbered_from_1 (q @ ?new) c1"
  proof -
    have "queued_by c c1" using process_queued [OF message(2)] .
    then consider "?new = []" "frame_number c1 = frame_number c"
      | es where "?new = [es]" "es_frame_number es = frame_number c + 1"
        "frame_number c1 = frame_number c + 1"
      by (auto simp: queued_by_def)
    then show ?thesis
      using message.IH by cases (simp_all add: numbered_from_1_def algebra_simps)
  qed
  then show ?case
    using publish_message_keeps [OF message(3,2), where P = "\<lambda>c log. numbered_from_1 (q @ ?new) c"]
      frame_number_publish by (simp add: numbered_from_1_def)
next
  case (handler c log q p n t i s b f e bt)
  then show ?case by (simp add: numbered_from_1_def)
next
  case (disconnect c log q c2 log2)
  then show ?case using frame_number_publish [OF disconnect(2)] by (simp add: numbered_from_1_def)
qed

text \<open>The frames of a publisher are numbered from 1 without gaps, in the order in which they are
  queued, and so are the numbers in the paths of their requests; the counter of the context is the
  number of the last one.\<close>

theorem frames_numbered_from_1:
  assumes "publishing server doc c log q"
  shows "map es_frame_number q = map (\<lambda>i. of_nat (i + 1)) [0..<length q] \<and>
    frame_number c = of_nat (length q)"
  using numbered_run [OF assms] by (simp add: numbered_from_1_def)

theorem frames_numbered_from_1_witness:
  "\<exists>c log q. length q = 1 \<and> publishing all_ok id_doc c log q \<and> map es_frame_number q = [1] \<and>
    frame_number c = 1"
proof -
  obtain c log q where "publishing all_ok id_doc c log q" "length q = 1"
    using publish_run_example by blast
  moreover from this have "map es_frame_number q = [1]" "frame_number c = 1"
    using frames_numbered_from_1 [of all_ok id_doc c log q] by simp_all
  ultimately show ?thesis by (intro exI conjI)
qed


subsection \<open>The protocol\<close>

text \<open>
  The abstract protocol: what the exchanges of a publisher may be in each state. Requests to begin
  are repeated until one is accepted, then requests to initialise; frames are posted only after
  that; a request to end may come whenever a publication was begun.
\<close>

inductive protocol :: "publish_state_t \<Rightarrow> exchange list \<Rightarrow> bool" where
  nothing: "protocol Begin []"
| begin_failed: "protocol Begin log \<Longrightarrow> protocol Begin (log @ [(begin_request c, res)])"
| begun: "protocol Begin log \<Longrightarrow> protocol Init (log @ [(begin_request c, res)])"
| init_failed: "protocol Init log \<Longrightarrow> protocol Init (log @ [(init_request c avc aac, res)])"
| inited: "protocol Init log \<Longrightarrow> response_error 1 res = 0 \<Longrightarrow>
    protocol Publishing (log @ [(init_request c avc aac, res)])"
| posted: "protocol Publishing log \<Longrightarrow> protocol Publishing (log @ [(es_request c es, res)])"
| end_failed: "protocol s log \<Longrightarrow> s \<noteq> Begin \<Longrightarrow> protocol s (log @ [(end_request c, res)])"
| ended: "protocol s log \<Longrightarrow> s \<noteq> Begin \<Longrightarrow> response_error (-1) res = 0 \<Longrightarrow>
    protocol End (log @ [(end_request c, res)])"

lemma posted_all:
  "protocol Publishing log \<Longrightarrow> \<forall>x\<in>set ex. \<exists>es. fst x = es_request c es \<Longrightarrow>
    protocol Publishing (log @ ex)"
proof (induction ex rule: rev_induct)
  case (snoc x ex)
  then obtain es where "x = (es_request c es, snd x)" by (metis last_in_set last_snoc prod.collapse snoc_eq_iff_butlast)
  moreover have "protocol Publishing (log @ ex)" using snoc by simp
  ultimately show ?case using protocol.posted [of "log @ ex" c es "snd x"] by simp
qed simp

text \<open>No stage but the first runs in the state \<open>Begin\<close>, for the first one returns unless it leaves it.\<close>

lemma publish_stages:
  assumes "publish_to_streamer server doc c log = (c', log')"
  obtains "begin_stage server doc c log = (False, c', log')"
    | c1 l1 where "begin_stage server doc c log = (True, c1, l1)"
        "init_stage server c1 l1 = (False, c', log')"
    | c1 l1 c2 l2 where "begin_stage server doc c log = (True, c1, l1)"
        "init_stage server c1 l1 = (True, c2, l2)" "publish_frames server c2 l2 = (False, c', log')"
    | c1 l1 c2 l2 c3 l3 where "begin_stage server doc c log = (True, c1, l1)"
        "init_stage server c1 l1 = (True, c2, l2)" "publish_frames server c2 l2 = (True, c3, l3)"
        "end_stage server c3 l3 = (c', log')"
  using assms unfolding publish_to_streamer_def
  by (auto split: prod.splits if_splits)

lemma protocol_stages:
  assumes "protocol (publish_state c) log"
  shows "begin_stage server doc c log = (go, c', log') \<Longrightarrow> protocol (publish_state c') log' \<and>
      (go \<longrightarrow> publish_state c' \<noteq> Begin)"
    and "init_stage server c log = (go, c', log') \<Longrightarrow> protocol (publish_state c') log' \<and>
      (publish_state c \<noteq> Begin \<longrightarrow> publish_state c' \<noteq> Begin)"
    and "publish_frames server c log = (go, c', log') \<Longrightarrow> protocol (publish_state c') log' \<and>
      publish_state c' = publish_state c"
    and "end_stage server c log = (c', log') \<Longrightarrow> publish_state c \<noteq> Begin \<Longrightarrow> protocol (publish_state c') log'"
proof -
  show "protocol (publish_state c') log' \<and> (go \<longrightarrow> publish_state c' \<noteq> Begin)"
    if "begin_stage server doc c log = (go, c', log')"
    using that by (cases rule: begin_stage_cases)
      (use assms in \<open>auto intro: protocol.begin_failed protocol.begun\<close>)
  show "protocol (publish_state c') log' \<and> (publish_state c \<noteq> Begin \<longrightarrow> publish_state c' \<noteq> Begin)"
    if "init_stage server c log = (go, c', log')"
    using that by (cases rule: init_stage_cases)
      (use assms in \<open>auto intro: protocol.init_failed protocol.inited\<close>)
  show "protocol (publish_state c') log' \<and> publish_state c' = publish_state c"
    if f: "publish_frames server c log = (go, c', log')"
  proof -
    obtain sent rest ex where r: "c' = c \<lparr> media_es_list := rest \<rparr>" "log' = log @ ex"
      "\<forall>x\<in>set ex. publish_state c = Publishing \<and> (\<exists>es. fst x = es_request c es)"
      using publish_frames_run [OF f] by blast
    show ?thesis
    proof (cases "ex = []")
      case True
      then show ?thesis using r assms by simp
    next
      case False
      then have "publish_state c = Publishing" using r(3) by (meson last_in_set)
      then show ?thesis using r assms posted_all [of log ex c] by auto
    qed
  qed
  show "protocol (publish_state c') log'" if "end_stage server c log = (c', log')" "publish_state c \<noteq> Begin"
    using that(1) by (cases rule: end_stage_cases)
      (use assms that(2) in \<open>auto intro: protocol.end_failed protocol.ended\<close>)
qed

lemma protocol_publish:
  assumes "publish_to_streamer server doc c log = (c', log')" "protocol (publish_state c) log"
  shows "protocol (publish_state c') log'"
  using assms(1)
proof (cases rule: publish_stages)
  case 1
  then show ?thesis using protocol_stages(1) [OF assms(2)] by blast
next
  case (2 c1 l1)
  then show ?thesis using protocol_stages(1) [OF assms(2) 2(1)] protocol_stages(2) by blast
next
  case (3 c1 l1 c2 l2)
  then show ?thesis
    using protocol_stages(1) [OF assms(2) 3(1)] protocol_stages(2) protocol_stages(3) by blast
next
  case (4 c1 l1 c2 l2 c3 l3)
  have p1: "protocol (publish_state c1) l1" "publish_state c1 \<noteq> Begin"
    using protocol_stages(1) [OF assms(2) 4(1)] by simp_all
  have p2: "protocol (publish_state c2) l2" "publish_state c2 \<noteq> Begin"
    using protocol_stages(2) [OF p1(1) 4(2)] p1(2) by simp_all
  have p3: "protocol (publish_state c3) l3" "publish_state c3 \<noteq> Begin"
    using protocol_stages(3) [OF p2(1) 4(3)] p2(2) by metis+
  show ?thesis using protocol_stages(4) [OF p3(1) 4(4) p3(2)] .
qed

text \<open>C8: the exchanges of a publisher follow the protocol, in the state that its context records:
  nothing is posted before the publication was begun and its tracks were accepted, and no frame is
  posted after it ended.\<close>

theorem publisher_follows_protocol:
  assumes "publishing server doc c log q"
  shows "protocol (publish_state c) log"
  using assms
proof (induction rule: publishing.induct)
  case start
  then show ?case by (simp add: new_es_context_def protocol.nothing)
next
  case (message c log q type time data r c1 c2 log2)
  have "protocol (publish_state c1) log"
    using message.IH process_keeps_publication [OF message(2)] by simp
  then show ?case
    using publish_message_keeps [OF message(3,2), where P = "\<lambda>c log. protocol (publish_state c) log"]
      protocol_publish by blast
next
  case (handler c log q p n t i s b f e bt)
  then show ?case by simp
next
  case (disconnect c log q c2 log2)
  then show ?case using protocol_publish [OF disconnect(2)] by simp
qed

theorem publisher_follows_protocol_witness:
  "\<exists>c log q. publishing all_ok id_doc c log q \<and> length q = 1 \<and> protocol (publish_state c) log"
proof -
  obtain c log q where "publishing all_ok id_doc c log q" "length q = 1"
    using publish_run_example by blast
  with publisher_follows_protocol [OF this(1)] show ?thesis by blast
qed


subsection \<open>Delivery and the end\<close>

text \<open>A server that accepts every request, and names the publication when it begins.\<close>

definition accepting :: "server \<Rightarrow> json \<Rightarrow> bool" where
  "accepting server doc \<longleftrightarrow> (\<forall>log req. \<exists>r i a m. server log req = Some r \<and> 200 \<le> status_code r \<and>
     status_code r < 300 \<and> doc (response_body r) = Some m \<and> m (ascii ''id'') = Some i \<and>
     m (ascii ''publishAddr'') = Some a)"

lemma accepting_error:
  assumes "accepting server doc"
  shows "response_error e (server log req) = 0"
proof -
  obtain r where "server log req = Some r" "200 \<le> status_code r" "status_code r < 300"
    using assms unfolding accepting_def by metis
  then show ?thesis by (simp add: response_error_def)
qed

lemma accepting_begin:
  assumes "accepting server doc"
  shows "\<exists>i a. begin_stage server doc c log = (True,
    if publish_state c = Begin then c \<lparr> publish_id := i, publish_es_addr_port := a, publish_state := Init \<rparr>
    else c, if publish_state c = Begin then log @ [(begin_request c, server log (begin_request c))] else log)"
proof -
  obtain r i a m where "server log (begin_request c) = Some r" "200 \<le> status_code r"
    "status_code r < 300" "doc (response_body r) = Some m" "m (ascii ''id'') = Some i"
    "m (ascii ''publishAddr'') = Some a"
    using assms unfolding accepting_def by metis
  then show ?thesis
    by (intro exI [of _ i] exI [of _ a]) (simp add: begin_stage_def begin_publish_def Let_def)
qed

text \<open>A codec information whose text has a length that fits (\<open>Encode_groups\<close>).\<close>

definition encodable :: "es_context \<Rightarrow> bool" where
  "encodable c \<longleftrightarrow> length (video_codec_info (video_init_es c)) \<le> 1610612733 \<and>
     length (audio_codec_info (audio_init_es c)) \<le> 1610612733"

abbreviation all_accepted :: "exchange list \<Rightarrow> bool" where
  "all_accepted ex \<equiv> \<forall>x\<in>set ex. response_error 1 (snd x) = 0"

lemma accepting_init:
  assumes "accepting server doc" "publish_state c = Init" "ready_to_send c" "encodable c"
  shows "\<exists>avc aac ex. init_stage server c log = (True, c \<lparr> publish_state := Publishing \<rparr>, log @ ex) \<and>
    Encode (video_codec_info (video_init_es c)) = Converted avc \<and>
    Encode (audio_codec_info (audio_init_es c)) = Converted aac \<and>
    map fst ex = [init_request c avc aac] \<and> all_accepted ex"
proof -
  obtain avc aac where "Encode (video_codec_info (video_init_es c)) = Converted avc"
    "Encode (audio_codec_info (audio_init_es c)) = Converted aac"
    using Encode_groups assms(4) unfolding encodable_def by blast
  then show ?thesis
    using assms(2,3) accepting_error [OF assms(1)]
    by (intro exI [of _ avc] exI [of _ aac]
        exI [of _ "[(init_request c avc aac, server log (init_request c avc aac))]"])
      (simp add: init_stage_def init_publish_def Let_def)
qed

lemma accepting_frames:
  assumes "accepting server doc" "publish_state c = Publishing"
  shows "\<exists>ex. publish_frames server c log = (True, c \<lparr> media_es_list := [] \<rparr>, log @ ex) \<and>
    map fst ex = frames_to_send c (media_es_list c) \<and> all_accepted ex"
  using assms(2)
proof (induction "media_es_list c" arbitrary: c log)
  case Nil
  then show ?case by (subst publish_frames.simps) (simp add: Nil(1) [symmetric])
next
  case (Cons es rest)
  have l: "media_es_list c = es # rest" using Cons(2) by simp
  let ?c = "c \<lparr> media_es_list := rest \<rparr>"
  have same: "es_request ?c = es_request c" by (rule es_request_cong) simp_all
  obtain ex1 where p: "publish_es server c log = (0, log @ ex1)"
    "map fst ex1 = frames_to_send c [es]" "all_accepted ex1"
    using accepting_error [OF assms(1)] by (cases "es_body es = []") (auto simp: publish_es_def l Let_def)
  obtain ex2 where "publish_frames server ?c (log @ ex1) = (True, ?c \<lparr> media_es_list := [] \<rparr>, (log @ ex1) @ ex2)"
    "map fst ex2 = frames_to_send c rest" "all_accepted ex2"
    using Cons(1) [of ?c "log @ ex1"] Cons(3) by (auto simp: same)
  then show ?case
    using p by (subst publish_frames.simps, intro exI [of _ "ex1 @ ex2"]) (auto simp: Cons(3) l)
qed

text \<open>The condition for the end of a publication.\<close>

abbreviation to_end :: "es_context \<Rightarrow> bool" where
  "to_end c \<equiv> ready_to_end_of_stream c \<or> end_of_video_es c"

lemma accepting_end:
  assumes "accepting server doc" "media_es_list c = []"
  shows "\<exists>ex. end_stage server c log = (if to_end c then c \<lparr> publish_state := End \<rparr> else c, log @ ex) \<and>
    map fst ex = (if to_end c then [end_request c] else []) \<and> all_accepted ex"
proof (cases "to_end c")
  case True
  then show ?thesis
    using assms(2) accepting_error [OF assms(1)]
    by (intro exI [of _ "[(end_request c, server log (end_request c))]"])
      (simp add: end_stage_def end_publish_def Let_def)
next
  case False
  then show ?thesis by (intro exI [of _ "[]"]) (simp add: end_stage_def)
qed

text \<open>C9: with a server that accepts every request, a publisher that has not ended and whose
  configurations and first frames have arrived sends everything, in one call. The requests that it
  sends are, in this order and with no others between them: the one that begins the publication, if
  that is still to do; the one that describes the tracks, with both configurations in Base64, if
  that is still to do; the frames that wait, in their order; and the one that ends the publication,
  if the end was signalled. All are accepted, no frame waits any more, and the state is the end
  or open for further frames.\<close>

theorem everything_published:
  assumes "accepting server doc" and "publish_state c \<noteq> End"
    and "publish_state c = Publishing \<or> ready_to_send c" and "encodable c"
  shows "\<exists>c' ex avc aac. publish_to_streamer server doc c log = (c', log @ ex) \<and> all_accepted ex \<and>
    map fst ex = (if publish_state c = Begin then [begin_request c] else []) @
      (if publish_state c = Publishing then [] else [init_request c' avc aac]) @
      frames_to_send c' (media_es_list c) @ (if to_end c then [end_request c'] else []) \<and>
    Encode (video_codec_info (video_init_es c)) = Converted avc \<and>
    Encode (audio_codec_info (audio_init_es c)) = Converted aac \<and>
    media_es_list c' = [] \<and> publish_state c' = (if to_end c then End else Publishing)"
proof -
  obtain i a where b: "begin_stage server doc c log = (True, if publish_state c = Begin
      then c \<lparr> publish_id := i, publish_es_addr_port := a, publish_state := Init \<rparr> else c,
      if publish_state c = Begin then log @ [(begin_request c, server log (begin_request c))] else log)"
    using accepting_begin [OF assms(1)] by blast
  define c1 where "c1 = (if publish_state c = Begin
      then c \<lparr> publish_id := i, publish_es_addr_port := a, publish_state := Init \<rparr> else c)"
  define ex1 where "ex1 = (if publish_state c = Begin then [(begin_request c, server log (begin_request c))] else [])"
  have b: "begin_stage server doc c log = (True, c1, log @ ex1)" by (simp add: b c1_def ex1_def)
  have c1: "publish_state c1 = (if publish_state c = Publishing then Publishing else Init)"
    "to_end c1 = to_end c" "media_es_list c1 = media_es_list c" "ready_to_send c1 = ready_to_send c"
    "video_init_es c1 = video_init_es c" "audio_init_es c1 = audio_init_es c" "encodable c1"
    using assms(2,4)
    by (cases "publish_state c"; simp add: c1_def ready_to_send_def end_of_video_es_def encodable_def)+
  let ?c2 = "c1 \<lparr> publish_state := Publishing \<rparr>"
  obtain avc aac where codes: "Encode (video_codec_info (video_init_es c)) = Converted avc"
    "Encode (audio_codec_info (audio_init_es c)) = Converted aac"
    using Encode_groups assms(4) unfolding encodable_def by blast
  obtain ex2 where init: "init_stage server c1 (log @ ex1) = (True, ?c2, (log @ ex1) @ ex2)"
    "map fst ex2 = (if publish_state c = Publishing then [] else [init_request c1 avc aac])" "all_accepted ex2"
  proof (cases "publish_state c = Publishing")
    case True
    then have "?c2 = c1" using c1(1) by simp
    then show thesis using that [of "[]"] True c1(1) by (simp add: init_stage_def)
  next
    case False
    then show thesis
      using that accepting_init [OF assms(1), of c1 "log @ ex1"] assms(3) c1(1,4-7) codes by auto
  qed
  obtain ex3 where frames: "publish_frames server ?c2 ((log @ ex1) @ ex2) =
      (True, ?c2 \<lparr> media_es_list := [] \<rparr>, ((log @ ex1) @ ex2) @ ex3)"
    "map fst ex3 = frames_to_send ?c2 (media_es_list c)" "all_accepted ex3"
    using accepting_frames [OF assms(1), of ?c2 "(log @ ex1) @ ex2"] c1(3) by auto
  let ?c3 = "?c2 \<lparr> media_es_list := [] \<rparr>"
  have ends: "to_end ?c3 = to_end c" using c1(2) by (simp add: end_of_video_es_def)
  define c' where "c' = (if to_end c then ?c3 \<lparr> publish_state := End \<rparr> else ?c3)"
  obtain ex4 where ending: "end_stage server ?c3 (((log @ ex1) @ ex2) @ ex3) = (c', (((log @ ex1) @ ex2) @ ex3) @ ex4)"
    "map fst ex4 = (if to_end c then [end_request ?c3] else [])" "all_accepted ex4"
    using accepting_end [OF assms(1), of ?c3 "((log @ ex1) @ ex2) @ ex3"] unfolding ends c'_def by auto
  have "es_request c' = es_request ?c2" by (rule es_request_cong) (simp_all add: c'_def)
  then have "map fst ex3 = frames_to_send c' (media_es_list c)" using frames(2) by simp
  moreover have "init_request c' = init_request c1" "end_request c' = end_request ?c3"
    by (simp_all add: c'_def init_request_def end_request_def fun_eq_iff)
  moreover have "map fst ex1 = (if publish_state c = Begin then [begin_request c] else [])" by (simp add: ex1_def)
  ultimately have requests: "map fst (ex1 @ ex2 @ ex3 @ ex4) =
      (if publish_state c = Begin then [begin_request c] else []) @
      (if publish_state c = Publishing then [] else [init_request c' avc aac]) @
      frames_to_send c' (media_es_list c) @ (if to_end c then [end_request c'] else [])"
    using init(2) ending(2) by (simp only: map_append)
  have "all_accepted ex1" using accepting_error [OF assms(1)] by (simp add: ex1_def)
  then have accepted: "all_accepted (ex1 @ ex2 @ ex3 @ ex4)"
    using init(3) frames(3) ending(3) by (simp only: set_append ball_Un)
  have "publish_to_streamer server doc c log = (c', log @ ex1 @ ex2 @ ex3 @ ex4)"
    using b init(1) frames(1) ending(1) by (simp add: publish_to_streamer_def)
  moreover have "media_es_list c' = []" "publish_state c' = (if to_end c then End else Publishing)"
    by (simp_all add: c'_def)
  ultimately show ?thesis using requests accepted codes by (intro exI conjI)
qed

text \<open>A publisher with a frame that waits and the end signalled.\<close>

definition last_frame :: media_es where
  "last_frame = \<lparr> es_type = Video, es_frame_number = 1, track_id = 1, is_key_frame = 1, pts = 0, dts = 0,
     es_size = 2, es_data = [0x65, 0] \<rparr>"

theorem everything_published_witness:
  "\<exists>c' ex. publish_to_streamer all_ok id_doc (new_es_context \<lparr> publish_state := Publishing,
      ready_to_end_of_stream := True, media_es_list := [last_frame] \<rparr>) [] = (c', ex) \<and>
    map fst ex = [es_request c' last_frame, end_request c'] \<and> media_es_list c' = [] \<and> publish_state c' = End"
proof -
  let ?c = "new_es_context \<lparr> publish_state := Publishing, ready_to_end_of_stream := True, media_es_list := [last_frame] \<rparr>"
  have "accepting all_ok id_doc"
    by (simp add: accepting_def all_ok_def id_doc_def ascii_def)
  moreover have "encodable ?c" by (simp add: encodable_def new_es_context_def)
  ultimately obtain c' ex where "publish_to_streamer all_ok id_doc ?c [] = (c', [] @ ex)"
    "map fst ex = frames_to_send c' [last_frame] @ [end_request c']" "media_es_list c' = []" "publish_state c' = End"
    using everything_published [of all_ok id_doc ?c "[]"] by auto
  then show ?thesis by (intro exI [of _ c'] exI [of _ ex]) (simp add: last_frame_def es_body_def)
qed

text \<open>Once the publication has ended, frames are not posted any more, however many wait, and
  nothing begins it anew; only the request to end is sent again, whenever no frame waits.\<close>

theorem nothing_after_end:
  assumes "publish_state c = End"
  shows "publish_to_streamer server doc c log = (c,
    if media_es_list c = [] \<and> (ready_to_end_of_stream c \<or> end_of_video_es c)
    then log @ [(end_request c, server log (end_request c))] else log)"
proof -
  have "c \<lparr> publish_state := End \<rparr> = c" using assms by simp
  then show ?thesis
    using assms by (subst publish_to_streamer_def)
      (simp add: begin_stage_def init_stage_def publish_frames.simps end_stage_def end_publish_def Let_def)
qed

theorem nothing_after_end_witness:
  "publish_to_streamer all_ok id_doc (new_es_context \<lparr> publish_state := End \<rparr>) [] =
    (new_es_context \<lparr> publish_state := End \<rparr>, [])"
  using nothing_after_end [of "new_es_context \<lparr> publish_state := End \<rparr>" all_ok id_doc "[]"]
  by (simp add: end_of_video_es_def new_es_context_def)

end
