(* ===== verification/Write_Flv.thy ===== *)
theory Write_Flv
  imports Publish Rtmp_Message
begin

text \<open>
  The recorder, \<open>logic/write_flv.cpp\<close>: every media message is appended to the FLV file of its
  stream, and dumped into files of its own. A disk is the list of what was appended to which
  path; opening, writing and creating directories succeed (the code does not look at their
  results). The publish type is the constant \<open>record\<close> there.

  Shown: what a run of messages appends to the file of its stream. If the file is new and the
  connection has recorded to no other, it is an FLV file, which a reader written from the format
  description splits into the messages with their types, times and data. If the connection has, the
  file lacks its header and is none. The dump of a message is in the
  format that \<open>process_flv_es_dump_message\<close> replays.
\<close>

subsection \<open>Files\<close>

type_synonym disk = "(bytes \<times> bytes) list"

definition file_content :: "disk \<Rightarrow> bytes \<Rightarrow> bytes" where
  "file_content disk path = concat (map snd (filter (\<lambda>w. fst w = path) disk))"

lemma file_content_simps [simp]:
  "file_content [] path = []"
  "file_content (d @ d') path = file_content d path @ file_content d' path"
  "file_content ((p, b) # d) path = (if p = path then b else []) @ file_content d path"
  by (simp_all add: file_content_def)

definition append_file :: "bytes \<Rightarrow> bytes list \<Rightarrow> disk \<Rightarrow> disk" where
  "append_file path parts disk = disk @ map (\<lambda>part. (path, part)) parts"

lemma append_file_content [simp]:
  "file_content (append_file p parts d) path = file_content d path @ (if p = path then concat parts else [])"
  by (induction parts arbitrary: d) (auto simp: append_file_def file_content_def)

definition write_1byte :: "byte \<Rightarrow> bytes \<Rightarrow> bytes" where
  "write_1byte value dst = dst @ [value]"

definition write_4byte :: "u32 \<Rightarrow> bytes \<Rightarrow> bytes" where
  "write_4byte value dst = dst @ [ucast (drop_bit 24 (value AND 0xff000000)),
     ucast (drop_bit 16 (value AND 0x00ff0000)), ucast (drop_bit 8 (value AND 0x0000ff00)),
     ucast (value AND 0x000000ff)]"

text \<open>Byte \<open>n\<close> of a variable on the little endian host.\<close>

definition memory_byte :: "nat \<Rightarrow> u32 \<Rightarrow> byte" where
  "memory_byte n value = ucast (drop_bit (8 * n) value)"

definition get_data :: "rtmp_message \<Rightarrow> bytes" where
  "get_data m = (case body m of AudioMessage d \<Rightarrow> d | VideoMessage d \<Rightarrow> d | _ \<Rightarrow> [])"

definition stream_name_or_anonymous :: "es_context \<Rightarrow> bytes" where
  "stream_name_or_anonymous context =
     (if es_stream_name context = [] then ascii ''anonymous'' else es_stream_name context)"

subsection \<open>The FLV file\<close>

definition flv_header :: bytes where
  "flv_header = [0x46, 0x4c, 0x56, 0x01, 0x05, 0, 0, 0, 9, 0, 0, 0, 0]"

definition write_flv_header :: "bytes \<Rightarrow> disk \<Rightarrow> disk" where
  "write_flv_header flv_file_name disk = append_file flv_file_name [flv_header] disk"

definition flv_file_name :: "bytes \<Rightarrow> bytes" where
  "flv_file_name name = ascii ''dump/'' @ name @ ascii ''/'' @ name @ ascii ''.flv''"

definition ensure_flv_header :: "bytes \<Rightarrow> es_context \<times> disk \<Rightarrow> es_context \<times> disk" where
  "ensure_flv_header path = (\<lambda>(context, disk).
     if write_flv_header_done (record_flv_context context) then (context, disk)
     else (context \<lparr> record_flv_context :=
             (record_flv_context context) \<lparr> write_flv_header_done := True \<rparr> \<rparr>,
           write_flv_header path disk))"

definition write_flv_tag :: "bytes \<Rightarrow> rtmp_message \<Rightarrow> u32 \<Rightarrow> disk \<Rightarrow> disk" where
  "write_flv_tag path request delta disk =
     (let timestamp_in_mill = timestamp (header request) + delta;
          len = msg_length (header request);
          tag_size = 11 + len
      in append_file path
          [[msg_type_value (msg_type_id (header request)),
            memory_byte 2 len, memory_byte 1 len, memory_byte 0 len,
            memory_byte 2 timestamp_in_mill, memory_byte 1 timestamp_in_mill,
            memory_byte 0 timestamp_in_mill, memory_byte 3 timestamp_in_mill, 0, 0, 0],
           get_data request,
           [memory_byte 3 tag_size, memory_byte 2 tag_size, memory_byte 1 tag_size,
            memory_byte 0 tag_size]] disk)"

text \<open>The second test for the file header, of video messages, never finds it missing.\<close>

definition write_flv :: "rtmp_message \<Rightarrow> es_context \<times> disk \<Rightarrow> es_context \<times> disk" where
  "write_flv request = (\<lambda>(context, disk).
     let path = flv_file_name (stream_name_or_anonymous context);
         (context, disk) = ensure_flv_header path (context, disk)
     in if is_audio_msg (header request)
        then (context, write_flv_tag path request (audio_timestamp_delta context) disk)
        else if is_video_msg (header request)
        then let (context, disk) = ensure_flv_header path (context, disk)
             in (context, write_flv_tag path request (video_timestamp_delta context) disk)
        else (context, disk))"

subsection \<open>Dump files\<close>

definition dump_header :: "rtmp_message \<Rightarrow> bytes" where
  "dump_header request =
     write_4byte (msg_length (header request)) (write_4byte (timestamp (header request))
       (write_1byte (msg_type_value (msg_type_id (header request))) []))"

definition dump_file_name :: "bytes \<Rightarrow> string \<Rightarrow> string \<Rightarrow> u32 \<Rightarrow> bytes" where
  "dump_file_name name dir kind index =
     ascii ''dump/'' @ name @ ascii ''/'' @ ascii dir @ ascii ''/'' @ name @ ascii kind @
     decimal (unat index)"

definition write_flv_media_message_dump :: "rtmp_message \<Rightarrow> es_context \<times> disk \<Rightarrow> es_context \<times> disk" where
  "write_flv_media_message_dump request = (\<lambda>(context, disk).
     let name = stream_name_or_anonymous context; flv = record_flv_context context;
         data = get_data request; head = dump_header request;
         flv = flv \<lparr> media_index := media_index flv + 1 \<rparr>;
         disk = append_file (dump_file_name name ''media_message_header_and_data''
           ''.av.header.data.'' (media_index flv)) [head, data] disk
     in if is_audio_msg (header request)
        then let flv = flv \<lparr> audio_index := audio_index flv + 1 \<rparr>;
                 disk = append_file (dump_file_name name ''audio_message_header''
                   ''.audio.header.'' (audio_index flv)) [head] disk;
                 disk = append_file (dump_file_name name ''audio_message_data''
                   ''.audio.data.'' (audio_index flv)) [data] disk
             in (context \<lparr> record_flv_context := flv \<rparr>, disk)
        else let flv = flv \<lparr> video_index := video_index flv + 1 \<rparr>;
                 disk = append_file (dump_file_name name ''video_message_header''
                   ''.video.header.'' (video_index flv)) [head] disk;
                 disk = append_file (dump_file_name name ''video_message_data''
                   ''.video.data.'' (video_index flv)) [data] disk
             in (context \<lparr> record_flv_context := flv \<rparr>, disk))"

subsection \<open>The recorded file is an FLV file\<close>

text \<open>The file format, as a reader: the header, and then tags with their sizes behind them.\<close>

function flv_tags :: "bytes \<Rightarrow> (byte \<times> u32 \<times> bytes) list option" where
  "flv_tags s = (case s of
     type # n2 # n1 # n0 # t2 # t1 # t0 # t3 # _ # _ # _ # rest \<Rightarrow>
       let n = unat (of_be24 n2 n1 n0) in
       if take 4 (drop n rest) = be32 (of_nat (11 + n))
       then map_option (Cons (type, of_be32 t3 t2 t1 t0, take n rest)) (flv_tags (drop (n + 4) rest))
       else None
   | _ \<Rightarrow> if s = [] then Some [] else None)"
  by pat_completeness auto
termination by (relation "measure length") auto

declare flv_tags.simps [simp del]

definition read_flv_file :: "bytes \<Rightarrow> (byte \<times> u32 \<times> bytes) list option" where
  "read_flv_file s = (if take 13 s = ascii ''FLV'' @ [1, 5] @ be32 9 @ be32 0
     then flv_tags (drop 13 s) else None)"

definition recordable :: "rtmp_message \<Rightarrow> bool" where
  "recordable m \<longleftrightarrow> (is_audio_msg (header m) \<or> is_video_msg (header m))
     \<and> length (get_data m) = unat (msg_length (header m)) \<and> length (get_data m) < 2 ^ 24"

definition recorded_time :: "es_context \<Rightarrow> rtmp_message \<Rightarrow> u32" where
  "recorded_time c m = timestamp (header m) +
     (if is_audio_msg (header m) then audio_timestamp_delta c else video_timestamp_delta c)"

definition tag_of :: "es_context \<Rightarrow> rtmp_message \<Rightarrow> byte \<times> u32 \<times> bytes" where
  "tag_of c m = (msg_type_value (msg_type_id (header m)), recorded_time c m, get_data m)"

definition tag_bytes :: "es_context \<Rightarrow> rtmp_message \<Rightarrow> bytes" where
  "tag_bytes c m = (let n = msg_length (header m); t = recorded_time c m in
     [msg_type_value (msg_type_id (header m))] @ be24 n @ be24 t @ [memory_byte 3 t, 0, 0, 0] @
     get_data m @ be32 (11 + n))"

lemma read_tag:
  assumes "recordable m"
  shows "flv_tags (tag_bytes c m @ s) = map_option (Cons (tag_of c m)) (flv_tags s)"
proof -
  let ?n = "msg_length (header m)"
  have n: "length (get_data m) = unat ?n" "?n AND mask 24 = ?n"
    using assms
    by (auto simp: recordable_def word_less_nat_alt intro: and_mask_24_small)
  have "memory_byte 3 v = ucast (drop_bit 24 v)" for v by (simp add: memory_byte_def)
  then show ?thesis
    unfolding tag_bytes_def Let_def be24_def
    by (subst flv_tags.simps) (simp add: n tag_of_def)
qed

lemma read_tags:
  "\<forall>m\<in>set ms. recordable m \<Longrightarrow> flv_tags (concat (map (tag_bytes c) ms)) = Some (map (tag_of c) ms)"
  by (induction ms) (simp_all add: read_tag flv_tags.simps [of "[]"])

text \<open>What a message changes: its tag is appended, after the file header when that is missing.\<close>

definition same_recording :: "es_context \<Rightarrow> es_context \<Rightarrow> bool" where
  "same_recording c c' \<longleftrightarrow> es_stream_name c' = es_stream_name c
     \<and> audio_timestamp_delta c' = audio_timestamp_delta c
     \<and> video_timestamp_delta c' = video_timestamp_delta c"

lemma same_recording_tags:
  "same_recording c c' \<Longrightarrow> tag_bytes c' = tag_bytes c
    \<and> stream_name_or_anonymous c' = stream_name_or_anonymous c"
  by (auto simp: same_recording_def tag_bytes_def recorded_time_def stream_name_or_anonymous_def)

definition flv_path :: "es_context \<Rightarrow> bytes" where
  "flv_path c = flv_file_name (stream_name_or_anonymous c)"

lemma write_flv_step:
  assumes "write_flv m (c, disk) = (c', disk')" and "recordable m"
  shows "same_recording c c'" and "write_flv_header_done (record_flv_context c')"
    and "file_content disk' (flv_path c) = file_content disk (flv_path c)
      @ (if write_flv_header_done (record_flv_context c) then [] else flv_header) @ tag_bytes c m"
  using assms
  by (auto simp: write_flv_def recordable_def ensure_flv_header_def write_flv_header_def Let_def
      same_recording_def flv_path_def write_flv_tag_def tag_bytes_def recorded_time_def be24_def be32_def
      memory_byte_def is_audio_msg_def is_video_msg_def split: if_splits)

lemma write_flv_run:
  assumes "\<forall>m\<in>set ms. recordable m" and "fold write_flv ms (c, disk) = (c', disk')"
  shows "file_content disk' (flv_path c) = file_content disk (flv_path c)
    @ (if write_flv_header_done (record_flv_context c) \<or> ms = [] then [] else flv_header)
    @ concat (map (tag_bytes c) ms)"
  using assms
proof (induction ms arbitrary: c disk)
  case (Cons m ms)
  obtain c1 d1 where m: "write_flv m (c, disk) = (c1, d1)" by fastforce
  note step = write_flv_step [OF m]
  have "flv_path c1 = flv_path c" "tag_bytes c1 = tag_bytes c"
    using same_recording_tags step(1) Cons.prems(1) by (auto simp: flv_path_def)
  then show ?case
    using Cons.IH [of c1 d1] Cons.prems m step(2,3) by auto
qed simp

text \<open>The reader finds the tags behind the file header, and nothing in a file that lacks it.\<close>

lemma read_recorded:
  assumes "\<forall>m\<in>set ms. recordable m"
  shows "read_flv_file (flv_header @ concat (map (tag_bytes c) ms)) = Some (map (tag_of c) ms)"
    and "read_flv_file (concat (map (tag_bytes c) ms)) = None"
proof -
  have "take 13 (flv_header @ s) = ascii ''FLV'' @ [1, 5] @ be32 9 @ be32 0" "drop 13 (flv_header @ s) = s" for s
    by (simp_all add: flv_header_def ascii_def be32_def)
  then show "read_flv_file (flv_header @ concat (map (tag_bytes c) ms)) = Some (map (tag_of c) ms)"
    using read_tags [OF assms] by (simp add: read_flv_file_def)
  show "read_flv_file (concat (map (tag_bytes c) ms)) = None"
  proof (cases ms)
    case Nil
    then show ?thesis by (simp add: read_flv_file_def ascii_def)
  next
    case (Cons m ms')
    then have "msg_type_value (msg_type_id (header m)) \<in> {8, 9}"
      using assms by (auto simp: recordable_def is_audio_msg_def is_video_msg_def msg_type_value_def)
    then show ?thesis
      using Cons by (auto simp: read_flv_file_def ascii_def tag_bytes_def Let_def)
  qed
qed

text \<open>C15: what a run of media messages leaves in the file of their stream, whatever is on the disk.
  Behind what the file held come the tags of the messages, in their order, and before the first of
  them the file header, unless this connection has written one already, to any file. A file that
  was empty is an FLV file when the connection had not: the reader of the format then finds the
  messages, each with its type, its timestamp (shifted by the delta of its track) and its data.
  When it had, the file is none.\<close>

theorem recorded_file_read:
  assumes "\<forall>m\<in>set ms. recordable m"
  shows "let has_header = write_flv_header_done (record_flv_context c) \<or> ms = [];
      old = file_content disk (flv_path c);
      new = file_content (snd (fold write_flv ms (c, disk))) (flv_path c) in
    new = old @ (if has_header then [] else flv_header) @ concat (map (tag_bytes c) ms) \<and>
    (old = [] \<longrightarrow> read_flv_file new = (if has_header then None else Some (map (tag_of c) ms)))"
proof -
  obtain c' disk' where run: "fold write_flv ms (c, disk) = (c', disk')" by fastforce
  show ?thesis
    using write_flv_run [OF assms run] read_recorded [OF assms] by (simp add: run)
qed

definition sample_frame :: rtmp_message where
  "sample_frame = (base_message VIDEODATA (VideoMessage [0x27, 2, 0, 0, 0]))\<lparr>
     header := header_reset \<lparr>msg_type_id := VIDEODATA, msg_length := 5, timestamp := 0x1020304\<rparr>\<rparr>"

definition sample_eos :: rtmp_message where
  "sample_eos = (base_message VIDEODATA (VideoMessage [0x27, 2, 0, 0, 0]))\<lparr>
     header := header_reset \<lparr>msg_type_id := VIDEODATA, msg_length := 5, timestamp := 1000\<rparr>\<rparr>"

lemma recordable_sample: "recordable sample_frame"
  by (simp add: sample_frame_def base_message_def recordable_def is_video_msg_def is_audio_msg_def get_data_def)

theorem recorded_file_read_witness:
  "read_flv_file (file_content (snd (fold write_flv [sample_frame, sample_frame] (new_es_context, [])))
     (ascii ''dump/anonymous/anonymous.flv'')) =
   Some [(9, 0x1020304, [0x27, 2, 0, 0, 0]), (9, 0x1020304, [0x27, 2, 0, 0, 0])]"
proof -
  have p: "flv_path new_es_context = ascii ''dump/anonymous/anonymous.flv''"
    by (simp add: flv_path_def flv_file_name_def stream_name_or_anonymous_def new_es_context_def ascii_def)
  have t: "tag_of new_es_context sample_frame = (9, 0x1020304, [0x27, 2, 0, 0, 0])"
    by (simp add: tag_of_def recorded_time_def sample_frame_def new_es_context_def get_data_def
        msg_type_value_def is_audio_msg_def base_message_def)
  have "\<forall>m\<in>set [sample_frame, sample_frame]. recordable m" by (simp add: recordable_sample)
  from conjunct2 [OF recorded_file_read [OF this, of new_es_context "[]", unfolded Let_def p]]
  show ?thesis by (simp add: t) (simp add: new_es_context_def)
qed

text \<open>Whether the header was written is kept for the connection, not for the file. A connection
  that goes on to publish under a second name records a file that is not an FLV file.\<close>

theorem second_name_not_read:
  assumes "\<forall>m\<in>set ms. recordable m" and "write_flv_header_done (record_flv_context c)"
    and "file_content disk (flv_path c) = []"
  shows "read_flv_file (file_content (snd (fold write_flv ms (c, disk))) (flv_path c)) = None"
proof -
  obtain c' disk' where run: "fold write_flv ms (c, disk) = (c', disk')" by fastforce
  show ?thesis
    using write_flv_run [OF assms(1) run] assms(2,3) read_recorded(2) [OF assms(1)] by (simp add: run)
qed

theorem second_name_not_read_witness:
  "read_flv_file (file_content (snd (fold write_flv [sample_frame]
     (fst (write_flv sample_frame (new_es_context, [])) \<lparr> es_stream_name := ascii ''b'' \<rparr>, [])))
     (ascii ''dump/b/b.flv'')) = None"
proof -
  let ?c = "fst (write_flv sample_frame (new_es_context, [])) \<lparr> es_stream_name := ascii ''b'' \<rparr>"
  have p: "flv_path ?c = ascii ''dump/b/b.flv''"
    by (simp add: flv_path_def flv_file_name_def stream_name_or_anonymous_def ascii_def)
  have "write_flv_header_done (record_flv_context ?c)"
    using write_flv_step(2) [OF _ recordable_sample, of new_es_context "[]"]
    by (cases "write_flv sample_frame (new_es_context, [])") simp
  then show ?thesis
    using second_name_not_read [of "[sample_frame]" ?c "[]"] recordable_sample unfolding p by simp
qed

subsection \<open>The dump can be replayed\<close>

lemma write_dump:
  assumes "write_flv_media_message_dump m (c, disk) = (c', disk')"
    and "path = dump_file_name (stream_name_or_anonymous c) ''media_message_header_and_data''
      ''.av.header.data.'' (media_index (record_flv_context c) + 1)"
    and "file_content disk path = []"
  shows "file_content disk' path = dump_header m @ get_data m"
proof -
  have ne: "dump_file_name n ''media_message_header_and_data'' k i \<noteq> dump_file_name n ''audio_message_header'' k' j"
    "dump_file_name n ''media_message_header_and_data'' k i \<noteq> dump_file_name n ''audio_message_data'' k' j"
    "dump_file_name n ''media_message_header_and_data'' k i \<noteq> dump_file_name n ''video_message_header'' k' j"
    "dump_file_name n ''media_message_header_and_data'' k i \<noteq> dump_file_name n ''video_message_data'' k' j"
    for n k i k' j
    by (simp_all add: dump_file_name_def ascii_def)
  show ?thesis
    using assms ne ne [symmetric]
    by (auto simp: write_flv_media_message_dump_def Let_def split: if_splits)
qed

lemma dump_header_bytes:
  "dump_header m = [msg_type_value (msg_type_id (header m))] @ be32 (timestamp (header m)) @
     be32 (msg_length (header m))"
proof -
  have byte: "ucast (drop_bit k ((v :: u32) AND push_bit k 255)) = (ucast (drop_bit k v) :: byte)"
    if "k \<le> 24" for k v
  proof -
    have "(255 :: u32) = mask 8" by code_simp
    then show ?thesis unfolding \<open>255 = mask 8\<close> using that by (intro bit_word_eqI) (auto simp: bit_simps)
  qed
  have "ucast (drop_bit 24 ((v :: u32) AND 0xFF000000)) = (ucast (drop_bit 24 v) :: byte)"
    "ucast (drop_bit 16 (v AND 0xFF0000)) = (ucast (drop_bit 16 v) :: byte)"
    "ucast (drop_bit 8 (v AND 0xFF00)) = (ucast (drop_bit 8 v) :: byte)"
    "ucast (v AND 0xFF) = (ucast v :: byte)" for v
    using byte [of 24 v] byte [of 16 v] byte [of 8 v] byte [of 0 v] by simp_all
  then show ?thesis by (simp add: dump_header_def write_4byte_def write_1byte_def be32_def)
qed

text \<open>The file that the dump of a message writes is what the parser of dumps replays: the context
  becomes the one that the live message gave (up to the mark of the first key frame).\<close>

theorem dump_file_replays:
  assumes "process_flv_es_message c (msg_type_value (msg_type_id (header m)))
      (ucast (timestamp (header m))) (get_data m) = Ok (True, c1)"
    and "unat (timestamp (header m)) * 90 < 2 ^ 32" and "length (get_data m) = unat (msg_length (header m))"
    and "path = dump_file_name (stream_name_or_anonymous c) ''media_message_header_and_data''
      ''.av.header.data.'' (media_index (record_flv_context c) + 1)"
    and "file_content disk path = []"
  shows "process_flv_es_dump_message c (file_content (snd (write_flv_media_message_dump m (c, disk))) path) =
    Ok (True, c1 \<lparr> first_video_key_frame_sent := first_video_key_frame_sent c \<rparr>)"
proof -
  obtain c' disk' where w: "write_flv_media_message_dump m (c, disk) = (c', disk')" by fastforce
  have "dump_header m @ get_data m =
      dump_of (msg_type_value (msg_type_id (header m))) (timestamp (header m)) (get_data m)"
    by (simp add: dump_header_bytes dump_of_def assms(3))
  then show ?thesis
    using write_dump [OF w assms(4,5)] dump_replayed [OF assms(1,2)] by (simp add: w)
qed

theorem dump_file_replays_witness:
  "process_flv_es_dump_message new_es_context (file_content (snd (write_flv_media_message_dump
      sample_eos (new_es_context, [])))
      (ascii ''dump/anonymous/media_message_header_and_data/anonymous.av.header.data.1'')) =
    Ok (True, new_es_context \<lparr> video_eos := [0x27, 2, 0, 0, 0] \<rparr>)"
proof -
  have m: "msg_type_value (msg_type_id (header sample_eos)) = 9" "timestamp (header sample_eos) = 1000"
    "get_data sample_eos = [0x27, 2, 0, 0, 0]" "msg_length (header sample_eos) = 5"
    by (simp_all add: sample_eos_def get_data_def msg_type_value_def base_message_def)
  have kind: "IsAVCSequenceHeader [0x27, 2, 0, 0, 0] = Refused" "IsAVCNALU [0x27, 2, 0, 0, 0] = Refused"
    "is_avc_end_of_sequence [0x27, 2, 0, 0, 0] = Ok True"
    "get_avc_end_of_sequence [0x27, 2, 0, 0, 0] = Ok [0x27, 2, 0, 0, 0]"
    by code_simp+
  have "process_flv_es_message new_es_context 9 (ucast (1000 :: u32)) [0x27, 2, 0, 0, 0] =
      Ok (True, new_es_context \<lparr> video_eos := [0x27, 2, 0, 0, 0] \<rparr>)"
    by (simp add: process_flv_es_message_def FLV_AUDIO_ES_def FLV_VIDEO_ES_def kind process_video_eos_def)
  moreover have "dump_file_name (stream_name_or_anonymous new_es_context) ''media_message_header_and_data''
      ''.av.header.data.'' (media_index (record_flv_context new_es_context) + 1) =
      ascii ''dump/anonymous/media_message_header_and_data/anonymous.av.header.data.1''"
    by (simp add: dump_file_name_def stream_name_or_anonymous_def new_es_context_def ascii_def
        decimal.simps [of "Suc 0"])
  moreover have "first_video_key_frame_sent new_es_context = False"
    by (simp add: new_es_context_def)
  ultimately show ?thesis
    using dump_file_replays [of new_es_context sample_eos, unfolded m, OF _ _ _ refl, of _ "[]"]
      first_unchanged [of "new_es_context \<lparr> video_eos := [0x27, 2, 0, 0, 0] \<rparr>"]
    by simp
qed

end
