(* ===== verification/Handshake.thy ===== *)
theory Handshake
  imports Rtmp_Prelude
begin

text \<open>
  The handshake, \<open>network/HandshakeManager.cpp\<close>. What is not in the repository are arguments:
  \<open>hmac key text\<close> is HMAC-SHA256 of OpenSSL (32 bytes, by its documentation), \<open>now\<close> is \<open>time(NULL)\<close>
  and \<open>random i\<close> the number that \<open>rand()\<close> gives for byte \<open>i\<close>. The log is left out, and \<open>handshake_S1_S2_\<close> is
  a local of the two functions that fill it.

  Shown: the digests stay inside the message, wherever the random bytes put them; a client that
  signs its message is recognised, and gets an answer whose two parts are signed; a client that
  does not gets its own bytes back.
\<close>

subsection \<open>State and keys\<close>

definition FMS_key_in_sha256 :: bytes where
  "FMS_key_in_sha256 = ascii ''Genuine Adobe Flash Media Server 001'' @
     [0xf0, 0xee, 0xc2, 0x4a, 0x80, 0x68, 0xbe, 0xe8, 0x2e, 0x00, 0xd0, 0xd1,
      0x02, 0x9e, 0x7e, 0x57, 0x6e, 0xec, 0x5d, 0x2d, 0x29, 0x80, 0x6f, 0xab,
      0x93, 0xb8, 0xe6, 0x36, 0xcf, 0xeb, 0x31, 0xae]"

definition FP_key_in_sha256 :: bytes where
  "FP_key_in_sha256 = ascii ''Genuine Adobe Flash Player 001'' @
     [0xF0, 0xEE, 0xC2, 0x4A, 0x80, 0x68, 0xBE, 0xE8, 0x2E, 0x00, 0xD0,
      0xD1, 0x02, 0x9E, 0x7E, 0x57, 0x6E, 0xEC, 0x5D, 0x2D, 0x29, 0x80,
      0x6F, 0xAB, 0x93, 0xB8, 0xE6, 0x36, 0xCF, 0xEB, 0x31, 0xAE]"

definition HANDSHAKE_MSG_LENGTH :: nat where "HANDSHAKE_MSG_LENGTH = 1536"

datatype digest_mode = DIGEST_MODE_0 | DIGEST_MODE_1 | NO_DIGEST_MODE

record handshake_manager =
  client_rtmp_version :: byte
  client_epoch_timestamp :: u32
  client_handshake_version :: bytes
  server_rtmp_version :: byte
  server_epoch_timestamp :: u32
  server_client_epoch_read_timestamp :: u32
  server_handshake_version :: u32
  handshake_C1 :: bytes
  digest_scheme :: digest_mode

definition new_handshake_manager :: handshake_manager where
  "new_handshake_manager = \<lparr> client_rtmp_version = 0, client_epoch_timestamp = 0,
     client_handshake_version = [], server_rtmp_version = 3, server_epoch_timestamp = 0,
     server_client_epoch_read_timestamp = 0, server_handshake_version = 0, handshake_C1 = [],
     digest_scheme = NO_DIGEST_MODE \<rparr>"

type_synonym hmac = "bytes \<Rightarrow> bytes \<Rightarrow> bytes"

subsection \<open>Digests\<close>

definition get_digest_offset_0 :: "bytes \<Rightarrow> nat" where
  "get_digest_offset_0 buf =
     (unat (buf ! 8) + unat (buf ! 9) + unat (buf ! 10) + unat (buf ! 11)) mod 728 + 12"

definition get_digest_offset_1 :: "bytes \<Rightarrow> nat" where
  "get_digest_offset_1 buf =
     (unat (buf ! 772) + unat (buf ! 773) + unat (buf ! 774) + unat (buf ! 775)) mod 728 + 776"

definition get_digest_offset :: "bytes \<Rightarrow> digest_mode \<Rightarrow> nat" where
  "get_digest_offset buf scheme = (case scheme of DIGEST_MODE_0 \<Rightarrow> get_digest_offset_0 buf
     | DIGEST_MODE_1 \<Rightarrow> get_digest_offset_1 buf | NO_DIGEST_MODE \<Rightarrow> get_digest_offset_0 buf)"

text \<open>The message without the 32 bytes of its digest.\<close>

definition without_digest :: "bytes \<Rightarrow> nat \<Rightarrow> bytes" where
  "without_digest buf offset = take offset buf @
     take (HANDSHAKE_MSG_LENGTH - offset - 32) (drop (offset + 32) buf)"

definition put_digest :: "bytes \<Rightarrow> nat \<Rightarrow> bytes \<Rightarrow> bytes" where
  "put_digest buf offset hash = take offset buf @ take 32 hash @ drop (offset + 32) buf"

definition validate_client_scheme :: "hmac \<Rightarrow> bytes \<Rightarrow> digest_mode \<Rightarrow> bool" where
  "validate_client_scheme hmac buf scheme =
     (let digest_offset = get_digest_offset buf scheme;
          hash = hmac (take 30 FP_key_in_sha256) (without_digest buf digest_offset)
      in take 32 (drop digest_offset buf) = take 32 hash)"

subsection \<open>Reading C0 and C1\<close>

definition validate_C1_ver3 :: "hmac \<Rightarrow> u32 \<Rightarrow> bytes \<Rightarrow> handshake_manager \<Rightarrow> bool \<times> handshake_manager" where
  "validate_C1_ver3 hmac now C1 hm =
     (let hm = hm \<lparr> client_epoch_timestamp := of_be32 (C1 ! 0) (C1 ! 1) (C1 ! 2) (C1 ! 3),
                    client_handshake_version := take 4 (drop 4 C1),
                    server_client_epoch_read_timestamp := now \<rparr>
      in if client_handshake_version hm = [0, 0, 0, 0] then (True, hm)
         else if validate_client_scheme hmac C1 DIGEST_MODE_0
         then (True, hm \<lparr> digest_scheme := DIGEST_MODE_0 \<rparr>)
         else if validate_client_scheme hmac C1 DIGEST_MODE_1
         then (True, hm \<lparr> digest_scheme := DIGEST_MODE_1 \<rparr>)
         else (True, hm \<lparr> digest_scheme := NO_DIGEST_MODE \<rparr>))"

definition validate_C0_C1 :: "hmac \<Rightarrow> u32 \<Rightarrow> bytes \<Rightarrow> handshake_manager \<Rightarrow> bool \<times> handshake_manager" where
  "validate_C0_C1 hmac now stream hm = (case stream of
      [] \<Rightarrow> (False, hm)
    | version # C1 \<Rightarrow>
        let hm = hm \<lparr> client_rtmp_version := version \<rparr>
        in if version = 3
           then let C1 = take HANDSHAKE_MSG_LENGTH C1
                in validate_C1_ver3 hmac now C1 (hm \<lparr> handshake_C1 := C1 \<rparr>)
           else (False, hm))"

subsection \<open>Writing S0, S1 and S2\<close>

definition get_S0_S1_S2 :: "hmac \<Rightarrow> u32 \<Rightarrow> (nat \<Rightarrow> byte) \<Rightarrow> handshake_manager \<Rightarrow> bytes" where
  "get_S0_S1_S2 hmac now random hm =
     (let n = HANDSHAKE_MSG_LENGTH;
          S1_S2 = be32 now @ be32 0 @ map random [8 ..< n * 2];
          server_digest_offset = get_digest_offset S1_S2 (digest_scheme hm);
          hash = hmac (take 36 FMS_key_in_sha256) (without_digest S1_S2 server_digest_offset);
          S1_S2 = put_digest S1_S2 server_digest_offset hash;
          key_challenge_index = get_digest_offset (handshake_C1 hm) (digest_scheme hm);
          key = hmac (take 68 FMS_key_in_sha256) (take 32 (drop key_challenge_index (handshake_C1 hm)));
          last_hash = hmac (take 32 key) (take (n - 32) (drop n S1_S2));
          S1_S2 = put_digest S1_S2 (n * 2 - 32) last_hash
      in 3 # S1_S2)"

definition write_S0_S1_S2 ::
  "u32 \<Rightarrow> (nat \<Rightarrow> byte) \<Rightarrow> handshake_manager \<Rightarrow> bytes \<times> handshake_manager" where
  "write_S0_S1_S2 now random hm =
     (let n = HANDSHAKE_MSG_LENGTH;
          hm = hm \<lparr> server_epoch_timestamp := now \<rparr>;
          s1 = be32 (client_epoch_timestamp hm) @ le32 (server_handshake_version hm) @ map random [8 ..< n];
          s2_time2 = client_epoch_timestamp hm +
            (server_epoch_timestamp hm - server_client_epoch_read_timestamp hm);
          s2 = be32 (client_epoch_timestamp hm) @ be32 s2_time2 @ take (n - 8) (drop 8 (handshake_C1 hm))
      in (server_rtmp_version hm # s1 @ s2, hm))"

subsection \<open>Digests stay inside the message\<close>

lemma digest_offset_range:
  "12 \<le> get_digest_offset buf scheme" "get_digest_offset buf scheme + 32 < HANDSHAKE_MSG_LENGTH"
proof -
  have "n mod 728 < 728" for n :: nat by simp
  then show "12 \<le> get_digest_offset buf scheme" "get_digest_offset buf scheme + 32 < HANDSHAKE_MSG_LENGTH"
    by (cases scheme; simp add: get_digest_offset_def get_digest_offset_0_def get_digest_offset_1_def
        HANDSHAKE_MSG_LENGTH_def add.commute less_diff_conv [symmetric] order_less_le_trans)+
qed

text \<open>A digest does not change the bytes that its place is computed from.\<close>

lemma nth_put_digest:
  assumes "i < offset" "offset \<le> length buf"
  shows "put_digest buf offset hash ! i = buf ! i"
  using assms by (simp add: put_digest_def nth_append)

lemma offset_put_digest:
  assumes "HANDSHAKE_MSG_LENGTH \<le> length buf"
  shows "get_digest_offset (put_digest buf (get_digest_offset buf scheme) hash) scheme =
    get_digest_offset buf scheme"
proof -
  let ?o = "get_digest_offset buf scheme"
  have le: "?o \<le> length buf" using digest_offset_range [of buf scheme] assms by linarith
  have "776 \<le> get_digest_offset_1 buf" "12 \<le> get_digest_offset_0 buf"
    by (simp_all add: get_digest_offset_1_def get_digest_offset_0_def)
  then show ?thesis
    using le
    by (cases scheme) (simp_all add: get_digest_offset_def get_digest_offset_0_def [of "put_digest b x h" for b x h]
        get_digest_offset_1_def [of "put_digest b x h" for b x h] nth_put_digest,
      simp_all add: get_digest_offset_0_def get_digest_offset_1_def)
qed

lemma put_digest_read:
  assumes "offset + 32 \<le> length buf" "length hash = 32"
  shows "take 32 (drop offset (put_digest buf offset hash)) = hash"
    and "without_digest (put_digest buf offset hash) offset = without_digest buf offset"
    and "length (put_digest buf offset hash) = length buf"
  using assms by (auto simp: put_digest_def without_digest_def)

lemma put_digest_beyond:
  "offset + 32 \<le> n \<Longrightarrow> n \<le> length buf \<Longrightarrow> length hash = 32 \<Longrightarrow>
    drop n (put_digest buf offset hash) = drop n buf"
  "n \<le> offset \<Longrightarrow> offset + 32 \<le> length buf \<Longrightarrow> take n (put_digest buf offset hash) = take n buf"
  by (auto simp: put_digest_def)

subsection \<open>The signed handshake\<close>

text \<open>What a client does to sign its message, and what it checks in the two parts of the answer.\<close>

definition client_signed :: "hmac \<Rightarrow> digest_mode \<Rightarrow> bytes \<Rightarrow> bytes" where
  "client_signed hmac scheme C1 = (let offset = get_digest_offset C1 scheme in
     put_digest C1 offset (hmac (take 30 FP_key_in_sha256) (without_digest C1 offset)))"

definition S1_signed :: "hmac \<Rightarrow> digest_mode \<Rightarrow> bytes \<Rightarrow> bool" where
  "S1_signed hmac scheme S1 \<longleftrightarrow> (let offset = get_digest_offset S1 scheme in
     take 32 (drop offset S1) = hmac (take 36 FMS_key_in_sha256) (without_digest S1 offset))"

definition S2_signed :: "hmac \<Rightarrow> bytes \<Rightarrow> bytes \<Rightarrow> bool" where
  "S2_signed hmac client_digest S2 \<longleftrightarrow>
     drop 1504 S2 = hmac (hmac FMS_key_in_sha256 client_digest) (take 1504 S2)"

lemma client_signed_valid:
  assumes "\<And>k t. length (hmac k t) = 32" "length C1 = HANDSHAKE_MSG_LENGTH"
  shows "validate_client_scheme hmac (client_signed hmac scheme C1) scheme"
    and "take 8 (client_signed hmac scheme C1) = take 8 C1"
    and "length (client_signed hmac scheme C1) = HANDSHAKE_MSG_LENGTH"
proof -
  note range = digest_offset_range [of C1 scheme]
  have le: "get_digest_offset C1 scheme + 32 \<le> length C1" using range(2) assms(2) by linarith
  note read = put_digest_read [OF le assms(1)]
  show "validate_client_scheme hmac (client_signed hmac scheme C1) scheme"
    using assms read by (simp add: client_signed_def validate_client_scheme_def Let_def offset_put_digest)
  show "take 8 (client_signed hmac scheme C1) = take 8 C1"
    using range(1) le assms(1) by (simp add: client_signed_def Let_def put_digest_beyond)
  show "length (client_signed hmac scheme C1) = HANDSHAKE_MSG_LENGTH"
    using read(3) assms(2) by (simp add: client_signed_def Let_def)
qed

lemma validate_C1_signed:
  assumes "validate_client_scheme hmac C1 scheme" "scheme \<noteq> NO_DIGEST_MODE"
    and "take 4 (drop 4 C1) \<noteq> [0, 0, 0, 0]"
  shows "\<exists>hm'. validate_C1_ver3 hmac now C1 hm = (True, hm') \<and> digest_scheme hm' \<noteq> NO_DIGEST_MODE
    \<and> handshake_C1 hm' = handshake_C1 hm \<and> validate_client_scheme hmac C1 (digest_scheme hm')"
  using assms by (cases scheme) (auto simp: validate_C1_ver3_def Let_def)

lemma answer_signed:
  assumes "\<And>k t. length (hmac k t) = 32"
    and out_def: "out = get_S0_S1_S2 hmac now random hm"
  shows "length out = 3073" and "hd out = 3"
    and "S1_signed hmac (digest_scheme hm) (take 1536 (drop 1 out))"
    and "S2_signed hmac (take 32 (drop (get_digest_offset (handshake_C1 hm) (digest_scheme hm)) (handshake_C1 hm)))
      (drop 1537 out)"
proof -
  define R where "R = be32 now @ be32 0 @ map random [8 ..< HANDSHAKE_MSG_LENGTH * 2]"
  define k where "k = get_digest_offset R (digest_scheme hm)"
  define X where "X = put_digest R k (hmac (take 36 FMS_key_in_sha256) (without_digest R k))"
  define Y where "Y = hmac (hmac FMS_key_in_sha256 (take 32 (drop (get_digest_offset (handshake_C1 hm)
    (digest_scheme hm)) (handshake_C1 hm)))) (take 1504 (drop 1536 X))"
  have "take 68 FMS_key_in_sha256 = FMS_key_in_sha256" by (simp add: FMS_key_in_sha256_def ascii_def)
  then have out: "out = 3 # put_digest X 3040 Y"
    unfolding out_def get_S0_S1_S2_def Let_def R_def [symmetric] k_def [symmetric] X_def [symmetric] Y_def
    by (simp add: HANDSHAKE_MSG_LENGTH_def assms(1))
  have "length R = 8 + (HANDSHAKE_MSG_LENGTH * 2 - 8)" by (simp add: R_def)
  then have R: "length R = 3072" by (simp add: HANDSHAKE_MSG_LENGTH_def)
  have k: "k + 32 \<le> 1536" "k + 32 \<le> length R"
    using digest_offset_range [of R "digest_scheme hm"] R by (simp_all add: k_def HANDSHAKE_MSG_LENGTH_def)
  note X = put_digest_read [OF k(2) assms(1)]
  have X12: "take 32 (drop k X) = hmac (take 36 FMS_key_in_sha256) (without_digest R k)"
    "without_digest X k = without_digest R k"
    unfolding X_def by (rule X)+
  have lX: "length X = 3072" using X(3) R by (simp add: X_def)
  have lY: "length Y = 32" by (simp add: Y_def assms(1))
  show "length out = 3073" "hd out = 3" using lX lY put_digest_read(3) [of 3040 X Y] by (simp_all add: out)
  have S1: "take 1536 (drop 1 out) = take 1536 X" using lX lY by (simp add: out put_digest_beyond)
  have "get_digest_offset (take 1536 X) (digest_scheme hm) = get_digest_offset X (digest_scheme hm)"
    by (cases "digest_scheme hm") (simp_all add: get_digest_offset_def get_digest_offset_0_def get_digest_offset_1_def)
  also have "\<dots> = k" using R by (simp add: X_def k_def offset_put_digest HANDSHAKE_MSG_LENGTH_def)
  finally have "get_digest_offset (take 1536 X) (digest_scheme hm) = k" .
  moreover have "take 32 (drop k (take 1536 X)) = take 32 (drop k X)"
    using k(1) by (simp add: take_drop min_def)
  moreover have "without_digest (take 1536 X) k = without_digest X k"
    using k(1) by (simp add: without_digest_def HANDSHAKE_MSG_LENGTH_def take_drop min_def)
  ultimately show "S1_signed hmac (digest_scheme hm) (take 1536 (drop 1 out))"
    unfolding S1 S1_signed_def Let_def by (simp only: X12)
  have S2: "drop 1537 out = take 1504 (drop 1536 X) @ Y"
    using lX lY by (simp add: out put_digest_def drop_take)
  show "S2_signed hmac (take 32 (drop (get_digest_offset (handshake_C1 hm) (digest_scheme hm)) (handshake_C1 hm)))
      (drop 1537 out)"
    using lX by (simp add: S2 S2_signed_def Y_def)
qed

text \<open>C17: a client that announces a version and signs its message, in either place, is recognised; the
  answer has the right size, its first part is signed with the key of the server in the place
  that the scheme gives, and its second part with a key made of the digest of the client.\<close>

theorem handshake_signed:
  assumes "\<And>k t. length (hmac k t) = 32" and "length C1 = HANDSHAKE_MSG_LENGTH"
    and "take 4 (drop 4 C1) \<noteq> [0, 0, 0, 0]" and "scheme \<noteq> NO_DIGEST_MODE"
    and C1': "C1' = client_signed hmac scheme C1"
  shows "\<exists>hm. validate_C0_C1 hmac t0 (3 # C1') new_handshake_manager = (True, hm)
    \<and> digest_scheme hm \<noteq> NO_DIGEST_MODE
    \<and> (let out = get_S0_S1_S2 hmac now random hm;
           digest = take 32 (drop (get_digest_offset C1' (digest_scheme hm)) C1')
       in length out = 3073 \<and> hd out = 3 \<and> S1_signed hmac (digest_scheme hm) (take 1536 (drop 1 out))
          \<and> S2_signed hmac digest (drop 1537 out))"
proof -
  note signed = client_signed_valid [where hmac = hmac, OF assms(1,2), where scheme = scheme, folded C1']
  have "take 4 (drop 4 C1') = drop 4 (take 8 C1')" by (simp add: drop_take)
  then have version: "take 4 (drop 4 C1') \<noteq> [0, 0, 0, 0]"
    using assms(3) signed(2) by (simp add: drop_take)
  obtain hm where hm: "validate_C1_ver3 hmac t0 C1' (new_handshake_manager
      \<lparr> client_rtmp_version := 3, handshake_C1 := C1' \<rparr>) = (True, hm)"
    "digest_scheme hm \<noteq> NO_DIGEST_MODE" "handshake_C1 hm = C1'"
    using validate_C1_signed [OF signed(1) assms(4) version] by force
  have "validate_C0_C1 hmac t0 (3 # C1') new_handshake_manager = (True, hm)"
    using hm(1) signed(3) by (simp add: validate_C0_C1_def Let_def)
  then show ?thesis
    using hm(2,3) answer_signed [where hmac = hmac and now = now and random = random and hm = hm, OF assms(1) refl]
    unfolding Let_def by (intro exI [of _ hm]) simp
qed

text \<open>An \<open>hmac\<close> of the right size, and a message, for examples.\<close>

definition sum_hmac :: hmac where
  "sum_hmac key text = replicate 32 (sum_list key + sum_list text)"

definition sample_C1 :: bytes where
  "sample_C1 = [0, 0, 0, 5, 9, 0, 124, 2] @ replicate 1528 1"

theorem handshake_signed_witness:
  "\<exists>hm. validate_C0_C1 sum_hmac 0 (3 # client_signed sum_hmac DIGEST_MODE_1 sample_C1)
      new_handshake_manager = (True, hm)
    \<and> digest_scheme hm \<noteq> NO_DIGEST_MODE
    \<and> (let out = get_S0_S1_S2 sum_hmac 7 of_nat hm;
           C1 = client_signed sum_hmac DIGEST_MODE_1 sample_C1;
           digest = take 32 (drop (get_digest_offset C1 (digest_scheme hm)) C1)
       in length out = 3073 \<and> hd out = 3
          \<and> S1_signed sum_hmac (digest_scheme hm) (take 1536 (drop 1 out))
          \<and> S2_signed sum_hmac digest (drop 1537 out))"
  unfolding Let_def
  by (rule handshake_signed [of sum_hmac sample_C1 DIGEST_MODE_1 _ 0 7 of_nat, unfolded Let_def])
    (simp_all add: sum_hmac_def sample_C1_def HANDSHAKE_MSG_LENGTH_def)

subsection \<open>The plain handshake\<close>

text \<open>A client that announces no version is never checked for a digest; the second part of the
  answer is its own message again, with its time and the time that passed in place of the first
  two fields, and the first part has its time too, where the protocol wants the server's own.\<close>

theorem handshake_echo:
  assumes "length C1 = HANDSHAKE_MSG_LENGTH" and "take 4 (drop 4 C1) = [0, 0, 0, 0]"
    and "validate_C0_C1 hmac t0 (3 # C1) new_handshake_manager = (ok, hm)"
    and "write_S0_S1_S2 t1 random hm = (out, hm')"
  shows "ok \<and> digest_scheme hm = NO_DIGEST_MODE \<and> length out = 3073 \<and> hd out = 3
    \<and> take 4 (drop 1 out) = take 4 C1 \<and> take 4 (drop 1537 out) = take 4 C1
    \<and> take 4 (drop 1541 out) = be32 (client_epoch_timestamp hm + (t1 - t0))
    \<and> drop 1545 out = drop 8 C1"
proof -
  have "4 \<le> length C1" using assms(1) by (simp add: HANDSHAKE_MSG_LENGTH_def)
  then obtain a b c d s where s: "C1 = a # b # c # d # s"
    by (auto simp: Suc_le_length_iff eval_nat_numeral)
  define e where "e = drop 4 s"
  have C1: "C1 = a # b # c # d # 0 # 0 # 0 # 0 # e"
    using assms(2) append_take_drop_id [of 4 s] by (simp add: s e_def)
  have hm: "ok" "hm = new_handshake_manager \<lparr> client_rtmp_version := 3, handshake_C1 := C1,
      client_epoch_timestamp := of_be32 a b c d, client_handshake_version := [0, 0, 0, 0],
      server_client_epoch_read_timestamp := t0 \<rparr>"
    using assms(1,3) by (auto simp: validate_C0_C1_def validate_C1_ver3_def Let_def C1)
  define R where "R = map random [8 ..< HANDSHAKE_MSG_LENGTH]"
  have R: "length R = 1528" by (simp add: R_def, simp add: HANDSHAKE_MSG_LENGTH_def)
  have e: "length e = 1528" using assms(1) by (simp add: C1 HANDSHAKE_MSG_LENGTH_def)
  have out: "out = 3 # be32 (of_be32 a b c d) @ le32 0 @ R @ be32 (of_be32 a b c d) @
      be32 (of_be32 a b c d + (t1 - t0)) @ e"
    using assms(4) e unfolding write_S0_S1_S2_def Let_def R_def [symmetric]
    by (simp add: hm new_handshake_manager_def C1 HANDSHAKE_MSG_LENGTH_def)
  show ?thesis
    using hm R e by (simp add: out new_handshake_manager_def C1 le32_def)
qed

theorem handshake_echo_witness:
  "drop 1545 (fst (write_S0_S1_S2 8 of_nat
      (snd (validate_C0_C1 sum_hmac 7 (3 # replicate 8 0 @ replicate 1528 1) new_handshake_manager)))) =
    replicate 1528 1"
proof -
  let ?C1 = "replicate 8 0 @ replicate 1528 1 :: bytes"
  obtain ok hm where v: "validate_C0_C1 sum_hmac 7 (3 # ?C1) new_handshake_manager = (ok, hm)"
    by fastforce
  obtain out hm' where w: "write_S0_S1_S2 8 of_nat hm = (out, hm')" by fastforce
  have "take 4 (drop 4 ?C1) = [0, 0, 0, 0]" by (simp add: eval_nat_numeral)
  then show ?thesis
    using handshake_echo [OF _ _ v w] by (simp add: v w HANDSHAKE_MSG_LENGTH_def)
qed

end
