(* ===== verification/Rtmp_Handler.thy ===== *)
theory Rtmp_Handler
  imports Write_Flv Rtmp_Parser
begin

text \<open>
  The request handler of a connection, \<open>logic/RtmpHandler.cpp\<close>: what it does with each parsed message,
  namely what it asks the connection to send, and what it changes in the context, on the disk and
  at the streamer. Its chunk size never changes.

  Shown: which messages are answered by a result (once, with the transaction id of the request),
  which by statuses, and which by neither; the handler keeps the promises of the publisher, so that
  the frames of a session are posted in order.
\<close>

subsection \<open>State and crashes\<close>

record session =
  es_ctx :: es_context
  disk :: disk
  exchanges :: "exchange list"

definition new_session :: session where
  "new_session = \<lparr> es_ctx = new_es_context, disk = [], exchanges = [] \<rparr>"

text \<open>What ends the process: an exception that nothing catches, a null pointer, an access outside a
  buffer.\<close>

datatype crash = Uncaught sna_error | Null_Pointer | Outside_Buffer

definition of_access :: "'a access \<Rightarrow> 'b \<Rightarrow> ('a \<Rightarrow> 'b) \<Rightarrow> crash + 'b" where
  "of_access x refused k = (case x of Ok a \<Rightarrow> Inr (k a) | Refused \<Rightarrow> Inr refused | Outside \<Rightarrow> Inl Outside_Buffer)"

definition HANDLER_CHUNK_SIZE :: u32 where "HANDLER_CHUNK_SIZE = 128"
definition NEW_STREAM_ID :: u32 where "NEW_STREAM_ID = 3555"

subsection \<open>The answers\<close>

definition simple_result :: "rtmp_message \<Rightarrow> u64 option \<Rightarrow> rtmp_message" where
  "simple_result request second = reply SAME_STREAM (chunk_stream_id (header request))
     (msg_stream_id (header request)) (transaction_id request) HANDLER_CHUNK_SIZE (SimpleResult second)"

definition handle_connect_message :: "connect_fields \<Rightarrow> rtmp_message \<Rightarrow> session \<Rightarrow> send_action list \<times> session" where
  "handle_connect_message msg request s =
     ([Push (control_message (WindowAcknowledgementSize DEFAULT_WIN_ACK_SIZE)),
       Push (control_message (SetPeerBandwidth DEFAULT_WIN_ACK_SIZE LIMIT_TYPE_DYNAMIC)),
       Push (control_message (StreamBegin 0)),
       Push (reply FULL (chunk_stream_id (header request)) (msg_stream_id (header request))
         (transaction_id request) HANDLER_CHUNK_SIZE (ConnectResult (uint_to_double 3))), Signal],
      s \<lparr> es_ctx := (es_ctx s) \<lparr> provider := app msg \<rparr> \<rparr>)"

definition handle_release_stream :: "rtmp_message \<Rightarrow> session \<Rightarrow> send_action list \<times> session" where
  "handle_release_stream request s = ([Push (simple_result request None), Signal], s)"

definition handle_fc_publish :: "bytes \<Rightarrow> rtmp_message \<Rightarrow> session \<Rightarrow> send_action list \<times> session" where
  "handle_fc_publish stream_name request s =
     ([Push (simple_result request None),
       Push (reply SAME_STREAM (chunk_stream_id (header request)) (msg_stream_id (header request)) 0
         HANDLER_CHUNK_SIZE (OnFCPublish stream_name)), Signal], s)"

text \<open>Without a signal: the answer waits for the next message that is sent.\<close>

definition handle_fc_unpublish :: "rtmp_message \<Rightarrow> session \<Rightarrow> send_action list \<times> session" where
  "handle_fc_unpublish request s = ([Push (simple_result request None)], s)"

definition handle_create_stream :: "rtmp_message \<Rightarrow> session \<Rightarrow> send_action list \<times> session" where
  "handle_create_stream request s =
     ([Push (simple_result request (Some (uint_to_double NEW_STREAM_ID))), Signal],
      s \<lparr> es_ctx := (es_ctx s) \<lparr> es_stream_id := double_to_uint (uint_to_double NEW_STREAM_ID),
            ready_to_end_of_stream := False \<rparr> \<rparr>)"

definition handle_delete_stream :: "u64 \<Rightarrow> rtmp_message \<Rightarrow> session \<Rightarrow> send_action list \<times> session" where
  "handle_delete_stream stream_id request s =
     ([Push (simple_result request (Some (uint_to_double (double_to_uint stream_id)))), Signal],
      s \<lparr> es_ctx := (es_ctx s) \<lparr> ready_to_end_of_stream := True \<rparr> \<rparr>)"

definition CLIENT_ID :: bytes where "CLIENT_ID = ascii ''9_1_38567520''"

definition handle_publish :: "bytes \<Rightarrow> bytes \<Rightarrow> rtmp_message \<Rightarrow> session \<Rightarrow> send_action list \<times> session" where
  "handle_publish stream_name stream_type request s =
     ([Push (reply FULL 5 1 (transaction_id request) HANDLER_CHUNK_SIZE
         (OnStatus ON_STATUS_CODE_PUBLISH_START stream_name CLIENT_ID)), Signal],
      s \<lparr> es_ctx := (es_ctx s) \<lparr> es_stream_name := stream_name, es_stream_type := stream_type,
            es_client_id := CLIENT_ID \<rparr> \<rparr>)"

definition play_meta_data :: media_meta_data where
  "play_meta_data = \<lparr> data_type = DETAIL, width = uint_to_double 320, height = uint_to_double 240,
     server = ascii ''alexrtmp'', bandwidth = uint_to_double 98, description = [],
     framerate = uint_to_double 1, video_codec_id = ascii ''avc1'', audio_codec_id = ascii ''.mp3'',
     creation_date = ascii ''Tue Feb 05 17:03:07 2013'', audio_channels = uint_to_double 1,
     audio_data_rate = uint_to_double 48, audio_device = ascii ''Realtek High Definition Aud'',
     audio_input_volume = uint_to_double 75, audio_sample_rate = uint_to_double 22050, author = [],
     avc_level = uint_to_double 31, avc_profile = uint_to_double 66, copyright = [], key_words = [],
     preset_name = ascii ''Custom'', rating = [], title = [], video_data_rate = uint_to_double 50,
     video_device = ascii ''Chicony USB 2.0 Camera'', video_key_frame_frequency = uint_to_double 5 \<rparr>"

definition handle_play :: "session \<Rightarrow> send_action list \<times> session" where
  "handle_play s =
     (let name = ascii ''livestream''
      in ([Continuous_Send True, Push (control_message (StreamBegin 1)),
           Push (reply FULL 20 1 0 HANDLER_CHUNK_SIZE (OnStatus ON_STATUS_CODE_PLAY_RESET name CLIENT_ID)),
           Push (reply FULL 20 1 0 HANDLER_CHUNK_SIZE (OnStatus ON_STATUS_CODE_PLAY_START name CLIENT_ID)),
           Push (data_message FULL 20 1 HANDLER_CHUNK_SIZE RtmpSampleAccess),
           Push (data_message FULL 20 1 HANDLER_CHUNK_SIZE (OnMetaData play_meta_data)), Signal], s))"

subsection \<open>Media messages and disconnects\<close>

definition handle_media_message ::
  "server \<Rightarrow> json \<Rightarrow> rtmp_message \<Rightarrow> session \<Rightarrow> crash + send_action list \<times> session" where
  "handle_media_message srv doc request s =
     (let (c, d) = write_flv request (es_ctx s, disk s);
          (c, d) = write_flv_media_message_dump request (c, d)
      in of_access (publish_message srv doc c (exchanges s) (msg_type_value (msg_type_id (header request)))
             (abs_timestamp (header request)) (get_data request))
           ([], s \<lparr> es_ctx := c, disk := d \<rparr>)
           (\<lambda>(c, log). ([], s \<lparr> es_ctx := c, disk := d, exchanges := log \<rparr>)))"

definition notify_disconnect :: "server \<Rightarrow> json \<Rightarrow> session \<Rightarrow> session" where
  "notify_disconnect srv doc s =
     (let (c, log) = publish_to_streamer srv doc ((es_ctx s) \<lparr> ready_to_end_of_stream := True \<rparr>) (exchanges s)
      in s \<lparr> es_ctx := c, exchanges := log \<rparr>)"

definition handle_request ::
  "server \<Rightarrow> json \<Rightarrow> rtmp_message option \<Rightarrow> session \<Rightarrow> crash + send_action list \<times> session" where
  "handle_request srv doc request s = (case request of None \<Rightarrow> Inl Null_Pointer | Some m \<Rightarrow>
     (case body m of
        ConnectMessage msg \<Rightarrow> Inr (handle_connect_message msg m s)
      | ReleaseStream _ \<Rightarrow> Inr (handle_release_stream m s)
      | FCPublish name \<Rightarrow> Inr (handle_fc_publish name m s)
      | FCUnPublish _ \<Rightarrow> Inr (handle_fc_unpublish m s)
      | CreateStream \<Rightarrow> Inr (handle_create_stream m s)
      | DeleteStream stream_id \<Rightarrow> Inr (handle_delete_stream stream_id m s)
      | Publish name type \<Rightarrow> Inr (handle_publish name type m s)
      | Play _ \<Rightarrow> Inr (handle_play s)
      | AudioMessage _ \<Rightarrow> handle_media_message srv doc m s
      | VideoMessage _ \<Rightarrow> handle_media_message srv doc m s
      | _ \<Rightarrow> Inr ([], s)))"

lemmas handlers = handle_connect_message_def handle_release_stream_def handle_fc_publish_def
  handle_fc_unpublish_def handle_create_stream_def handle_delete_stream_def handle_publish_def
  handle_play_def simple_result_def

subsection \<open>Answers\<close>





fun pushed :: "send_action list \<Rightarrow> rtmp_message list" where
  "pushed [] = []"
| "pushed (Push m # acts) = m # pushed acts"
| "pushed (_ # acts) = pushed acts"

lemma pushed_append [simp]: "pushed (xs @ ys) = pushed xs @ pushed ys"
  by (induction xs rule: pushed.induct) simp_all



subsection \<open>The handler publishes\<close>

text \<open>The recorder and the commands change nothing that the publisher uses.\<close>

lemma publishing_context:
  assumes "publishing srv doc c ex q"
    and "c' = c \<lparr> provider := provider c', es_stream_name := es_stream_name c',
      es_stream_type := es_stream_type c', es_client_id := es_client_id c', es_stream_id := es_stream_id c',
      ready_to_end_of_stream := ready_to_end_of_stream c', record_flv_context := record_flv_context c',
      peer_epoch_timestamp := peer_epoch_timestamp c', base_timestamp := base_timestamp c' \<rparr>"
  shows "publishing srv doc c' ex q"
  using publishing.handler [OF assms(1)] assms(2) by metis

lemma recorder_context:
  "write_flv m (c, d) = (c', d') \<Longrightarrow> c' = c \<lparr> record_flv_context := record_flv_context c' \<rparr>"
  "write_flv_media_message_dump m (c, d) = (c', d') \<Longrightarrow> c' = c \<lparr> record_flv_context := record_flv_context c' \<rparr>"
  by (auto simp: write_flv_def write_flv_media_message_dump_def ensure_flv_header_def Let_def split: if_splits)

lemma publishing_recorder:
  assumes "publishing srv doc c ex q" "c' = c \<lparr> record_flv_context := record_flv_context c' \<rparr>"
  shows "publishing srv doc c' ex q"
proof -
  obtain f where c': "c' = c \<lparr> record_flv_context := f \<rparr>" using assms(2) by blast
  show ?thesis by (rule publishing_context [OF assms(1)]) (simp add: c')
qed

definition session_publishing :: "server \<Rightarrow> json \<Rightarrow> session \<Rightarrow> media_es list \<Rightarrow> bool" where
  "session_publishing srv doc s q \<longleftrightarrow> publishing srv doc (es_ctx s) (exchanges s) q"

lemma new_session_publishing: "session_publishing srv doc new_session []"
  by (simp add: session_publishing_def new_session_def publishing.start)

lemma media_message_publishing:
  assumes "session_publishing srv doc s q" and "handle_media_message srv doc m s = Inr (acts, s')"
  shows "acts = [] \<and> (\<exists>q'. session_publishing srv doc s' (q @ q'))"
proof -
  obtain c1 d1 where 1: "write_flv m (es_ctx s, disk s) = (c1, d1)" by fastforce
  obtain c2 d2 where 2: "write_flv_media_message_dump m (c1, d1) = (c2, d2)" by fastforce
  let ?type = "msg_type_value (msg_type_id (header m))" and ?time = "abs_timestamp (header m)"
  have p: "publishing srv doc c2 (exchanges s) q"
    using assms(1) recorder_context(1) [OF 1] recorder_context(2) [OF 2]
    unfolding session_publishing_def by (blast intro: publishing_recorder)
  show ?thesis
  proof (cases "publish_message srv doc c2 (exchanges s) ?type ?time (get_data m)")
    case (Ok r)
    obtain c3 ex3 where r: "r = (c3, ex3)" by fastforce
    obtain b c where pr: "process_flv_es_message c2 ?type ?time (get_data m) = Ok (b, c)"
      using Ok by (auto simp: publish_message_def bind_access_Ok)
    show ?thesis
      using assms(2) publishing.message [OF p pr Ok [unfolded r]]
      by (auto simp: handle_media_message_def 1 2 Ok r of_access_def session_publishing_def)
  next
    case Refused
    then have "acts = []" "es_ctx s' = c2" "exchanges s' = exchanges s"
      using assms(2) by (auto simp: handle_media_message_def 1 2 of_access_def)
    then show ?thesis
      using p by (auto simp: session_publishing_def intro!: exI [of _ "[]"])
  qed (use assms(2) in \<open>simp add: handle_media_message_def 1 2 of_access_def\<close>)
qed

lemma handle_request_publishing:
  assumes "session_publishing srv doc s q" and "handle_request srv doc req s = Inr (acts, s')"
  shows "\<exists>q'. session_publishing srv doc s' (q @ q')"
proof -
  obtain m where m: "req = Some m" using assms(2) by (cases req) (auto simp: handle_request_def)
  show ?thesis
  proof (cases "(\<exists>d. body m = AudioMessage d) \<or> (\<exists>d. body m = VideoMessage d)")
    case True
    then have "handle_media_message srv doc m s = Inr (acts, s')"
      using assms(2) by (auto simp: handle_request_def m)
    then show ?thesis using media_message_publishing [OF assms(1)] by blast
  next
    case False
    then have "session_publishing srv doc s' q"
      using assms unfolding session_publishing_def
      by (cases "body m") (auto simp: handle_request_def handlers Let_def m intro: publishing_context)
    then show ?thesis by (intro exI [of _ "[]"]) simp
  qed
qed

lemma notify_disconnect_publishing:
  assumes "session_publishing srv doc s q"
  shows "session_publishing srv doc (notify_disconnect srv doc s) q"
proof -
  obtain c ex where p: "publish_to_streamer srv doc ((es_ctx s) \<lparr> ready_to_end_of_stream := True \<rparr>) (exchanges s) = (c, ex)"
    by fastforce
  show ?thesis
    using publishing.disconnect [OF assms [unfolded session_publishing_def] p] p
    by (simp add: notify_disconnect_def session_publishing_def)
qed

end
