(* ===== verification/Concurrent_Queue.thy ===== *)
theory Concurrent_Queue
  imports Rtmp_Prelude
begin

text \<open>
  The queue of what a connection has to send, \<open>common/ConcurrentQueue.hpp\<close>: a \<open>std::queue\<close>, the list
  of its elements from the front on. Each operation runs under the mutex, so it is one step.
  \<open>front\<close> and \<open>pop\<close> are undefined for an empty queue, in C++ as here.

  Shown: what is pushed leaves the queue once and in order.
\<close>

type_synonym 'a concurrent_queue = "'a list"

definition new_queue :: "'a concurrent_queue" where
  "new_queue = []"

definition queue_push :: "'a \<Rightarrow> 'a concurrent_queue \<Rightarrow> 'a concurrent_queue" where
  "queue_push data q = q @ [data]"

definition queue_empty :: "'a concurrent_queue \<Rightarrow> bool" where
  "queue_empty q \<longleftrightarrow> q = []"

definition queue_front :: "'a concurrent_queue \<Rightarrow> 'a" where
  "queue_front q = hd q"

definition queue_pop :: "'a concurrent_queue \<Rightarrow> 'a concurrent_queue" where
  "queue_pop q = tl q"

definition queue_size :: "'a concurrent_queue \<Rightarrow> nat" where
  "queue_size q = length q"

text \<open>What its users rely on: a sequence, which grows at one end and shrinks at the other.\<close>

locale fifo =
  fixes new :: "'q"
    and push :: "'a \<Rightarrow> 'q \<Rightarrow> 'q"
    and empty :: "'q \<Rightarrow> bool"
    and front :: "'q \<Rightarrow> 'a"
    and pop :: "'q \<Rightarrow> 'q"
    and size_of :: "'q \<Rightarrow> nat"
    and contents :: "'q \<Rightarrow> 'a list"
  assumes contents_new: "contents new = []"
    and contents_push: "contents (push x q) = contents q @ [x]"
    and empty_contents: "empty q \<longleftrightarrow> contents q = []"
    and front_contents: "\<not> empty q \<Longrightarrow> front q = hd (contents q)"
    and contents_pop: "\<not> empty q \<Longrightarrow> contents (pop q) = tl (contents q)"
    and size_contents: "size_of q = length (contents q)"
begin

lemma contents_pushes: "contents (fold push xs q) = contents q @ xs"
  by (induction xs arbitrary: q) (simp_all add: contents_push)

lemma contents_pops: "i \<le> size_of q \<Longrightarrow> contents ((pop ^^ i) q) = drop i (contents q)"
proof (induction i)
  case (Suc i)
  then have "\<not> empty ((pop ^^ i) q)" by (simp add: empty_contents size_contents)
  then show ?case using Suc by (simp add: contents_pop drop_Suc tl_drop)
qed simp

text \<open>The element pushed as number \<open>i\<close> is at the front after \<open>i\<close> others have left.\<close>

lemma served_in_order:
  assumes "i < length xs"
  shows "front ((pop ^^ i) (fold push xs new)) = xs ! i"
proof -
  have "contents ((pop ^^ i) (fold push xs new)) = drop i xs"
    using assms by (simp add: contents_pops size_contents contents_pushes contents_new)
  then show ?thesis
    using assms front_contents [of "(pop ^^ i) (fold push xs new)"]
    by (simp add: empty_contents hd_drop_conv_nth)
qed

lemma not_empty_Cons:
  "\<not> empty q \<Longrightarrow> contents q = front q # contents (pop q) \<and> size_of (pop q) < size_of q"
  by (simp add: front_contents contents_pop empty_contents size_contents)

end

interpretation send_queue: fifo new_queue queue_push queue_empty queue_front queue_pop queue_size "\<lambda>q. q"
  by unfold_locales
    (simp_all add: new_queue_def queue_push_def queue_empty_def queue_front_def queue_pop_def queue_size_def)

end
