(* ===== verification/Connection.thy ===== *)
theory Connection
  imports Rtmp_Handler Handshake Concurrent_Queue
begin

text \<open>
  A connection, \<open>network/Connection.cpp\<close>: the handshake, the loop that parses what was read and hands
  each message to the handler, and the queue of what is to be sent. The parser and the handler are
  behind the abstract classes \<open>RequestParser\<close> and \<open>RequestHandler\<close>: the functions of the connection
  take them as arguments, two locales state what the connection relies on, and the parser and the
  handler of the program are interpretations.

  An asynchronous operation of asio is a phase (or a number of operations under way) of the
  connection, its completion an event; the strand runs one handler at a time. A handler returns
  \<open>None\<close> when it never ends, and a crash when it ends the process. What is handed to \<open>async_write\<close>
  is appended to \<open>written_buffers\<close>.

  Shown: every handler of a connection returns; what is sent is what was pushed, in order, once;
  messages that arrive together are handled one by one in order; and all that a connection does keeps
  the order of the frames at the streamer.
\<close>

subsection \<open>State\<close>

datatype phase = Read_C0_C1 | Write_S0_S1_S2 | Read_C2 | Read_Messages | No_Operation

record ('p, 's) connection =
  phase_of :: phase
  handshake :: handshake_manager
  conn_parser :: 'p
  conn_session :: 's
  write_queue :: "rtmp_message concurrent_queue"
  is_continuous_send_state :: bool
  timers :: nat
  request_streambuf :: bytes
  reply_streambuf :: bytes
  written_buffers :: "bytes list"
  unfinished_writes :: nat
  shut_down :: bool

definition new_connection :: "'p \<Rightarrow> 's \<Rightarrow> ('p, 's) connection" where
  "new_connection p s = \<lparr> phase_of = Read_C0_C1, handshake = new_handshake_manager, conn_parser = p,
     conn_session = s, write_queue = new_queue, is_continuous_send_state = False, timers = 0,
     request_streambuf = [], reply_streambuf = [], written_buffers = [], unfinished_writes = 0,
     shut_down = False \<rparr>"

type_synonym 'p parser_op = "'p \<Rightarrow> bytes \<Rightarrow> crash + (tribool \<times> nat \<times> bytes \<times> send_action list \<times> 'p)"
type_synonym 's handler_op = "rtmp_message option \<Rightarrow> 's \<Rightarrow> crash + (send_action list \<times> 's)"

subsection \<open>Sending\<close>

definition push_to_send_queue :: "rtmp_message \<Rightarrow> ('p, 's) connection \<Rightarrow> ('p, 's) connection" where
  "push_to_send_queue m c = c \<lparr> write_queue := queue_push m (write_queue c) \<rparr>"

text \<open>The loop over the queue, with the stream and \<open>total_writed_bytes\<close>.\<close>

function write_all :: "rtmp_message concurrent_queue \<Rightarrow> bytes \<Rightarrow> nat \<Rightarrow> (bytes \<times> nat) option" where
  "write_all q out done_size = (if queue_empty q then Some (out, done_size)
     else case write_payload (queue_front q) out of
        None \<Rightarrow> None
      | Some (out, n) \<Rightarrow> write_all (queue_pop q) out (done_size + n))"
  by pat_completeness auto
termination by (relation "measure (\<lambda>(q, _). queue_size q)") (simp_all add: send_queue.not_empty_Cons)

declare write_all.simps [simp del]

lemmas queue_simps [simp] =
  send_queue.contents_new send_queue.contents_push send_queue.empty_contents

definition write_message :: "('p, 's) connection \<Rightarrow> ('p, 's) connection option" where
  "write_message c = (if queue_empty (write_queue c) then Some c
     else case write_all (write_queue c) (reply_streambuf c) 0 of
        None \<Rightarrow> None
      | Some (out, done_size) \<Rightarrow> Some (c \<lparr> write_queue := new_queue, written_buffers := written_buffers c @ [out],
          unfinished_writes := unfinished_writes c + 1, reply_streambuf := drop done_size out \<rparr>))"

definition signal_send_message :: "('p, 's) connection \<Rightarrow> ('p, 's) connection option" where
  "signal_send_message c = (if is_continuous_send_state c then Some c else write_message c)"

definition change_continuous_send_state :: "bool \<Rightarrow> ('p, 's) connection \<Rightarrow> ('p, 's) connection" where
  "change_continuous_send_state state c =
     c \<lparr> timers := (if state \<and> \<not> is_continuous_send_state c then timers c + 1 else timers c),
         is_continuous_send_state := state \<rparr>"

text \<open>The calls that the parser and the handler make.\<close>

fun perform :: "send_action list \<Rightarrow> ('p, 's) connection \<Rightarrow> ('p, 's) connection option" where
  "perform [] c = Some c"
| "perform (Push m # acts) c = perform acts (push_to_send_queue m c)"
| "perform (Signal # acts) c = Option.bind (signal_send_message c) (perform acts)"
| "perform (Continuous_Send b # acts) c = perform acts (change_continuous_send_state b c)"

definition disconnect :: "('s \<Rightarrow> 's) \<Rightarrow> ('p, 's) connection \<Rightarrow> ('p, 's) connection" where
  "disconnect notify c = c \<lparr> conn_session := notify (conn_session c), shut_down := True \<rparr>"

definition handle_send_timer :: "bool \<Rightarrow> ('p, 's) connection \<Rightarrow> ('p, 's) connection option" where
  "handle_send_timer e c = (let c = c \<lparr> timers := timers c - 1 \<rparr> in
     if e then Some c
     else Option.bind (write_message c) (\<lambda>c.
       Some (if is_continuous_send_state c then c \<lparr> timers := timers c + 1 \<rparr> else c)))"

text \<open>When a write is complete asio consumes what it has written, if that is still in the buffer.\<close>

definition handle_write :: "('s \<Rightarrow> 's) \<Rightarrow> nat option \<Rightarrow> ('p, 's) connection \<Rightarrow> ('p, 's) connection" where
  "handle_write notify transferred c = (let c = c \<lparr> unfinished_writes := unfinished_writes c - 1 \<rparr> in
     case transferred of None \<Rightarrow> disconnect notify c
     | Some n \<Rightarrow> c \<lparr> reply_streambuf := drop n (reply_streambuf c) \<rparr>)"

subsection \<open>The handshake\<close>

text \<open>The test \<open>client_handshake_version_ == 0\<close> compares the address of a member and is false. When
  the first message is refused, no operation is started any more.\<close>

definition handle_read_handshake_C0_C1 ::
  "hmac \<Rightarrow> (u32 \<Rightarrow> u64 \<Rightarrow> 'p \<times> 's \<Rightarrow> 'p \<times> 's) \<Rightarrow> bytes \<Rightarrow> u32 \<Rightarrow> u64 \<Rightarrow> u32 \<Rightarrow> (nat \<Rightarrow> byte) \<Rightarrow>
    ('p, 's) connection \<Rightarrow> ('p, 's) connection" where
  "handle_read_handshake_C0_C1 hmac set_base received t0 t1 t2 random c =
     (let request = request_streambuf c @ received;
          (ok, hm) = validate_C0_C1 hmac t0 request (handshake c);
          c = c \<lparr> handshake := hm, request_streambuf := request, phase_of := No_Operation \<rparr>
      in if ok
         then let (p, s) = set_base (client_epoch_timestamp hm) t1 (conn_parser c, conn_session c);
                  (answer, hm) = (if digest_scheme hm = NO_DIGEST_MODE then write_S0_S1_S2 t2 random hm
                    else (get_S0_S1_S2 hmac t2 random hm, hm));
                  reply = reply_streambuf c @ answer
              in c \<lparr> handshake := hm, conn_parser := p, conn_session := s, reply_streambuf := reply,
                    request_streambuf := drop (HANDSHAKE_MSG_LENGTH * 2 + 1) request,
                    written_buffers := written_buffers c @ [reply], phase_of := Write_S0_S1_S2 \<rparr>
         else c)"

definition handle_S0_S1_S2_write :: "nat \<Rightarrow> ('p, 's) connection \<Rightarrow> ('p, 's) connection" where
  "handle_S0_S1_S2_write n c =
     c \<lparr> reply_streambuf := drop n (reply_streambuf c), phase_of := Read_C2 \<rparr>"

definition handle_read_handshake_C2 :: "bytes \<Rightarrow> ('p, 's) connection \<Rightarrow> ('p, 's) connection" where
  "handle_read_handshake_C2 received c =
     c \<lparr> request_streambuf := drop HANDSHAKE_MSG_LENGTH (request_streambuf c @ received),
         phase_of := Read_Messages \<rparr>"

subsection \<open>Reading\<close>

text \<open>The loop of \<open>handle_read\<close>; \<open>done_size\<close> is \<open>total_read_in_parse\<close>.\<close>

partial_function (option) read_loop ::
  "'p parser_op \<Rightarrow> ('p \<Rightarrow> rtmp_message option) \<Rightarrow> 's handler_op \<Rightarrow> ('s \<Rightarrow> 's) \<Rightarrow> nat \<Rightarrow> nat \<Rightarrow>
    ('p, 's) connection \<Rightarrow> (crash + ('p, 's) connection) option" where
  "read_loop parse_op parsed handle_op notify buffer_size done_size c =
     (if buffer_size = done_size then Some (Inr (c \<lparr> phase_of := Read_Messages \<rparr>))
      else case parse_op (conn_parser c) (request_streambuf c) of
        Inl e \<Rightarrow> Some (Inl e)
      | Inr (result, n, rest, acts, p) \<Rightarrow>
          Option.bind (perform acts (c \<lparr> conn_parser := p, request_streambuf := rest \<rparr>)) (\<lambda>c.
          case result of
            Yes \<Rightarrow> (case handle_op (parsed (conn_parser c)) (conn_session c) of
                Inl e \<Rightarrow> Some (Inl e)
              | Inr (acts, s) \<Rightarrow> Option.bind (perform acts (c \<lparr> conn_session := s \<rparr>))
                  (read_loop parse_op parsed handle_op notify buffer_size (done_size + n)))
          | No \<Rightarrow> Some (Inr (disconnect notify c))
          | Indeterminate \<Rightarrow> Some (Inr (c \<lparr> phase_of := Read_Messages \<rparr>))))"

definition handle_read ::
  "'p parser_op \<Rightarrow> ('p \<Rightarrow> rtmp_message option) \<Rightarrow> 's handler_op \<Rightarrow> ('s \<Rightarrow> 's) \<Rightarrow> bytes \<Rightarrow>
    ('p, 's) connection \<Rightarrow> (crash + ('p, 's) connection) option" where
  "handle_read parse_op parsed handle_op notify received c =
     (let c = c \<lparr> phase_of := No_Operation \<rparr> in
      if received = [] then Some (Inr c)
      else let c = c \<lparr> request_streambuf := request_streambuf c @ received \<rparr>
           in read_loop parse_op parsed handle_op notify (length (request_streambuf c)) 0 c)"

subsection \<open>Events\<close>

text \<open>
  The completions: a first message with the times that the clock gives meanwhile and the random
  bytes; the write of the answer; the second message; bytes; an error of the operation of the
  phase; the timer; a write of messages.
\<close>

datatype event = C0_C1 bytes u32 u64 u32 "nat \<Rightarrow> byte" | S_Written nat | C2 bytes | Bytes bytes
  | Operation_Error | Timer bool | Written "nat option"

definition READ_BUF_SIZE :: nat where "READ_BUF_SIZE = 8192"

definition enabled :: "event \<Rightarrow> ('p, 's) connection \<Rightarrow> bool" where
  "enabled ev c \<longleftrightarrow> (case ev of
      C0_C1 b _ _ _ _ \<Rightarrow> phase_of c = Read_C0_C1 \<and> length b = 1 + HANDSHAKE_MSG_LENGTH
    | S_Written n \<Rightarrow> phase_of c = Write_S0_S1_S2 \<and> n = length (reply_streambuf c)
    | C2 b \<Rightarrow> phase_of c = Read_C2 \<and> length b = HANDSHAKE_MSG_LENGTH
    | Bytes b \<Rightarrow> phase_of c = Read_Messages \<and> length b \<le> READ_BUF_SIZE
    | Operation_Error \<Rightarrow> phase_of c \<noteq> No_Operation
    | Timer _ \<Rightarrow> timers c > 0
    | Written _ \<Rightarrow> unfinished_writes c > 0)"

definition handle_event ::
  "'p parser_op \<Rightarrow> ('p \<Rightarrow> rtmp_message option) \<Rightarrow> 's handler_op \<Rightarrow> ('s \<Rightarrow> 's) \<Rightarrow> hmac \<Rightarrow>
    (u32 \<Rightarrow> u64 \<Rightarrow> 'p \<times> 's \<Rightarrow> 'p \<times> 's) \<Rightarrow> event \<Rightarrow> ('p, 's) connection \<Rightarrow>
    (crash + ('p, 's) connection) option" where
  "handle_event parse_op parsed handle_op notify hmac set_base ev c = (case ev of
      C0_C1 b t0 t1 t2 random \<Rightarrow> Some (Inr (handle_read_handshake_C0_C1 hmac set_base b t0 t1 t2 random c))
    | S_Written n \<Rightarrow> Some (Inr (handle_S0_S1_S2_write n c))
    | C2 b \<Rightarrow> Some (Inr (handle_read_handshake_C2 b c))
    | Bytes b \<Rightarrow> handle_read parse_op parsed handle_op notify b c
    | Operation_Error \<Rightarrow> Some (Inr (disconnect notify (c \<lparr> phase_of := No_Operation \<rparr>)))
    | Timer e \<Rightarrow> map_option Inr (handle_send_timer e c)
    | Written transferred \<Rightarrow> Some (Inr (handle_write notify transferred c)))"

inductive reachable ::
  "'p parser_op \<Rightarrow> ('p \<Rightarrow> rtmp_message option) \<Rightarrow> 's handler_op \<Rightarrow> ('s \<Rightarrow> 's) \<Rightarrow> hmac \<Rightarrow>
    (u32 \<Rightarrow> u64 \<Rightarrow> 'p \<times> 's \<Rightarrow> 'p \<times> 's) \<Rightarrow> 'p \<Rightarrow> 's \<Rightarrow> ('p, 's) connection \<Rightarrow> bool"
  for parse_op parsed handle_op notify hmac set_base p s where
  start: "reachable parse_op parsed handle_op notify hmac set_base p s (new_connection p s)"
| event: "reachable parse_op parsed handle_op notify hmac set_base p s c \<Longrightarrow> enabled ev c \<Longrightarrow>
    handle_event parse_op parsed handle_op notify hmac set_base ev c = Some (Inr c') \<Longrightarrow>
    reachable parse_op parsed handle_op notify hmac set_base p s c'"

subsection \<open>The queue\<close>

text \<open>Everything that was or will be sent.\<close>

definition outbox :: "('p, 's) connection \<Rightarrow> bytes" where
  "outbox c = concat (written_buffers c) @ concat (map message_bytes (write_queue c))"

definition sending_ok :: "('p, 's) connection \<Rightarrow> bool" where
  "sending_ok c \<longleftrightarrow> reply_streambuf c = [] \<and> (\<forall>m\<in>set (write_queue c). 0 < write_chunk_size m)"

lemma write_all_bytes:
  "\<forall>m\<in>set q. 0 < write_chunk_size m \<Longrightarrow> write_all q out n =
    Some (out @ concat (map message_bytes q), n + length (concat (map message_bytes q)))"
proof (induction q out n rule: write_all.induct)
  case (1 q out n)
  show ?case
  proof (cases q)
    case (Cons m ms)
    then have "queue_front q = m" "queue_pop q = ms" "\<not> queue_empty q"
      using send_queue.not_empty_Cons [of q] by simp_all
    then show ?thesis
      using 1 Cons by (simp add: write_all.simps [of "m # ms"] write_payload_bytes)
  qed (simp add: write_all.simps [of "[]"])
qed

text \<open>What a call does to the rest of the connection.\<close>

definition same_but_sending :: "('p, 's) connection \<Rightarrow> ('p, 's) connection \<Rightarrow> bool" where
  "same_but_sending c c' \<longleftrightarrow> phase_of c' = phase_of c \<and> handshake c' = handshake c
     \<and> conn_parser c' = conn_parser c \<and> conn_session c' = conn_session c
     \<and> request_streambuf c' = request_streambuf c \<and> shut_down c' = shut_down c"

lemma write_message_ok:
  assumes "sending_ok c"
  shows "\<exists>c'. write_message c = Some c' \<and> sending_ok c' \<and> write_queue c' = [] \<and> outbox c' = outbox c
    \<and> same_but_sending c c' \<and> is_continuous_send_state c' = is_continuous_send_state c"
  using assms
  by (auto simp: same_but_sending_def write_message_def sending_ok_def write_all_bytes outbox_def)

definition acts_ok :: "send_action list \<Rightarrow> bool" where
  "acts_ok acts \<longleftrightarrow> (\<forall>m\<in>set (pushed acts). 0 < write_chunk_size m)"

lemma same_but_sending_trans:
  "same_but_sending a b \<Longrightarrow> same_but_sending b c \<Longrightarrow> same_but_sending a c"
  by (simp add: same_but_sending_def)

lemma perform_ok:
  assumes "sending_ok c" and "acts_ok acts"
  shows "\<exists>c'. perform acts c = Some c' \<and> sending_ok c' \<and> same_but_sending c c'
    \<and> outbox c' = outbox c @ concat (map message_bytes (pushed acts))"
  using assms
proof (induction acts arbitrary: c)
  case Nil
  then show ?case by (simp add: same_but_sending_def)
next
  case (Cons a acts)
  have rest: ?case if "perform (a # acts) c = perform acts c1" "sending_ok c1" "same_but_sending c c1"
    "outbox c1 = outbox c @ concat (map message_bytes (pushed [a]))" "acts_ok acts" for c1
    using Cons.IH [OF that(2,5)] that same_but_sending_trans [OF that(3)] by (cases a) auto
  show ?case
  proof (cases a)
    case (Push m)
    then show ?thesis
      using Cons.prems
      by (intro rest [of "push_to_send_queue m c"])
        (auto simp: push_to_send_queue_def sending_ok_def acts_ok_def outbox_def same_but_sending_def)
  next
    case Signal
    obtain c1 where "write_message c = Some c1" "sending_ok c1" "outbox c1 = outbox c" "same_but_sending c c1"
      using write_message_ok [OF Cons.prems(1)] by blast
    then show ?thesis
      using Cons.prems Signal
      by (intro rest [of "if is_continuous_send_state c then c else c1"])
        (auto simp: signal_send_message_def acts_ok_def same_but_sending_def)
  next
    case (Continuous_Send b)
    then show ?thesis
      using Cons.prems
      by (intro rest [of "change_continuous_send_state b c"])
        (auto simp: change_continuous_send_state_def sending_ok_def acts_ok_def outbox_def same_but_sending_def)
  qed
qed

lemma perform_append:
  "perform (xs @ ys) c = Option.bind (perform xs c) (perform ys)"
proof (induction xs arbitrary: c)
  case (Cons a xs)
  then show ?case by (cases a; cases "signal_send_message c") simp_all
qed simp

subsection \<open>What a connection relies on\<close>

text \<open>The parser (\<open>network/RequestParser.hpp\<close>): it takes a prefix of what it is given, reports its
  length when it has a message, and then has either read something or come closer to reading
  (\<open>rank\<close>).\<close>

locale request_parser =
  fixes parse_op :: "'p parser_op"
    and rank :: "'p \<Rightarrow> nat"
  assumes parser_reads: "parse_op p s = Inr (res, n, r, acts, p') \<Longrightarrow>
      \<exists>pre. s = pre @ r \<and> (res = Yes \<longrightarrow> n = length pre)"
    and parser_progress: "parse_op p s = Inr (Yes, n, r, acts, p') \<Longrightarrow> length r < length s \<or> rank p' < rank p"
    and parser_acts: "parse_op p s = Inr (res, n, r, acts, p') \<Longrightarrow> acts_ok acts"
begin

text \<open>A turn of the loop up to the result of the parser.\<close>

lemma parse_turn:
  assumes "parse_op (conn_parser c) (request_streambuf c) = Inr (res, n, r, acts, p)" and "sending_ok c"
  obtains c1 where "perform acts (c \<lparr> conn_parser := p, request_streambuf := r \<rparr>) = Some c1" "sending_ok c1"
    "conn_parser c1 = p" "request_streambuf c1 = r" "conn_session c1 = conn_session c" "phase_of c1 = phase_of c"
proof -
  have "sending_ok (c \<lparr> conn_parser := p, request_streambuf := r \<rparr>)"
    using assms(2) by (simp add: sending_ok_def)
  from perform_ok [OF this parser_acts [OF assms(1)]] show thesis
    using that by (auto simp: same_but_sending_def)
qed

end

text \<open>The handler (\<open>network/RequestHandler.hpp\<close>): what it asks to be sent can be written, and it keeps
  what has to hold of its session.\<close>

locale request_handler =
  fixes handle_op :: "'s handler_op"
    and notify :: "'s \<Rightarrow> 's"
    and session_ok :: "'s \<Rightarrow> bool"
  assumes handler_acts: "handle_op req s = Inr (acts, s') \<Longrightarrow> acts_ok acts"
    and handler_keeps: "session_ok s \<Longrightarrow> handle_op req s = Inr (acts, s') \<Longrightarrow> session_ok s'"
    and notify_keeps: "session_ok s \<Longrightarrow> session_ok (notify s)"
begin

lemma handle_turn:
  assumes "handle_op req (conn_session c) = Inr (acts, s)" and "sending_ok c" and "session_ok (conn_session c)"
  obtains c2 where "perform acts (c \<lparr> conn_session := s \<rparr>) = Some c2" "sending_ok c2" "session_ok (conn_session c2)"
    "conn_parser c2 = conn_parser c" "request_streambuf c2 = request_streambuf c" "conn_session c2 = s"
    "phase_of c2 = phase_of c"
proof -
  have "sending_ok (c \<lparr> conn_session := s \<rparr>)" using assms(2) by (simp add: sending_ok_def)
  from perform_ok [OF this handler_acts [OF assms(1)]] show thesis
    using that handler_keeps [OF assms(3,1)] by (auto simp: same_but_sending_def)
qed

end

locale connection_parts = request_parser parse_op rank + request_handler handle_op notify session_ok
  for parse_op :: "'p parser_op" and rank and handle_op :: "'s handler_op" and notify and session_ok +
  fixes parsed :: "'p \<Rightarrow> rtmp_message option"
    and hmac :: hmac
    and set_base :: "u32 \<Rightarrow> u64 \<Rightarrow> 'p \<times> 's \<Rightarrow> 'p \<times> 's"
  assumes set_base_keeps: "session_ok s \<Longrightarrow> session_ok (snd (set_base t b (p, s)))"
begin

definition conn_ok :: "('p, 's) connection \<Rightarrow> bool" where
  "conn_ok c \<longleftrightarrow> session_ok (conn_session c) \<and> (\<forall>m\<in>set (write_queue c). 0 < write_chunk_size m)
     \<and> (reply_streambuf c = [] \<or>
        phase_of c \<in> {Write_S0_S1_S2, No_Operation} \<and> timers c = 0 \<and> unfinished_writes c = 0)
     \<and> (phase_of c \<in> {Read_C0_C1, Write_S0_S1_S2, Read_C2} \<longrightarrow>
          timers c = 0 \<and> unfinished_writes c = 0 \<and> request_streambuf c = [])"

lemma conn_ok_reading:
  "phase_of c = Read_Messages \<Longrightarrow> conn_ok c \<longleftrightarrow> session_ok (conn_session c) \<and> sending_ok c"
  by (auto simp: conn_ok_def sending_ok_def)

lemma conn_ok_disconnect: "conn_ok c \<Longrightarrow> conn_ok (disconnect notify c)"
  by (auto simp: conn_ok_def disconnect_def notify_keeps)

lemma conn_ok_sending: "sending_ok c \<Longrightarrow> session_ok (conn_session c) \<Longrightarrow>
    phase_of c \<in> {Read_Messages, No_Operation} \<Longrightarrow> conn_ok c"
  by (auto simp: conn_ok_def sending_ok_def)

lemma conn_ok_stop:
  assumes "sending_ok c" and "session_ok (conn_session c)" and "phase_of c = No_Operation"
  shows "conn_ok (c \<lparr> phase_of := Read_Messages \<rparr>)" and "conn_ok (disconnect notify c)"
  using assms conn_ok_disconnect [OF conn_ok_sending] by (auto simp: conn_ok_def sending_ok_def)

lemma read_loop_done:
  "read_loop parse_op parsed handle_op notify n n c = Some (Inr (c \<lparr> phase_of := Read_Messages \<rparr>))"
  by (subst read_loop.simps) simp

lemma read_loop_crash:
  "buffer_size \<noteq> done_size \<Longrightarrow> parse_op (conn_parser c) (request_streambuf c) = Inl e \<Longrightarrow>
    read_loop parse_op parsed handle_op notify buffer_size done_size c = Some (Inl e)"
  by (subst read_loop.simps) simp

lemma read_loop_turn:
  assumes "buffer_size \<noteq> done_size"
    and "parse_op (conn_parser c) (request_streambuf c) = Inr (res, n, r, acts, p)"
    and "perform acts (c \<lparr> conn_parser := p, request_streambuf := r \<rparr>) = Some c1"
  shows "read_loop parse_op parsed handle_op notify buffer_size done_size c = (case res of
      Yes \<Rightarrow> (case handle_op (parsed (conn_parser c1)) (conn_session c1) of Inl e \<Rightarrow> Some (Inl e)
        | Inr (acts, s) \<Rightarrow> Option.bind (perform acts (c1 \<lparr> conn_session := s \<rparr>))
            (read_loop parse_op parsed handle_op notify buffer_size (done_size + n)))
    | No \<Rightarrow> Some (Inr (disconnect notify c1))
    | Indeterminate \<Rightarrow> Some (Inr (c1 \<lparr> phase_of := Read_Messages \<rparr>)))"
  using assms by (subst read_loop.simps) simp

lemma read_loop_ok:
  assumes "sending_ok c" and "session_ok (conn_session c)"
    and "done_size + length (request_streambuf c) = buffer_size" and "phase_of c = No_Operation"
  shows "\<exists>r. read_loop parse_op parsed handle_op notify buffer_size done_size c = Some r
    \<and> (\<forall>c'. r = Inr c' \<longrightarrow> conn_ok c')"
  using assms
proof (induction "(length (request_streambuf c), rank (conn_parser c))" arbitrary: c done_size
    rule: wf_induct_rule [OF wf_lex_prod [OF wf_less_than wf_less_than]])
  case (1 c done_size)
  let ?s = "request_streambuf c"
  note stop = conn_ok_stop [OF 1(2,3,5)]
  consider "buffer_size = done_size" | e where "buffer_size \<noteq> done_size" "parse_op (conn_parser c) ?s = Inl e"
    | res n r acts p where "buffer_size \<noteq> done_size" "parse_op (conn_parser c) ?s = Inr (res, n, r, acts, p)"
    by (metis old.sum.exhaust prod_cases5)
  then show ?case
  proof cases
    case 1
    then show ?thesis using stop(1) by (simp add: read_loop_done)
  next
    case 2
    then show ?thesis by (simp add: read_loop_crash)
  next
    case (3 res n r acts p)
    obtain c1 where c1: "perform acts (c \<lparr> conn_parser := p, request_streambuf := r \<rparr>) = Some c1"
      "sending_ok c1" "conn_parser c1 = p" "request_streambuf c1 = r" "session_ok (conn_session c1)"
      "phase_of c1 = No_Operation"
      using parse_turn [OF 3(2) 1(2)] 1(3,5) by metis
    note turn = read_loop_turn [OF 3(1,2) c1(1)] and stop = conn_ok_stop [OF c1(2,5,6)]
    show ?thesis
    proof (cases "res = Yes")
      case False
      then show ?thesis using stop by (cases res) (simp_all add: turn)
    next
      case True
      show ?thesis
      proof (cases "handle_op (parsed (conn_parser c1)) (conn_session c1)")
        case (Inr a)
        then obtain acts2 s where a: "handle_op (parsed (conn_parser c1)) (conn_session c1) = Inr (acts2, s)"
          by (cases a) simp
        obtain c2 where c2: "perform acts2 (c1 \<lparr> conn_session := s \<rparr>) = Some c2" "sending_ok c2"
          "session_ok (conn_session c2)" "conn_parser c2 = p" "request_streambuf c2 = r" "phase_of c2 = No_Operation"
          using handle_turn [OF a c1(2,5)] c1(3,4,6) by metis
        have "((length (request_streambuf c2), rank (conn_parser c2)), length ?s, rank (conn_parser c))
            \<in> less_than <*lex*> less_than" and "done_size + n + length (request_streambuf c2) = buffer_size"
          using parser_progress [OF 3(2) [unfolded True]] parser_reads [OF 3(2)] True 1(4) c2(4,5) by auto
        from 1(1) [OF this(1) c2(2,3) this(2) c2(6)] show ?thesis
          by (simp add: turn True a c2(1))
      qed (simp add: turn True)
    qed
  qed
qed

lemma handle_read_ok:
  assumes "conn_ok c" and "phase_of c = Read_Messages"
  shows "\<exists>r. handle_read parse_op parsed handle_op notify b c = Some r \<and> (\<forall>c'. r = Inr c' \<longrightarrow> conn_ok c')"
proof (cases "b = []")
  case True
  then show ?thesis using assms by (simp add: handle_read_def conn_ok_def)
next
  case False
  let ?c = "c \<lparr> phase_of := No_Operation, request_streambuf := request_streambuf c @ b \<rparr>"
  have "sending_ok ?c" "session_ok (conn_session ?c)"
    using assms conn_ok_reading by (auto simp: sending_ok_def)
  then show ?thesis
    using read_loop_ok [of ?c 0 "length (request_streambuf ?c)"] False by (simp add: handle_read_def Let_def)
qed

lemma handle_send_timer_ok:
  assumes "conn_ok c" and "0 < timers c"
  shows "\<exists>c'. handle_send_timer e c = Some c' \<and> conn_ok c'"
proof -
  let ?c = "c \<lparr> timers := timers c - 1 \<rparr>"
  have s: "sending_ok ?c" and p: "phase_of c \<in> {Read_Messages, No_Operation}" and
    ok: "session_ok (conn_session c)" and "conn_ok ?c"
    using assms by (cases "phase_of c"; auto simp: conn_ok_def sending_ok_def)+
  obtain c1 where c1: "write_message ?c = Some c1" "sending_ok c1" "same_but_sending ?c c1"
    using write_message_ok [OF s] by blast
  have "conn_ok c1" "conn_ok (c1 \<lparr> timers := timers c1 + 1 \<rparr>)"
    using c1 p ok by (auto simp: conn_ok_def sending_ok_def same_but_sending_def)
  then show ?thesis using c1(1) \<open>conn_ok ?c\<close> by (simp add: handle_send_timer_def Let_def)
qed

lemma handshake_ok:
  assumes "conn_ok c"
  shows "phase_of c = Read_C0_C1 \<Longrightarrow> length b = 1 + HANDSHAKE_MSG_LENGTH \<Longrightarrow>
      conn_ok (handle_read_handshake_C0_C1 hmac set_base b t0 t1 t2 random c)"
    and "phase_of c = Write_S0_S1_S2 \<Longrightarrow> n = length (reply_streambuf c) \<Longrightarrow> conn_ok (handle_S0_S1_S2_write n c)"
    and "phase_of c = Read_C2 \<Longrightarrow> length b = HANDSHAKE_MSG_LENGTH \<Longrightarrow> conn_ok (handle_read_handshake_C2 b c)"
proof -
  assume "phase_of c = Read_C0_C1" "length b = 1 + HANDSHAKE_MSG_LENGTH"
  then show "conn_ok (handle_read_handshake_C0_C1 hmac set_base b t0 t1 t2 random c)"
    using assms set_base_keeps [of "conn_session c" _ t1 "conn_parser c"]
    by (auto simp: handle_read_handshake_C0_C1_def conn_ok_def Let_def HANDSHAKE_MSG_LENGTH_def
        split: prod.split) (metis snd_conv)+
qed (use assms in \<open>auto simp: handle_S0_S1_S2_write_def handle_read_handshake_C2_def conn_ok_def\<close>)

lemma event_ok:
  assumes "conn_ok c" and "enabled ev c"
  shows "\<exists>r. handle_event parse_op parsed handle_op notify hmac set_base ev c = Some r
    \<and> (\<forall>c'. r = Inr c' \<longrightarrow> conn_ok c')"
proof (cases ev)
  case (Timer e)
  then obtain c' where "handle_send_timer e c = Some c'" "conn_ok c'"
    using handle_send_timer_ok [OF assms(1)] assms(2) by (auto simp: enabled_def)
  then show ?thesis by (simp add: handle_event_def Timer)
next
  case Operation_Error
  have "conn_ok (c \<lparr> phase_of := No_Operation \<rparr>)"
    using assms by (auto simp: conn_ok_def enabled_def Operation_Error)
  then show ?thesis using conn_ok_disconnect by (simp add: handle_event_def Operation_Error)
next
  case (Written transferred)
  let ?c = "c \<lparr> unfinished_writes := unfinished_writes c - 1 \<rparr>"
  have "conn_ok ?c" "reply_streambuf c = []"
    using assms by (auto simp: conn_ok_def enabled_def Written)
  moreover from this have "conn_ok (?c \<lparr> reply_streambuf := [] \<rparr>)" by (simp add: conn_ok_def)
  ultimately show ?thesis
    using conn_ok_disconnect [of ?c] by (cases transferred) (simp_all add: handle_event_def Written handle_write_def)
qed (use assms handle_read_ok [OF assms(1)] handshake_ok [OF assms(1)] in
    \<open>simp_all add: handle_event_def enabled_def\<close>)

lemma event_keeps:
  "conn_ok c \<Longrightarrow> enabled ev c \<Longrightarrow>
    handle_event parse_op parsed handle_op notify hmac set_base ev c = Some (Inr c') \<Longrightarrow> conn_ok c'"
  using event_ok by fastforce

lemma reachable_ok:
  assumes "reachable parse_op parsed handle_op notify hmac set_base p s c" and "session_ok s"
  shows "conn_ok c"
  using assms(1)
proof (induction rule: reachable.induct)
  case start
  then show ?case using assms(2) by (simp add: conn_ok_def new_connection_def)
next
  case (event c ev c')
  show ?case by (rule event_keeps [OF event.IH event.hyps(2,3)])
qed

end

subsection \<open>The parser and the handler of the program\<close>

definition rtmp_parse :: "u32 \<Rightarrow> rtmp_parser parser_op" where
  "rtmp_parse junk p s = (case parse junk p s of
      Done out \<Rightarrow> Inr out | Thrown e \<Rightarrow> Inl (Uncaught e) | Null_Deref \<Rightarrow> Inl Null_Pointer)"

definition set_base_timestamp :: "u32 \<Rightarrow> u64 \<Rightarrow> rtmp_parser \<times> session \<Rightarrow> rtmp_parser \<times> session" where
  "set_base_timestamp time now = (\<lambda>(p, s).
     (p \<lparr> pay_parser := (pay_parser p) \<lparr> last_message_timestamp := time \<rparr> \<rparr>,
      s \<lparr> es_ctx := (es_ctx s) \<lparr> peer_epoch_timestamp := ucast time, base_timestamp := now \<rparr> \<rparr>))"

definition parser_rank :: "rtmp_parser \<Rightarrow> nat" where
  "parser_rank p = (if at_header (hdr_parser p) then 0 else 1) + (if rtmp_state p = HEADER_PARSING then 0 else 1)"

lemma parse_private_progress:
  assumes "parse_private junk p k s = Done (res, n, r, q)"
  shows "res = Yes \<longrightarrow> length r \<le> length s \<and> (length r < length s \<or> parser_rank q < parser_rank p)"
  using assms
proof (induction rule: parse_private_induct)
  case (Header p k s m s1 hp res n r q)
  have "at_header hp" "length s = m + length s1" "at_header (hdr_parser p) \<longrightarrow> length s1 < length s"
    using header_progress [OF Header(3)] by auto
  then show ?case using Header(1,4) by (auto simp: parser_rank_def split: if_splits)
next
  case (Next_Chunk p k s m s1 pp res n r q)
  then show ?case using payload_progress [OF Next_Chunk(3)] by (auto simp: parser_rank_def split: if_splits)
next
  case (Payload_Complete p k s m s1 pp res n r q)
  then show ?case using payload_progress [OF Payload_Complete(3)] by (auto simp: parser_rank_def split: if_splits)
qed (auto simp: parser_rank_def)

lemma rtmp_parse_private:
  assumes "rtmp_parse junk p s = Inr (res, n, r, acts, q)"
  shows "\<exists>q1. parse_private junk p 0 s = Done (res, n, r, q1) \<and> parser_rank q = parser_rank q1 \<and> acts_ok acts"
proof (cases "parse_private junk p 0 s")
  case (Done out)
  obtain res1 n1 r1 q1 where out: "out = (res1, n1, r1, q1)" by (metis prod_cases4)
  have "\<exists>acts q. rtmp_parse junk p s = Inr (res1, n1, r1, acts, q) \<and> parser_rank q = parser_rank q1 \<and> acts_ok acts"
    by (simp add: rtmp_parse_def parse_def Done out Let_def parser_rank_def acts_ok_def control_message_def
        base_message_def)
  then show ?thesis using assms Done out by auto
qed (use assms in \<open>simp_all add: rtmp_parse_def parse_def\<close>)

interpretation rtmp: request_parser "rtmp_parse junk" parser_rank
proof
  fix p s res n r acts p'
  assume "rtmp_parse junk p s = Inr (res, n, r, acts, p')"
  then obtain q1 where q: "parse_private junk p 0 s = Done (res, n, r, q1)" "acts_ok acts"
    using rtmp_parse_private by blast
  then show "\<exists>pre. s = pre @ r \<and> (res = Yes \<longrightarrow> n = length pre)" "acts_ok acts"
    using parse_private_reads [OF q(1)] by auto
next
  fix p s n r acts p'
  assume "rtmp_parse junk p s = Inr (Yes, n, r, acts, p')"
  then show "length r < length s \<or> parser_rank p' < parser_rank p"
    using rtmp_parse_private parse_private_progress by metis
qed

definition posting :: "server \<Rightarrow> json \<Rightarrow> session \<Rightarrow> bool" where
  "posting srv doc s \<longleftrightarrow> (\<exists>q. session_publishing srv doc s q)"

lemma handle_request_acts:
  assumes "handle_request srv doc req s = Inr (acts, s')"
  shows "acts_ok acts"
proof -
  obtain m where m: "req = Some m" using assms by (cases req) (auto simp: handle_request_def)
  have "acts = []" if "handle_media_message srv doc m s = Inr (acts, s')"
    using that by (auto simp: handle_media_message_def of_access_def Let_def split: prod.splits access.splits)
  then show ?thesis
    using assms
    by (cases "body m") (auto simp: m handle_request_def handlers acts_ok_def reply_def addressed_def
        command_message_def control_message_def data_message_def base_message_def Let_def HANDLER_CHUNK_SIZE_def)
qed

interpretation rtmp_handler: request_handler "handle_request srv doc" "notify_disconnect srv doc" "posting srv doc"
proof
  fix s req acts s'
  assume h: "handle_request srv doc req s = Inr (acts, s')"
  then show "acts_ok acts" by (rule handle_request_acts)
  assume "posting srv doc s"
  then show "posting srv doc s'" using handle_request_publishing h unfolding posting_def by blast
next
  fix s assume "posting srv doc s"
  then show "posting srv doc (notify_disconnect srv doc s)"
    using notify_disconnect_publishing unfolding posting_def by blast
qed

interpretation rtmp_connection: connection_parts "rtmp_parse junk" parser_rank "handle_request srv doc"
  "notify_disconnect srv doc" "posting srv doc" parsed_message mac set_base_timestamp
  for junk srv doc and mac :: hmac
proof
  fix s and t :: u32 and b :: u64 and p :: rtmp_parser
  assume "posting srv doc s"
  then obtain q where "publishing srv doc (es_ctx s) (exchanges s) q"
    by (auto simp: posting_def session_publishing_def)
  then have "publishing srv doc ((es_ctx s) \<lparr> peer_epoch_timestamp := ucast t, base_timestamp := b \<rparr>) (exchanges s) q"
    by (rule publishing_context) simp
  then show "posting srv doc (snd (set_base_timestamp t b (p, s)))"
    by (auto simp: posting_def session_publishing_def set_base_timestamp_def)
qed

abbreviation rtmp_reachable :: "u32 \<Rightarrow> server \<Rightarrow> json \<Rightarrow> hmac \<Rightarrow> (rtmp_parser, session) connection \<Rightarrow> bool" where
  "rtmp_reachable junk srv doc mac \<equiv> reachable (rtmp_parse junk) parsed_message (handle_request srv doc)
     (notify_disconnect srv doc) mac set_base_timestamp new_rtmp_parser new_session"

abbreviation rtmp_event :: "u32 \<Rightarrow> server \<Rightarrow> json \<Rightarrow> hmac \<Rightarrow> event \<Rightarrow> (rtmp_parser, session) connection \<Rightarrow>
    (crash + (rtmp_parser, session) connection) option" where
  "rtmp_event junk srv doc mac \<equiv> handle_event (rtmp_parse junk) parsed_message (handle_request srv doc)
     (notify_disconnect srv doc) mac set_base_timestamp"

lemma posting_new: "posting srv doc new_session"
  using new_session_publishing by (auto simp: posting_def)

text \<open>A connection after its handshake.\<close>

definition zero_C0_C1 :: bytes where "zero_C0_C1 = 3 # replicate 1536 0"

definition open_connection :: "hmac \<Rightarrow> (rtmp_parser, session) connection" where
  "open_connection mac = (let c = handle_read_handshake_C0_C1 mac set_base_timestamp zero_C0_C1 0 0 0 of_nat
       (new_connection new_rtmp_parser new_session)
     in handle_read_handshake_C2 (replicate 1536 0) (handle_S0_S1_S2_write (length (reply_streambuf c)) c))"

lemma zero_accepted: "fst (validate_C0_C1 mac t zero_C0_C1 hm)"
proof -
  have "fst (validate_C1_ver3 mac t C1 h)" for C1 h
    by (simp add: validate_C1_ver3_def Let_def)
  then show ?thesis by (simp add: validate_C0_C1_def zero_C0_C1_def Let_def)
qed

lemma open_connection_reachable: "rtmp_reachable junk srv doc mac (open_connection mac)"
proof -
  let ?c0 = "new_connection new_rtmp_parser new_session"
  let ?c1 = "handle_read_handshake_C0_C1 mac set_base_timestamp zero_C0_C1 0 0 0 of_nat ?c0"
  let ?c2 = "handle_S0_S1_S2_write (length (reply_streambuf ?c1)) ?c1"
  let ?e1 = "C0_C1 zero_C0_C1 0 0 0 of_nat" and ?e2 = "S_Written (length (reply_streambuf ?c1))"
    and ?e3 = "C2 (replicate 1536 0)"
  obtain ok hm where v: "validate_C0_C1 mac 0 zero_C0_C1 new_handshake_manager = (ok, hm)" by fastforce
  have ok using v zero_accepted [of mac 0 new_handshake_manager] by simp
  then have p1: "phase_of ?c1 = Write_S0_S1_S2"
    by (simp add: handle_read_handshake_C0_C1_def new_connection_def v Let_def split: prod.split)
  have e: "enabled ?e1 ?c0" "enabled ?e2 ?c1" "enabled ?e3 ?c2"
    using p1 by (simp_all add: enabled_def new_connection_def zero_C0_C1_def HANDSHAKE_MSG_LENGTH_def
        handle_S0_S1_S2_write_def)
  have "rtmp_reachable junk srv doc mac ?c1"
    by (rule reachable.event [OF reachable.start e(1)]) (simp add: handle_event_def)
  then have "rtmp_reachable junk srv doc mac ?c2"
    by (rule reachable.event [OF _ e(2)]) (simp add: handle_event_def)
  then have "rtmp_reachable junk srv doc mac (handle_read_handshake_C2 (replicate 1536 0) ?c2)"
    by (rule reachable.event [OF _ e(3)]) (simp add: handle_event_def)
  then show ?thesis by (simp add: open_connection_def Let_def)
qed

lemma open_connection_state:
  "phase_of (open_connection mac) = Read_Messages" "request_streambuf (open_connection mac) = []"
  "sending_ok (open_connection mac)" "\<not> is_continuous_send_state (open_connection mac)"
  "idle (conn_parser (open_connection mac))" "recv_chunk_size (pay_parser (conn_parser (open_connection mac))) = 128"
  "rtmp_state (conn_parser (open_connection mac)) = HEADER_PARSING"
  "hdr_parser (conn_parser (open_connection mac)) = header_parser_reset"
  "conn_session (open_connection mac) = new_session
    \<lparr> es_ctx := new_es_context \<lparr> peer_epoch_timestamp := ucast (client_epoch_timestamp
        (snd (validate_C0_C1 mac 0 zero_C0_C1 new_handshake_manager))), base_timestamp := 0 \<rparr> \<rparr>"
proof -
  obtain ok hm where v: "validate_C0_C1 mac 0 zero_C0_C1 new_handshake_manager = (ok, hm)" by fastforce
  have ok using zero_accepted [of mac 0 new_handshake_manager] v by simp
  have [simp]: "length zero_C0_C1 = 1537" by (simp add: zero_C0_C1_def)
  note [simp] = open_connection_def Let_def handle_read_handshake_C2_def handle_S0_S1_S2_write_def sending_ok_def
    handle_read_handshake_C0_C1_def new_connection_def set_base_timestamp_def HANDSHAKE_MSG_LENGTH_def
    v \<open>ok\<close>
  show "phase_of (open_connection mac) = Read_Messages" "request_streambuf (open_connection mac) = []"
    "sending_ok (open_connection mac)" "\<not> is_continuous_send_state (open_connection mac)"
    "conn_session (open_connection mac) = new_session
      \<lparr> es_ctx := new_es_context \<lparr> peer_epoch_timestamp := ucast (client_epoch_timestamp
          (snd (validate_C0_C1 mac 0 zero_C0_C1 new_handshake_manager))), base_timestamp := 0 \<rparr> \<rparr>"
    by (simp_all add: new_session_def split: prod.split)
  show "idle (conn_parser (open_connection mac))" "recv_chunk_size (pay_parser (conn_parser (open_connection mac))) = 128"
    "rtmp_state (conn_parser (open_connection mac)) = HEADER_PARSING"
    "hdr_parser (conn_parser (open_connection mac)) = header_parser_reset"
    using idle_new by (auto simp: idle_def new_rtmp_parser_def split: prod.split)
qed

subsection \<open>Every handler returns\<close>

text \<open>C3: whatever the client sends, and however its bytes are cut, every handler of a connection returns
  (or ends the process): the loop of \<open>handle_read\<close> ends also for messages without a payload, and the
  loops of the writer never see a chunk size of 0.\<close>

theorem handlers_return:
  assumes "rtmp_reachable junk srv doc mac c" and "enabled ev c"
  shows "\<exists>r. rtmp_event junk srv doc mac ev c = Some r"
  using rtmp_connection.event_ok [OF rtmp_connection.reachable_ok [OF assms(1) posting_new] assms(2)] by blast

theorem handlers_return_witness:
  "\<exists>r. rtmp_event 0 all_ok id_doc sum_hmac (Bytes [2, 0, 0, 0, 0, 0, 4, 5, 0, 0, 0, 0]) (open_connection sum_hmac) = Some r"
proof (rule handlers_return [OF open_connection_reachable])
  show "enabled (Bytes [2, 0, 0, 0, 0, 0, 4, 5, 0, 0, 0, 0]) (open_connection sum_hmac)"
    by (simp add: enabled_def READ_BUF_SIZE_def open_connection_state)
qed

subsection \<open>Frames of a connection\<close>

lemma posting_in_order:
  assumes "posting srv doc s"
  shows "\<exists>sent. accepted_es (exchanges s) = frames_to_send (es_ctx s) sent
    \<and> map es_frame_number (sent @ media_es_list (es_ctx s)) =
      map (\<lambda>i. of_nat (i + 1)) [0 ..< length (sent @ media_es_list (es_ctx s))]
    \<and> frame_number (es_ctx s) = of_nat (length (sent @ media_es_list (es_ctx s)))"
proof -
  obtain q where q: "publishing srv doc (es_ctx s) (exchanges s) q"
    using assms by (auto simp: posting_def session_publishing_def)
  obtain sent where "q = sent @ media_es_list (es_ctx s)" "accepted_es (exchanges s) = frames_to_send (es_ctx s) sent"
    using frames_accounted_run [OF q] by (auto simp: frames_accounted_def)
  then show ?thesis using numbered_run [OF q] by (auto simp: numbered_from_1_def)
qed

text \<open>C1: in every state that a connection can reach, whatever its client, the clock and the streamer did, the
  frame requests that the streamer has accepted are those of the frames 1 to \<open>k\<close> with data, in order, and the
  frames that wait are the frames \<open>k + 1\<close> to \<open>n\<close>.\<close>

theorem connection_posts_in_order:
  assumes "rtmp_reachable junk srv doc mac c"
  defines "ctx \<equiv> es_ctx (conn_session c)"
  shows "\<exists>sent. accepted_es (exchanges (conn_session c)) = frames_to_send ctx sent
    \<and> map es_frame_number (sent @ media_es_list ctx) = map (\<lambda>i. of_nat (i + 1)) [0 ..< length (sent @ media_es_list ctx)]
    \<and> frame_number ctx = of_nat (length (sent @ media_es_list ctx))"
proof -
  have "posting srv doc (conn_session c)"
    using rtmp_connection.reachable_ok [OF assms(1) posting_new] by (simp add: rtmp_connection.conn_ok_def)
  then show ?thesis unfolding ctx_def by (rule posting_in_order)
qed

theorem connection_posts_in_order_witness:
  "\<exists>sent. accepted_es (exchanges (conn_session (open_connection sum_hmac))) =
     frames_to_send (es_ctx (conn_session (open_connection sum_hmac))) sent"
  using connection_posts_in_order [OF open_connection_reachable [of 0 all_ok id_doc sum_hmac]] by blast

subsection \<open>The queue is a queue\<close>

text \<open>C18: what the parser and the handler push is sent as a queue: after their calls everything that was
  or will be sent is what there was before, followed by the messages pushed, in order and once; and
  outside the continuous mode a signal leaves nothing in the queue.\<close>

theorem sent_in_order:
  assumes "sending_ok c" and "acts_ok acts"
  shows "\<exists>c' c''. perform acts c = Some c' \<and> sending_ok c'
    \<and> outbox c' = outbox c @ concat (map message_bytes (pushed acts))
    \<and> perform (acts @ [Signal]) c = Some c'' \<and> outbox c'' = outbox c'
    \<and> (\<not> is_continuous_send_state c' \<longrightarrow> write_queue c'' = [])"
proof -
  obtain c' where c': "perform acts c = Some c'" "sending_ok c'"
    "outbox c' = outbox c @ concat (map message_bytes (pushed acts))"
    using perform_ok [OF assms] by blast
  obtain c'' where c'': "write_message c' = Some c''" "write_queue c'' = []" "outbox c'' = outbox c'"
    using write_message_ok [OF c'(2)] by blast
  show ?thesis
    using c' c'' by (cases "is_continuous_send_state c'")
      (auto simp: perform_append signal_send_message_def)
qed

theorem sent_in_order_witness:
  "\<exists>c'. perform ([Push (control_message (StreamBegin 0)), Push (control_message (Acknowledgement 7))] @ [Signal])
      (open_connection sum_hmac) = Some c' \<and> write_queue c' = []
    \<and> outbox c' = outbox (open_connection sum_hmac) @ message_bytes (control_message (StreamBegin 0)) @
        message_bytes (control_message (Acknowledgement 7))"
proof -
  have "acts_ok [Push (control_message (StreamBegin 0)), Push (control_message (Acknowledgement 7))]"
    by (simp add: acts_ok_def control_message_def base_message_def)
  from sent_in_order [OF open_connection_state(3) [of sum_hmac] this] open_connection_state(4) [of sum_hmac] show ?thesis
    by (auto simp: push_to_send_queue_def)
qed

subsection \<open>Media from a client\<close>

text \<open>Messages of a client: what the writer puts on the wire, in chunks of the size that is expected.\<close>

definition deliverable :: "u32 \<Rightarrow> rtmp_message \<Rightarrow> bool" where
  "deliverable chunk m \<longleftrightarrow> (\<exists>b d cs sid ts. m = media_message FULL cs sid chunk ts b \<and> media_body b = Some d
     \<and> 0 < length d \<and> length d < 0x1000000 \<and> 2 \<le> cs \<and> cs \<le> 6559 \<and> ts < 0xFFFFFF)"

primrec run_handlers :: "server \<Rightarrow> json \<Rightarrow> rtmp_message list \<Rightarrow> session \<Rightarrow> crash + session" where
  "run_handlers srv doc [] s = Inr s"
| "run_handlers srv doc (m # ms) s = (case handle_request srv doc (Some m) s of
      Inl e \<Rightarrow> Inl e | Inr (acts, s) \<Rightarrow> run_handlers srv doc ms s)"

lemma arrived_refl: "arrived m m"
  by (simp add: arrived_def)

lemma deliverable_parse:
  assumes "deliverable chunk m" and "idle p" and "recv_chunk_size (pay_parser p) = chunk" and "0 < chunk"
  obtains acts q got where "rtmp_parse junk p (message_bytes m @ s) = Inr (Yes, length (message_bytes m), s, acts, q)"
    "parsed_message q = Some got" "arrived m got" "idle q" "recv_chunk_size (pay_parser q) = chunk"
    "message_bytes m \<noteq> []"
proof -
  obtain b d cs sid ts where m: "m = media_message FULL cs sid chunk ts b" "media_body b = Some d"
    "0 < length d" "length d < 0x1000000" "2 \<le> cs" "cs \<le> 6559" "ts < 0xFFFFFF"
    using assms(1) by (auto simp: deliverable_def)
  have wire: "write_payload m [] = Some (message_bytes m, length (message_bytes m))"
    using write_payload_bytes [of m "[]"] assms(4) m(1) by (simp add: media_message_def addressed_def Let_def)
  obtain acts q got where "parse junk p (message_bytes m @ s) = Done (Yes, length (message_bytes m), s, acts, q)"
    "parsed_message q = Some got" "arrived m got" "idle q" "recv_chunk_size (pay_parser q) = chunk"
    using media_arrives [OF assms(2) m(2-7), of m sid junk s] assms(3,4) m(1) wire by auto
  moreover have "message_bytes m \<noteq> []"
    using media_bytes [OF m(2)] m(1)
    by (simp add: header_bytes_def message_header_bytes_def header_reset_def be24_def)
  ultimately show thesis using that by (simp add: rtmp_parse_def)
qed

lemma handle_media_no_acts:
  "media_body (body m) = Some d \<Longrightarrow> handle_request srv doc (Some m) s = Inr (acts, s') \<Longrightarrow> acts = []"
  by (cases "body m") (auto simp: media_body_def handle_request_def handle_media_message_def of_access_def Let_def
      split: prod.splits access.splits)

lemma arrived_media: "deliverable chunk m \<Longrightarrow> arrived m got \<Longrightarrow> \<exists>d. media_body (body got) = Some d"
  by (auto simp: deliverable_def arrived_def media_message_def addressed_def base_message_def Let_def)

abbreviation rtmp_read_loop :: "u32 \<Rightarrow> server \<Rightarrow> json \<Rightarrow> nat \<Rightarrow> nat \<Rightarrow> (rtmp_parser, session) connection \<Rightarrow>
    (crash + (rtmp_parser, session) connection) option" where
  "rtmp_read_loop junk srv doc \<equiv> read_loop (rtmp_parse junk) parsed_message (handle_request srv doc) (notify_disconnect srv doc)"

definition delivered_to :: "server \<Rightarrow> json \<Rightarrow> rtmp_message list \<Rightarrow> session \<Rightarrow>
    (crash + (rtmp_parser, session) connection) option \<Rightarrow> bool" where
  "delivered_to srv doc ms s out \<longleftrightarrow> (\<exists>gots. list_all2 arrived ms gots \<and> (case run_handlers srv doc gots s of
      Inl e \<Rightarrow> out = Some (Inl e)
    | Inr s' \<Rightarrow> \<exists>c'. out = Some (Inr c') \<and> conn_session c' = s' \<and> phase_of c' = Read_Messages
        \<and> request_streambuf c' = [] \<and> idle (conn_parser c')))"

lemma delivered_to_Cons:
  assumes "arrived m got" and "handle_request srv doc (Some got) s = Inr (acts, s')" and "delivered_to srv doc ms s' out"
  shows "delivered_to srv doc (m # ms) s out"
proof -
  obtain gots where "list_all2 arrived ms gots" "case run_handlers srv doc gots s' of
      Inl e \<Rightarrow> out = Some (Inl e)
    | Inr s' \<Rightarrow> \<exists>c'. out = Some (Inr c') \<and> conn_session c' = s' \<and> phase_of c' = Read_Messages
        \<and> request_streambuf c' = [] \<and> idle (conn_parser c')"
    using assms(3) unfolding delivered_to_def by blast
  then show ?thesis
    unfolding delivered_to_def using assms(1,2) by (intro exI [of _ "got # gots"]) simp
qed

lemma delivered_to_crash:
  assumes "arrived m got" and "handle_request srv doc (Some got) s = Inl e"
  shows "delivered_to srv doc (m # ms) s (Some (Inl e))"
  unfolding delivered_to_def using assms arrived_refl
  by (intro exI [of _ "got # ms"]) (simp add: list_all2_same)

lemma read_loop_delivers:
  assumes "\<forall>m\<in>set ms. deliverable chunk m" and "idle (conn_parser c)"
    and "recv_chunk_size (pay_parser (conn_parser c)) = chunk" and "0 < chunk" and "sending_ok c"
    and "request_streambuf c = concat (map message_bytes ms)"
    and "done_size + length (request_streambuf c) = buffer_size"
  shows "delivered_to srv doc ms (conn_session c) (rtmp_read_loop junk srv doc buffer_size done_size c)"
  using assms
proof (induction ms arbitrary: c done_size)
  case Nil
  then show ?case by (simp add: rtmp_connection.read_loop_done delivered_to_def)
next
  case (Cons m ms)
  let ?rest = "concat (map message_bytes ms)" and ?loop = "rtmp_read_loop junk srv doc buffer_size"
  have m: "deliverable chunk m" using Cons.prems(1) by simp
  obtain acts q got where p: "rtmp_parse junk (conn_parser c) (message_bytes m @ ?rest) =
      Inr (Yes, length (message_bytes m), ?rest, acts, q)" "parsed_message q = Some got" "arrived m got" "idle q"
    "recv_chunk_size (pay_parser q) = chunk" "message_bytes m \<noteq> []"
    using deliverable_parse [OF m Cons.prems(2-4), of junk ?rest] by metis
  have s: "request_streambuf c = message_bytes m @ ?rest" using Cons.prems(6) by simp
  then have ne: "buffer_size \<noteq> done_size" using Cons.prems(7) p(6) by auto
  note parse = p(1) [folded s]
  obtain c1 where c1: "perform acts (c \<lparr> conn_parser := q, request_streambuf := ?rest \<rparr>) = Some c1"
    "sending_ok c1" "conn_parser c1 = q" "request_streambuf c1 = ?rest" "conn_session c1 = conn_session c"
    using rtmp.parse_turn [OF parse Cons.prems(5)] by metis
  note turn = rtmp_connection.read_loop_turn [where srv = srv and doc = doc, OF ne parse c1(1)]
  show ?case
  proof (cases "handle_request srv doc (Some got) (conn_session c)")
    case (Inl e)
    then show ?thesis
      using delivered_to_crash [OF p(3) Inl] p(2) c1(3,5) by (simp add: turn)
  next
    case (Inr a)
    then obtain s' where h: "handle_request srv doc (Some got) (conn_session c) = Inr ([], s')"
      using arrived_media [OF m p(3)] handle_media_no_acts by (cases a) blast
    let ?c2 = "c1 \<lparr> conn_session := s' \<rparr>"
    have "delivered_to srv doc ms (conn_session ?c2) (?loop (done_size + length (message_bytes m)) ?c2)"
      by (rule Cons.IH) (use Cons.prems c1 p(4,5) s in \<open>simp_all add: sending_ok_def\<close>)
    then show ?thesis
      using delivered_to_Cons [OF p(3) h] p(2) c1(3,5) h by (simp add: turn)
  qed
qed

text \<open>C2: media messages of a client that arrive together are handled one by one, in order, each with the
  payload, the time and the streams that were sent; then the connection reads again, with
  nothing left over. If one of them ends the process, those before it were handled.\<close>

theorem media_delivered:
  assumes "phase_of c = Read_Messages" and "request_streambuf c = []" and "sending_ok c"
    and "idle (conn_parser c)" and "0 < recv_chunk_size (pay_parser (conn_parser c))"
    and "\<forall>m\<in>set ms. deliverable (recv_chunk_size (pay_parser (conn_parser c))) m" and "ms \<noteq> []"
  shows "delivered_to srv doc ms (conn_session c)
    (rtmp_event junk srv doc mac (Bytes (concat (map message_bytes ms))) c)"
proof -
  let ?b = "concat (map message_bytes ms)"
  let ?c = "c \<lparr> phase_of := No_Operation, request_streambuf := ?b \<rparr>"
  obtain m ms' where ms: "ms = m # ms'" using assms(7) by (cases ms) auto
  have "message_bytes m \<noteq> []"
    using deliverable_parse [OF _ assms(4) refl assms(5), of m junk "[]"] assms(6) ms by (metis list.set_intros(1))
  then have "?b \<noteq> []" using ms by simp
  moreover have "delivered_to srv doc ms (conn_session ?c) (rtmp_read_loop junk srv doc (length ?b) 0 ?c)"
    using assms by (intro read_loop_delivers [where chunk = "recv_chunk_size (pay_parser (conn_parser c))"])
      (auto simp: sending_ok_def)
  ultimately show ?thesis
    using assms(2) unfolding handle_event_def handle_read_def Let_def
    by (simp only: event.case if_False) simp
qed

theorem media_delivered_witness:
  "delivered_to all_ok id_doc [media_message FULL 6 1 128 1000 (VideoMessage (replicate 300 7))]
     (conn_session (open_connection sum_hmac))
     (rtmp_event 0 all_ok id_doc sum_hmac (Bytes (concat (map message_bytes
        [media_message FULL 6 1 128 1000 (VideoMessage (replicate 300 7))]))) (open_connection sum_hmac))"
proof (rule media_delivered)
  let ?c = "open_connection sum_hmac"
  note c = open_connection_state [of sum_hmac]
  show "phase_of ?c = Read_Messages" "request_streambuf ?c = []" "sending_ok ?c" "idle (conn_parser ?c)"
    "0 < recv_chunk_size (pay_parser (conn_parser ?c))" by (simp_all add: c)
  have "deliverable 128 (media_message FULL 6 1 128 1000 (VideoMessage (replicate 300 7)))"
    unfolding deliverable_def
    by (intro exI [of _ "VideoMessage (replicate 300 7)"] exI [of _ "replicate 300 7"] exI [of _ 6] exI [of _ 1]
        exI [of _ 1000]) (simp add: media_body_def)
  then show "\<forall>m\<in>set [media_message FULL 6 1 128 1000 (VideoMessage (replicate 300 7))].
      deliverable (recv_chunk_size (pay_parser (conn_parser ?c))) m" by (simp add: c)
qed simp

subsection \<open>Refused clients\<close>

text \<open>A client whose first byte is not version 3 gets no answer, and its connection has no operation under
  way any more: no event can follow, the session is not told of a disconnect, and with the last
  handler the connection object itself goes.\<close>

theorem refused_version_dropped:
  assumes "rtmp_reachable junk srv doc mac c" and "enabled (C0_C1 b t0 t1 t2 random) c" and "hd b \<noteq> 3"
  shows "\<exists>c'. rtmp_event junk srv doc mac (C0_C1 b t0 t1 t2 random) c = Some (Inr c') \<and> (\<forall>ev. \<not> enabled ev c')
    \<and> shut_down c' = shut_down c \<and> conn_session c' = conn_session c \<and> written_buffers c' = written_buffers c"
proof -
  have ok: "timers c = 0" "unfinished_writes c = 0" "request_streambuf c = []"
    using rtmp_connection.reachable_ok [OF assms(1) posting_new] assms(2)
    by (simp_all add: rtmp_connection.conn_ok_def enabled_def)
  obtain v C1 where b: "b = v # C1" using assms(2) by (cases b) (auto simp: enabled_def)
  then have v: "validate_C0_C1 mac t0 b (handshake c) = (False, (handshake c) \<lparr> client_rtmp_version := v \<rparr>)"
    using assms(3) by (simp add: validate_C0_C1_def Let_def)
  let ?c' = "c \<lparr> handshake := (handshake c) \<lparr> client_rtmp_version := v \<rparr>, request_streambuf := b,
    phase_of := No_Operation \<rparr>"
  have "rtmp_event junk srv doc mac (C0_C1 b t0 t1 t2 random) c = Some (Inr ?c')"
    using ok(3) by (simp add: handle_event_def handle_read_handshake_C0_C1_def v Let_def)
  moreover have "\<not> enabled ev ?c'" for ev
    using ok by (cases ev) (simp_all add: enabled_def)
  ultimately show ?thesis by simp
qed

theorem refused_version_dropped_witness:
  "\<exists>c'. rtmp_event 0 all_ok id_doc sum_hmac (C0_C1 (replicate 1537 6) 0 0 0 of_nat)
      (new_connection new_rtmp_parser new_session) = Some (Inr c')
    \<and> (\<forall>ev. \<not> enabled ev c') \<and> \<not> shut_down c'"
proof -
  let ?c = "new_connection new_rtmp_parser new_session"
  have "\<exists>c'. rtmp_event 0 all_ok id_doc sum_hmac (C0_C1 (replicate 1537 6) 0 0 0 of_nat) ?c = Some (Inr c')
      \<and> (\<forall>ev. \<not> enabled ev c') \<and> shut_down c' = shut_down ?c \<and> conn_session c' = conn_session ?c
      \<and> written_buffers c' = written_buffers ?c"
  proof (rule refused_version_dropped [OF reachable.start])
    show "enabled (C0_C1 (replicate 1537 6) 0 0 0 of_nat) ?c"
      by (simp add: enabled_def new_connection_def HANDSHAKE_MSG_LENGTH_def)
  qed simp
  then show ?thesis by (auto simp: new_connection_def)
qed

end
