(* ===== verification/Fragments.thy ===== *)
theory Fragments
  imports Rtmp_Parser
begin

text \<open>
  The parser and the network: how TCP cuts the stream. Shown: parsing a piece, and then what it
  left together with the bytes that come later, gives what parsing all of them at once gives,
  unless the parser waits for the first chunk of a message with a delta header, where
  \<open>Payload_Parser\<close> shows that it does not.
\<close>

subsection \<open>More bytes change nothing that is decided\<close>

lemma take_chunk_extend:
  "take_chunk junk cs i p s = Done (x, n, r, q) \<Longrightarrow> x \<noteq> WAITING_MORE_PAYLOAD_DATA \<Longrightarrow>
    take_chunk junk cs i p (s @ t) = Done (x, n, r @ t, q)"
  by (auto simp: take_chunk_def Let_def split: if_splits outcome.splits prod.splits bool.splits)

lemma parse_payload_extend:
  assumes "parse_payload junk h p s = Done (x, n, r, q)" and "x \<noteq> WAITING_MORE_PAYLOAD_DATA"
  shows "parse_payload junk h p (s @ t) = Done (x, n, r @ t, q)"
  using assms take_chunk_extend
  by (auto simp: parse_payload_def Let_def split: option.splits sum.splits)

subsection \<open>Waiting\<close>

lemma full_recv_info_again:
  assumes "format_type h = FULL" and "new_recv_info h p = Inr (i, q)"
  shows "new_recv_info h q = Inr (i, q)"
proof -
  obtain r where "unroll (sn32 (ucast (timestamp h))) (sn32 (ucast (last_message_timestamp p)))
      (rollover_count p) = Inr (unroll_count (sn32 (ucast (timestamp h))) r, r)"
    by (rule unroll_value)
  then show ?thesis
    using assms
    by (auto simp: new_recv_info_def take_length_and_type_def has_msg_len_and_type_def full_timestamp_def
        unroll_same Let_def)
qed

lemma take_chunk_wait:
  "take_chunk junk cs i p s = Done (WAITING_MORE_PAYLOAD_DATA, n, r, q) \<Longrightarrow> r = s \<and> q = p"
  by (auto simp: take_chunk_def Let_def split: if_splits outcome.splits prod.splits bool.splits)

lemma payload_resumes:
  assumes "parse_payload junk h p s = Done (WAITING_MORE_PAYLOAD_DATA, n, r, q)"
    and "incomplete_infos q (chunk_stream_id h) = None \<longrightarrow> format_type h = FULL"
  shows "r = s \<and> parse_payload junk h q (s @ t) = parse_payload junk h p (s @ t)"
proof (cases "incomplete_infos p (chunk_stream_id h)")
  case None
  obtain i p' where new: "new_recv_info h p = Inr (i, p')" "take_chunk junk (chunk_stream_id h) i p' s =
      Done (WAITING_MORE_PAYLOAD_DATA, n, r, q)"
    using assms(1) None by (auto simp: parse_payload_def Let_def split: sum.splits)
  note q = take_chunk_wait [OF new(2)]
  then have none: "incomplete_infos q (chunk_stream_id h) = None"
    using new_recv_info_infos [OF new(1)] None by simp
  then show ?thesis
    using full_recv_info_again [OF _ new(1)] assms(2) q None new(1) by (simp add: parse_payload_def Let_def)
next
  case (Some i)
  then have "take_chunk junk (chunk_stream_id h) i p s = Done (WAITING_MORE_PAYLOAD_DATA, n, r, q)"
    using assms(1) by (simp add: parse_payload_def Let_def)
  from take_chunk_wait [OF this] show ?thesis by simp
qed

subsection \<open>Pieces\<close>

text \<open>The same result, stream and parser; the bytes counted by the call are not compared.\<close>

definition same_outcome :: "rtmp_step \<Rightarrow> rtmp_step \<Rightarrow> bool" where
  "same_outcome x y \<longleftrightarrow> (case x of
      Done (res, n, r, q) \<Rightarrow> \<exists>m. y = Done (res, m, r, q)
    | Thrown e \<Rightarrow> y = Thrown e
    | Null_Deref \<Rightarrow> y = Null_Deref)"

lemma same_outcome_refl [simp]: "same_outcome x x"
  by (auto simp: same_outcome_def split: outcome.split)

lemma same_outcome_Done [simp]: "same_outcome (Done (res, n, r, q)) (Done (res, m, r, q))"
  by (simp add: same_outcome_def)

lemma count_irrelevant: "same_outcome (parse_private junk p k s) (parse_private junk p k' s)"
proof (induction junk p k s arbitrary: k' rule: parse_private.induct)
  case (1 junk p k s)
  show ?case
  proof (cases "rtmp_state p")
    case HEADER_PARSING
    obtain res n r hp where h: "parse_header (hdr_parser p) s = (res, n, r, hp)" by (metis prod_cases4)
    then show ?thesis
      using 1(1) [OF HEADER_PARSING] HEADER_PARSING
      by (cases res) (auto simp: parse_private.simps [of junk p k s] parse_private.simps [of junk p k' s])
  next
    case PAYLOAD_PARSING
    show ?thesis
    proof (cases "parse_payload junk (parsed_header p) (pay_parser p) s")
      case (Done out)
      obtain x n r pp where out: "out = (x, n, r, pp)" by (metis prod_cases4)
      then show ?thesis
        using 1(2,3) [OF PAYLOAD_PARSING] PAYLOAD_PARSING Done
        by (cases x) (auto simp: parse_private.simps [of junk p k s] parse_private.simps [of junk p k' s])
    qed (auto simp: PAYLOAD_PARSING parse_private.simps [of junk p k s] parse_private.simps [of junk p k' s])
  qed (simp add: parse_private.simps [of junk p k s] parse_private.simps [of junk p k' s])
qed

text \<open>A parser that waits, and goes on as if it had not.\<close>

definition resumable :: "rtmp_parser \<Rightarrow> bool" where
  "resumable p \<longleftrightarrow> rtmp_state p = PAYLOAD_PARSING \<longrightarrow>
     incomplete_infos (pay_parser p) (chunk_stream_id (parsed_header p)) = None \<longrightarrow>
     format_type (parsed_header p) = FULL"

lemma message_complete_replaces: "message_complete b (p\<lparr>pay_parser := pp\<rparr>) = message_complete b p"
  by (simp add: message_complete_def Let_def set_win_ack_size_def cong: option.case_cong rtmp_body.case_cong)

lemma header_stop_resumes:
  assumes "rtmp_state p = HEADER_PARSING" and "s \<noteq> []"
    and "parse_header (hdr_parser p) s = (Indeterminate, m, r, hp)"
  shows "same_outcome (parse_private junk (p\<lparr>hdr_parser := hp\<rparr>) k' (r @ t)) (parse_private junk p k'' (s @ t))"
proof -
  obtain res' m' r' hp' where h: "parse_header hp (r @ t) = (res', m', r', hp')" by (metis prod_cases4)
  have "parse_header (hdr_parser p) (s @ t) = (res', m + m', r', hp')"
    using header_resumes [of "hdr_parser p" s m r hp t] assms(3) h by simp
  then show ?thesis
    using assms h count_irrelevant
    by (cases res'; cases "r @ t = []")
      (auto simp: parse_private.simps [of junk "p\<lparr>hdr_parser := hp\<rparr>"] parse_private.simps [of junk p k'' "s @ t"]
        parse_private.simps [of junk "p\<lparr>hdr_parser := hp'\<rparr>"] parse_private.simps [of junk p k'' s])
qed

lemma payload_stop_resumes:
  assumes "rtmp_state p = PAYLOAD_PARSING" and "s \<noteq> []"
    and "parse_payload junk (parsed_header p) (pay_parser p) s = Done (WAITING_MORE_PAYLOAD_DATA, m, r, pp)"
    and "resumable (p\<lparr>pay_parser := pp\<rparr>)"
  shows "same_outcome (parse_private junk (p\<lparr>pay_parser := pp\<rparr>) k' (r @ t)) (parse_private junk p k'' (s @ t))"
proof -
  let ?q = "p\<lparr>pay_parser := pp\<rparr>"
  have "r = s" "parse_payload junk (parsed_header p) pp (s @ t) = parse_payload junk (parsed_header p) (pay_parser p) (s @ t)"
    using payload_resumes [OF assms(3), of t] assms(1,4) by (simp_all add: resumable_def)
  then show ?thesis
    using assms(1,2) count_irrelevant
    by (simp add: message_complete_replaces parse_private.simps [of junk ?q k'] parse_private.simps [of junk p k'']
        split: outcome.split payload_result.split prod.split)
qed

lemma private_resumes:
  assumes "parse_private junk p k s = Done (res, n, r, q)"
  shows "res = Indeterminate \<longrightarrow> resumable q \<longrightarrow>
    (\<forall>k' k''. same_outcome (parse_private junk q k' (r @ t)) (parse_private junk p k'' (s @ t)))"
  using assms
proof (induction rule: parse_private_induct)
  case (Waits p k)
  then show ?case by (simp add: count_irrelevant)
next
  case (Header_Stops p k s res m r hp)
  then show ?case using header_stop_resumes by blast
next
  case (Header p k s m s1 hp res n r q)
  have "parse_header (hdr_parser p) (s @ t) = (Yes, m, s1 @ t, hp)"
    using parse_header_extend [OF Header(3)] by simp
  then have "parse_private junk p k'' (s @ t) = parse_private junk (p\<lparr>hdr_parser := hp,
      parsed_header := parsed_msg hp, rtmp_state := PAYLOAD_PARSING\<rparr>) (k'' + m) (s1 @ t)" for k''
    using Header(1,2) by (simp add: parse_private.simps [of junk p k'' "s @ t"])
  then show ?case using Header(4) by simp
next
  case (Payload_Stops p k s res x m r pp)
  then show ?case using payload_stop_resumes by blast
next
  case (Next_Chunk p k s m s1 pp res n r q)
  have "parse_payload junk (parsed_header p) (pay_parser p) (s @ t) = Done (WAITING_NEXT_CHUNK, m, s1 @ t, pp)"
    using parse_payload_extend [OF Next_Chunk(3)] by simp
  then have "parse_private junk p k'' (s @ t) =
      parse_private junk (p\<lparr>pay_parser := pp, rtmp_state := HEADER_PARSING\<rparr>) (k'' + m) (s1 @ t)" for k''
    using Next_Chunk(1,2) by (simp add: parse_private.simps [of junk p k'' "s @ t"])
  then show ?case using Next_Chunk(4) by simp
next
  case (Payload_Complete p k s m s1 pp res n r q)
  have "parse_payload junk (parsed_header p) (pay_parser p) (s @ t) = Done (PAYLOAD_COMPLETE, m, s1 @ t, pp)"
    using parse_payload_extend [OF Payload_Complete(3)] by simp
  then have "parse_private junk p k'' (s @ t) = parse_private junk (message_complete pp p) (k'' + m) (s1 @ t)" for k''
    using Payload_Complete(1,2) by (simp add: parse_private.simps [of junk p k'' "s @ t"])
  then show ?case using Payload_Complete(4) by simp
qed simp

text \<open>A stream that arrives in two pieces is parsed as if it had arrived at once: when the first piece
  is not enough, what is left of it and the second piece together give the same result, the same
  rest of the stream and the same parser, unless the parser waits for the payload of a first chunk
  whose header is not a full one.\<close>

theorem pieces_parsed_alike:
  assumes "parse_private junk p 0 s = Done (Indeterminate, n, r, q)" and "resumable q"
  shows "same_outcome (parse_private junk q 0 (r @ t)) (parse_private junk p 0 (s @ t))"
  using private_resumes [OF assms(1)] assms(2) by blast

theorem pieces_parsed_alike_witness:
  "\<exists>n r q. parse_private 0 new_rtmp_parser 0 [2, 0, 0, 0, 0, 0] = Done (Indeterminate, n, r, q) \<and>
     same_outcome (parse_private 0 q 0 (r @ [4, 5, 0, 0, 0, 0, 0, 0, 1, 0]))
       (parse_private 0 new_rtmp_parser 0 [2, 0, 0, 0, 0, 0, 4, 5, 0, 0, 0, 0, 0, 0, 1, 0])"
proof -
  obtain res n r hp where h: "parse_header (hdr_parser new_rtmp_parser) [2, 0, 0, 0, 0, 0] = (res, n, r, hp)"
    by (metis prod_cases4)
  have "fst (parse_header (hdr_parser new_rtmp_parser) [2, 0, 0, 0, 0, 0]) = Indeterminate"
    by code_simp
  then have p: "parse_private 0 new_rtmp_parser 0 [2, 0, 0, 0, 0, 0] =
      Done (Indeterminate, 0, r, new_rtmp_parser\<lparr>hdr_parser := hp\<rparr>)"
    using h by (simp add: parse_private.simps new_rtmp_parser_def)
  have "resumable (new_rtmp_parser\<lparr>hdr_parser := hp\<rparr>)"
    by (simp add: resumable_def new_rtmp_parser_def)
  from pieces_parsed_alike [OF p this, of "[4, 5, 0, 0, 0, 0, 0, 0, 1, 0]"] show ?thesis
    using p by auto
qed

end
