(* ===== verification/Segments.thy ===== *)
theory Segments
  imports Connection Fragments
begin

text \<open>
  The connection and the network: the reads into which TCP happens to cut what a client sends.
  Shown: as long as no read ends between a header that is not a full one, of a new message, and the
  end of the first chunk of the message, the session (its context, the files and the requests to
  the streamer) does not depend on them, nor does what the parser holds; only the counting for the
  acknowledgements does. A read that ends there moves the clock of the message
  (\<open>waiting_moves_clock\<close>).
\<close>

subsection \<open>The parser without its counters\<close>

definition uncounted :: "rtmp_parser \<Rightarrow> rtmp_parser" where
  "uncounted p = p\<lparr>readed_bytes_count := 0, win_ack_size := 0, next_ack_send_size := 0,
     read_bytes_count_in_window := 0\<rparr>"

lemma uncounted_eq:
  "uncounted p = uncounted q \<longleftrightarrow> rtmp_state p = rtmp_state q \<and> hdr_parser p = hdr_parser q
     \<and> pay_parser p = pay_parser q \<and> parsed_header p = parsed_header q \<and> parsed_message p = parsed_message q"
  by (cases p; cases q) (auto simp: uncounted_def)

lemma uncounted_complete:
  "uncounted p = uncounted q \<Longrightarrow> uncounted (message_complete pp p) = uncounted (message_complete pp q)"
  by (auto simp: uncounted_eq message_complete_def Let_def set_win_ack_size_def
      split: option.split rtmp_body.split)

definition alike :: "rtmp_step \<Rightarrow> rtmp_step \<Rightarrow> bool" where
  "alike x y \<longleftrightarrow> (case x of
      Done (res, n, r, p) \<Rightarrow> \<exists>m q. y = Done (res, m, r, q) \<and> uncounted q = uncounted p
    | Thrown e \<Rightarrow> y = Thrown e
    | Null_Deref \<Rightarrow> y = Null_Deref)"

lemma alike_Done [simp]:
  "alike (Done (res, n, r, p)) (Done (res', m, r', q)) \<longleftrightarrow> res' = res \<and> r' = r \<and> uncounted q = uncounted p"
  by (auto simp: alike_def)

lemma alike_crash [simp]: "alike (Thrown e) (Thrown e)" "alike Null_Deref Null_Deref"
  by (simp_all add: alike_def)

lemma same_outcome_alike: "same_outcome x y \<Longrightarrow> alike x y"
  by (auto simp: same_outcome_def alike_def split: outcome.splits)

lemma parse_private_alike:
  "uncounted p = uncounted q \<Longrightarrow> alike (parse_private junk p k s) (parse_private junk q k' s)"
proof (induction junk p k s arbitrary: q k' rule: parse_private.induct)
  case (1 junk p k s)
  note same = 1(4) [unfolded uncounted_eq]
  note eqs = parse_private.simps [of junk p k s] parse_private.simps [of junk q k' s]
  show ?case
  proof (cases "rtmp_state p")
    case HEADER_PARSING
    obtain res n r hp where h: "parse_header (hdr_parser p) s = (res, n, r, hp)" by (metis prod_cases4)
    let ?up = "\<lambda>p. p\<lparr>hdr_parser := hp, parsed_header := parsed_msg hp, rtmp_state := PAYLOAD_PARSING\<rparr>"
    have up: "uncounted (?up p) = uncounted (?up q)" using same by (simp add: uncounted_eq)
    have "alike (parse_private junk (?up p) (k + n) r) (parse_private junk (?up q) (k' + n) r)"
      if "res = Yes" "s \<noteq> []"
      by (rule 1(1) [OF HEADER_PARSING that(2) _ refl _ _ up]) (use h that in simp_all)
    then show ?thesis
      using same HEADER_PARSING h by (cases res) (simp_all add: eqs uncounted_eq)
  next
    case PAYLOAD_PARSING
    show ?thesis
    proof (cases "parse_payload junk (parsed_header p) (pay_parser p) s")
      case (Done out)
      obtain x n r pp where out: "out = (x, n, r, pp)" by (metis prod_cases4)
      let ?up = "\<lambda>p. p\<lparr>pay_parser := pp, rtmp_state := HEADER_PARSING\<rparr>"
      have up: "uncounted (?up p) = uncounted (?up q)" using same by (simp add: uncounted_eq)
      note more = uncounted_complete [OF 1(4), of pp]
      have "alike (parse_private junk (?up p) (k + n) r) (parse_private junk (?up q) (k' + n) r)"
        if "x = WAITING_NEXT_CHUNK" "s \<noteq> []"
        by (rule 1(3) [OF PAYLOAD_PARSING that(2) Done _ _ _ _ up]) (use out that in simp_all)
      moreover have "alike (parse_private junk (message_complete pp p) (k + n) r)
          (parse_private junk (message_complete pp q) (k' + n) r)"
        if "x = PAYLOAD_COMPLETE" "s \<noteq> []"
        by (rule 1(2) [OF PAYLOAD_PARSING that(2) Done _ _ _ _ more]) (use out that in simp_all)
      ultimately show ?thesis
        using same PAYLOAD_PARSING Done out by (cases x) (simp_all add: eqs uncounted_eq)
    qed (use same PAYLOAD_PARSING in \<open>simp_all add: eqs uncounted_eq\<close>)
  qed (use same in \<open>simp add: eqs uncounted_eq\<close>)
qed

lemma parse_private_extend:
  assumes "parse_private junk p k s = Done (Yes, n, r, q)"
  shows "parse_private junk p k (s @ t) = Done (Yes, n, r @ t, q)"
proof -
  have "res = Yes \<Longrightarrow> parse_private junk p k (s @ t) = Done (res, n, r @ t, q)"
    if "parse_private junk p k s = Done (res, n, r, q)" for res
    using that
  proof (induction rule: parse_private_induct)
    case (Header p k s m s1 hp res n r q)
    then show ?case
      using parse_header_extend [OF Header(3)] by (simp add: parse_private.simps [of junk p k "s @ t"])
  next
    case (Next_Chunk p k s m s1 pp res n r q)
    then show ?case
      using parse_payload_extend [OF Next_Chunk(3)] by (simp add: parse_private.simps [of junk p k "s @ t"])
  next
    case (Payload_Complete p k s m s1 pp res n r q)
    then show ?case
      using parse_payload_extend [OF Payload_Complete(3)] by (simp add: parse_private.simps [of junk p k "s @ t"])
  next
    case (Completed p k s)
    then show ?case by (simp add: parse_private.simps [of junk p k "s @ t"])
  qed auto
  then show ?thesis using assms by blast
qed

text \<open>The same for the parser with its acknowledgements.\<close>

lemma rtmp_parse_uncounted:
  assumes "parse_private junk p 0 s = Done (res, n, r, p1)"
  obtains acts q where "rtmp_parse junk p s = Inr (res, n, r, acts, q)" "uncounted q = uncounted p1"
proof -
  have "\<exists>acts q. rtmp_parse junk p s = Inr (res, n, r, acts, q) \<and> uncounted q = uncounted p1"
    using assms by (simp add: rtmp_parse_def parse_def Let_def uncounted_def)
  then show thesis using that by blast
qed

lemma rtmp_parse_alike:
  assumes "alike (parse_private junk p 0 s) (parse_private junk q 0 t)"
    and "rtmp_parse junk p s = Inr (res, n, r, acts, p')"
  shows "\<exists>m acts' q'. rtmp_parse junk q t = Inr (res, m, r, acts', q') \<and> uncounted q' = uncounted p'"
proof (cases "parse_private junk p 0 s")
  case (Done out)
  obtain res1 n1 r1 p1 where out: "out = (res1, n1, r1, p1)" by (metis prod_cases4)
  obtain m q1 where q: "parse_private junk q 0 t = Done (res1, m, r1, q1)" "uncounted q1 = uncounted p1"
    using assms(1) by (auto simp: Done out alike_def)
  obtain acts1 p2 where "rtmp_parse junk p s = Inr (res1, n1, r1, acts1, p2)" "uncounted p2 = uncounted p1"
    by (rule rtmp_parse_uncounted [OF Done [unfolded out]])
  moreover obtain acts2 q2 where "rtmp_parse junk q t = Inr (res1, m, r1, acts2, q2)" "uncounted q2 = uncounted q1"
    by (rule rtmp_parse_uncounted [OF q(1)])
  ultimately show ?thesis using assms(2) q(2) by simp
qed (use assms(2) in \<open>simp_all add: rtmp_parse_def parse_def\<close>)

lemma rtmp_parse_alike_crash:
  assumes "alike (parse_private junk p 0 s) (parse_private junk q 0 t)"
    and "rtmp_parse junk p s = Inl e"
  shows "rtmp_parse junk q t = Inl e"
  using assms
  by (cases "parse_private junk p 0 s")
    (auto simp: rtmp_parse_def parse_def alike_def Let_def split: if_splits prod.splits)

lemma rtmp_parse_extend:
  "rtmp_parse junk p s = Inr (Yes, n, r, acts, q) \<Longrightarrow> rtmp_parse junk p (s @ t) = Inr (Yes, n, r @ t, acts, q)"
  using parse_private_extend [of junk p 0 s _ _ _ t]
  by (auto simp: rtmp_parse_def parse_def Let_def split: outcome.splits if_splits prod.splits)

subsection \<open>The loop\<close>

text \<open>Two connections that agree, but for what was sent and counted.\<close>

definition agree :: "(rtmp_parser, session) connection \<Rightarrow> (rtmp_parser, session) connection \<Rightarrow> bool" where
  "agree c d \<longleftrightarrow> conn_session d = conn_session c \<and> phase_of d = phase_of c \<and> handshake d = handshake c
     \<and> shut_down d = shut_down c"

definition same_end :: "(crash + (rtmp_parser, session) connection) option \<Rightarrow>
    (crash + (rtmp_parser, session) connection) option \<Rightarrow> bool" where
  "same_end x y \<longleftrightarrow> (case x of
      None \<Rightarrow> False
    | Some (Inl e) \<Rightarrow> y = Some (Inl e)
    | Some (Inr c) \<Rightarrow> \<exists>d. y = Some (Inr d) \<and> agree c d \<and> request_streambuf d = request_streambuf c
        \<and> uncounted (conn_parser d) = uncounted (conn_parser c))"

lemma same_end_simps [simp]:
  "same_end (Some (Inl e)) (Some (Inl e))"
  "same_end (Some (Inr c)) (Some (Inr d)) \<longleftrightarrow> agree c d \<and> request_streambuf d = request_streambuf c
     \<and> uncounted (conn_parser d) = uncounted (conn_parser c)"
  by (simp_all add: same_end_def)

lemma agree_updates:
  "agree c d \<Longrightarrow> agree (c \<lparr> phase_of := x \<rparr>) (d \<lparr> phase_of := x \<rparr>)"
  "agree c d \<Longrightarrow> agree (disconnect f c) (disconnect f d)"
  "agree c d \<Longrightarrow> agree (c \<lparr> conn_session := s \<rparr>) (d \<lparr> conn_session := s \<rparr>)"
  "agree c d \<Longrightarrow> agree (c \<lparr> conn_parser := p, request_streambuf := r \<rparr>) (d \<lparr> conn_parser := q, request_streambuf := r' \<rparr>)"
  by (simp_all add: agree_def disconnect_def)

lemma agree_perform:
  assumes "agree c d" and "sending_ok c" and "sending_ok d" and "acts_ok acts" and "acts_ok acts'"
  obtains c' d' where "perform acts c = Some c'" "perform acts' d = Some d'" "agree c' d'"
    "sending_ok c'" "sending_ok d'" "conn_parser c' = conn_parser c" "conn_parser d' = conn_parser d"
    "request_streambuf c' = request_streambuf c" "request_streambuf d' = request_streambuf d"
    "conn_session c' = conn_session c" "conn_session d' = conn_session d"
proof -
  obtain c' d' where "perform acts c = Some c'" "sending_ok c'" "same_but_sending c c'"
    "perform acts' d = Some d'" "sending_ok d'" "same_but_sending d d'"
    using perform_ok [OF assms(2,4)] perform_ok [OF assms(3,5)] by blast
  then show thesis using that assms(1) by (simp add: same_but_sending_def agree_def)
qed

lemma disconnect_keeps [simp]:
  "conn_parser (disconnect f c) = conn_parser c" "request_streambuf (disconnect f c) = request_streambuf c"
  by (simp_all add: disconnect_def)

text \<open>They will agree: what is left to parse gives the same.\<close>

definition same_ahead :: "u32 \<Rightarrow> (rtmp_parser, session) connection \<Rightarrow> (rtmp_parser, session) connection \<Rightarrow> bool" where
  "same_ahead junk c d \<longleftrightarrow> agree c d \<and> sending_ok c \<and> sending_ok d \<and>
     (request_streambuf c = [] \<and> request_streambuf d = [] \<and> uncounted (conn_parser d) = uncounted (conn_parser c)
      \<or> request_streambuf c \<noteq> [] \<and> request_streambuf d \<noteq> [] \<and>
        alike (parse_private junk (conn_parser c) 0 (request_streambuf c))
          (parse_private junk (conn_parser d) 0 (request_streambuf d)))"

lemma same_ahead_step:
  assumes "agree c d" and "sending_ok c" and "sending_ok d" and "request_streambuf d = request_streambuf c"
    and "uncounted (conn_parser d) = uncounted (conn_parser c)"
  shows "same_ahead junk c d"
  using assms parse_private_alike [OF assms(5) [symmetric]] by (simp add: same_ahead_def)

lemma same_ahead_parse:
  assumes "same_ahead junk c d" and "request_streambuf c \<noteq> []"
    and "rtmp_parse junk (conn_parser c) (request_streambuf c) = Inr (res, n, r, acts, p)"
  obtains m acts' q c1 d1 where
    "rtmp_parse junk (conn_parser d) (request_streambuf d) = Inr (res, m, r, acts', q)"
    "perform acts (c \<lparr> conn_parser := p, request_streambuf := r \<rparr>) = Some c1"
    "perform acts' (d \<lparr> conn_parser := q, request_streambuf := r \<rparr>) = Some d1"
    "agree c1 d1" "sending_ok c1" "sending_ok d1" "uncounted q = uncounted p" "conn_parser c1 = p" "conn_parser d1 = q"
    "request_streambuf c1 = r" "request_streambuf d1 = r"
proof -
  obtain m acts' q where q: "rtmp_parse junk (conn_parser d) (request_streambuf d) = Inr (res, m, r, acts', q)"
    "uncounted q = uncounted p"
    using rtmp_parse_alike [OF _ assms(3)] assms(1,2) unfolding same_ahead_def by blast
  have "agree (c \<lparr> conn_parser := p, request_streambuf := r \<rparr>) (d \<lparr> conn_parser := q, request_streambuf := r \<rparr>)"
    "sending_ok (c \<lparr> conn_parser := p, request_streambuf := r \<rparr>)"
    "sending_ok (d \<lparr> conn_parser := q, request_streambuf := r \<rparr>)"
    using assms(1) by (simp_all add: same_ahead_def agree_updates sending_ok_def)
  then show thesis
  proof (rule agree_perform [OF _ _ _ rtmp.parser_acts [OF assms(3)] rtmp.parser_acts [OF q(1)]], goal_cases)
    case (1 c1 d1)
    then show ?case using that q by simp
  qed
qed

lemma agree_handle:
  assumes "handle_request srv doc req (conn_session c) = Inr (acts, s)" and "agree c d"
    and "sending_ok c" and "sending_ok d"
  obtains c2 d2 where "perform acts (c \<lparr> conn_session := s \<rparr>) = Some c2"
    "perform acts (d \<lparr> conn_session := s \<rparr>) = Some d2" "agree c2 d2" "sending_ok c2" "sending_ok d2"
    "conn_parser c2 = conn_parser c" "conn_parser d2 = conn_parser d"
    "request_streambuf c2 = request_streambuf c" "request_streambuf d2 = request_streambuf d"
proof -
  have "agree (c \<lparr> conn_session := s \<rparr>) (d \<lparr> conn_session := s \<rparr>)"
    "sending_ok (c \<lparr> conn_session := s \<rparr>)" "sending_ok (d \<lparr> conn_session := s \<rparr>)"
    using assms(2-4) by (simp_all add: agree_updates sending_ok_def)
  then show thesis
  proof (rule agree_perform [OF _ _ _ handle_request_acts [OF assms(1)] handle_request_acts [OF assms(1)]], goal_cases)
    case (1 c' d')
    then show ?case using that by simp
  qed
qed

lemma same_ahead_handle:
  assumes "handle_request srv doc (parsed_message (conn_parser c)) (conn_session c) = Inr (acts, s)"
    and "agree c d" and "sending_ok c" and "sending_ok d" and "request_streambuf d = request_streambuf c"
    and "uncounted (conn_parser d) = uncounted (conn_parser c)"
  obtains c2 d2 where "perform acts (c \<lparr> conn_session := s \<rparr>) = Some c2"
    "perform acts (d \<lparr> conn_session := s \<rparr>) = Some d2" "same_ahead junk c2 d2"
    "conn_parser c2 = conn_parser c" "request_streambuf c2 = request_streambuf c"
    "request_streambuf d2 = request_streambuf c"
proof (rule agree_handle [OF assms(1-4)], goal_cases)
  case (1 c2 d2)
  moreover from 1 have "same_ahead junk c2 d2" by (intro same_ahead_step) (simp_all add: assms(5,6))
  ultimately show ?case using that [of c2 d2] by (simp add: assms(5))
qed

lemma rtmp_loop_turn:
  assumes "buffer_size \<noteq> done_size"
    and "rtmp_parse junk (conn_parser c) (request_streambuf c) = Inr (res, n, r, acts, p)"
    and "perform acts (c \<lparr> conn_parser := p, request_streambuf := r \<rparr>) = Some c1"
  shows "rtmp_read_loop junk srv doc buffer_size done_size c = (case res of
      Yes \<Rightarrow> (case handle_request srv doc (parsed_message (conn_parser c1)) (conn_session c1) of
          Inl e \<Rightarrow> Some (Inl e)
        | Inr (acts, s) \<Rightarrow> Option.bind (perform acts (c1 \<lparr> conn_session := s \<rparr>))
            (rtmp_read_loop junk srv doc buffer_size (done_size + n)))
    | No \<Rightarrow> Some (Inr (disconnect (notify_disconnect srv doc) c1))
    | Indeterminate \<Rightarrow> Some (Inr (c1 \<lparr> phase_of := Read_Messages \<rparr>)))"
  by (rule rtmp_connection.read_loop_turn [OF assms])

text \<open>A turn in which the parser returns; \<open>IH\<close> is about the turns that follow.\<close>

lemma loops_alike_turn:
  assumes ahead: "same_ahead junk c d" and p: "rtmp_parse junk (conn_parser c) (request_streambuf c) = Inr (res, n, r, acts, p)"
    and ne: "request_streambuf c \<noteq> []" "size1 \<noteq> done1" "size2 \<noteq> done2"
    and len: "done1 + length (request_streambuf c) = size1" "done2 + length (request_streambuf d) = size2"
    and IH: "\<And>c2 d2 done1 done2. ((length (request_streambuf c2), parser_rank (conn_parser c2)),
        length (request_streambuf c), parser_rank (conn_parser c)) \<in> less_than <*lex*> less_than \<Longrightarrow>
      same_ahead junk c2 d2 \<Longrightarrow> done1 + length (request_streambuf c2) = size1 \<Longrightarrow>
      done2 + length (request_streambuf d2) = size2 \<Longrightarrow>
      same_end (rtmp_read_loop junk srv doc size1 done1 c2) (rtmp_read_loop junk srv doc size2 done2 d2)"
  shows "same_end (rtmp_read_loop junk srv doc size1 done1 c) (rtmp_read_loop junk srv doc size2 done2 d)"
proof -
  obtain m acts' q c1 d1 where
    q: "rtmp_parse junk (conn_parser d) (request_streambuf d) = Inr (res, m, r, acts', q)"
      "perform acts (c \<lparr> conn_parser := p, request_streambuf := r \<rparr>) = Some c1"
      "perform acts' (d \<lparr> conn_parser := q, request_streambuf := r \<rparr>) = Some d1"
      "agree c1 d1" "sending_ok c1" "sending_ok d1" "uncounted q = uncounted p"
      "conn_parser c1 = p" "conn_parser d1 = q" "request_streambuf c1 = r" "request_streambuf d1 = r"
    by (rule same_ahead_parse [OF ahead ne(1) p])
  note turn = rtmp_loop_turn [OF ne(2) p q(2)] rtmp_loop_turn [OF ne(3) q(1,3)]
  show ?thesis
  proof (cases "res = Yes")
    case False
    then show ?thesis
      using q by (cases res) (simp_all add: turn agree_updates)
  next
    case True
    have same: "parsed_message q = parsed_message p" "conn_session d1 = conn_session c1"
      using q(4,7) by (simp_all add: uncounted_eq agree_def)
    show ?thesis
    proof (cases "handle_request srv doc (parsed_message p) (conn_session c1)")
      case (Inl e)
      then show ?thesis using True same q(8,9) by (simp add: turn)
    next
      case (Inr a)
      obtain acts2 s where a: "handle_request srv doc (parsed_message (conn_parser c1)) (conn_session c1) = Inr (acts2, s)"
        using Inr q(8) by (cases a) simp
      obtain c2 d2 where c2: "perform acts2 (c1 \<lparr> conn_session := s \<rparr>) = Some c2"
        "perform acts2 (d1 \<lparr> conn_session := s \<rparr>) = Some d2" "same_ahead junk c2 d2"
        "conn_parser c2 = p" "request_streambuf c2 = r" "request_streambuf d2 = r"
        using same_ahead_handle [OF a q(4-6), of junk] q(7-11) by metis
      have "same_end (rtmp_read_loop junk srv doc size1 (done1 + n) c2) (rtmp_read_loop junk srv doc size2 (done2 + m) d2)"
        using rtmp.parser_progress [OF p [unfolded True]] rtmp.parser_reads [OF p] rtmp.parser_reads [OF q(1)]
          True len c2(4-6) by (intro IH c2(3)) auto
      then show ?thesis using True same q(8,9) a c2(1,2) by (simp add: turn)
    qed
  qed
qed

lemma loops_alike:
  assumes "same_ahead junk c d" and "done1 + length (request_streambuf c) = size1"
    and "done2 + length (request_streambuf d) = size2"
  shows "same_end (rtmp_read_loop junk srv doc size1 done1 c) (rtmp_read_loop junk srv doc size2 done2 d)"
  using assms
proof (induction "(length (request_streambuf c), parser_rank (conn_parser c))" arbitrary: c d done1 done2
    rule: wf_induct_rule [OF wf_lex_prod [OF wf_less_than wf_less_than]])
  case (1 c d done1 done2)
  show ?case
  proof (cases "request_streambuf c = []")
    case True
    then show ?thesis
      using 1(2-4) by (auto simp: same_ahead_def rtmp_connection.read_loop_done agree_updates)
  next
    case False
    then have ne: "size1 \<noteq> done1" "size2 \<noteq> done2" using 1(2-4) by (auto simp: same_ahead_def)
    show ?thesis
    proof (cases "rtmp_parse junk (conn_parser c) (request_streambuf c)")
      case (Inl e)
      have "rtmp_parse junk (conn_parser d) (request_streambuf d) = Inl e"
        using rtmp_parse_alike_crash [OF _ Inl] 1(2) False by (simp add: same_ahead_def)
      with Inl ne show ?thesis by (simp add: rtmp_connection.read_loop_crash)
    next
      case (Inr out)
      then obtain res n r acts p where p: "rtmp_parse junk (conn_parser c) (request_streambuf c) = Inr (res, n, r, acts, p)"
        by (cases out) simp
      show ?thesis
        by (rule loops_alike_turn [OF 1(2) p False ne 1(3,4)], rule 1(1))
    qed
  qed
qed

subsection \<open>Reads\<close>

lemma alike_trans: "alike x y \<Longrightarrow> alike y z \<Longrightarrow> alike x z"
  by (cases x) (auto simp: alike_def)

lemma resumable_uncounted: "uncounted p = uncounted q \<Longrightarrow> resumable p = resumable q"
  by (simp add: resumable_def uncounted_eq)

lemma parse_resumes:
  assumes "rtmp_parse junk p s = Inr (Indeterminate, n, r, acts, q)" and "resumable q"
  shows "alike (parse_private junk q 0 (r @ t)) (parse_private junk p 0 (s @ t))"
proof -
  obtain q1 where q1: "parse_private junk p 0 s = Done (Indeterminate, n, r, q1)"
    using rtmp_parse_private [OF assms(1)] by blast
  then have q: "uncounted q = uncounted q1"
    using rtmp_parse_uncounted [OF q1] assms(1) by (metis Inr_inject prod.inject)
  have "same_outcome (parse_private junk q1 0 (r @ t)) (parse_private junk p 0 (s @ t))"
    using private_resumes [OF q1] assms(2) resumable_uncounted [OF q] by simp
  then show ?thesis
    using parse_private_alike [OF q] alike_trans same_outcome_alike by blast
qed

lemma perform_stream:
  "perform acts (c \<lparr> request_streambuf := x \<rparr>) = map_option (\<lambda>c. c \<lparr> request_streambuf := x \<rparr>) (perform acts c)"
proof (induction acts arbitrary: c)
  case (Cons a acts)
  have "signal_send_message (c \<lparr> request_streambuf := x \<rparr>) =
      map_option (\<lambda>c. c \<lparr> request_streambuf := x \<rparr>) (signal_send_message c)"
    by (simp add: signal_send_message_def write_message_def split: option.split)
  moreover have "push_to_send_queue m (c \<lparr> request_streambuf := x \<rparr>) =
      push_to_send_queue m c \<lparr> request_streambuf := x \<rparr>"
    "change_continuous_send_state b (c \<lparr> request_streambuf := x \<rparr>) =
      change_continuous_send_state b c \<lparr> request_streambuf := x \<rparr>" for m b
    by (simp_all add: push_to_send_queue_def change_continuous_send_state_def)
  ultimately show ?case
    using Cons.IH by (cases a; cases "signal_send_message c") simp_all
qed simp

abbreviation more_bytes :: "bytes \<Rightarrow> (rtmp_parser, session) connection \<Rightarrow> (rtmp_parser, session) connection" where
  "more_bytes t c \<equiv> c \<lparr> phase_of := No_Operation, request_streambuf := request_streambuf c @ t \<rparr>"

lemma stay: "phase_of c = No_Operation \<Longrightarrow> more_bytes t c = c \<lparr> request_streambuf := request_streambuf c @ t \<rparr>"
  by (cases c) simp

lemma session_stream:
  "c \<lparr> request_streambuf := x, conn_session := s \<rparr> = c \<lparr> conn_session := s, request_streambuf := x \<rparr>"
  by (cases c) simp

text \<open>A turn of the loop with more bytes behind.\<close>

lemma more_bytes_turn:
  assumes "rtmp_parse junk (conn_parser c) (request_streambuf c) = Inr (Yes, n, r, acts, p)"
    and "perform acts (c \<lparr> conn_parser := p, request_streambuf := r \<rparr>) = Some c'"
    and "handle_request srv doc (parsed_message p) (conn_session c') = Inr (acts2, s)"
    and "perform acts2 (c' \<lparr> conn_session := s \<rparr>) = Some c2"
    and "conn_parser c' = p" and "request_streambuf c' = r" and "request_streambuf c2 = r"
    and "phase_of c = No_Operation" and "phase_of c' = No_Operation" and "phase_of c2 = No_Operation"
    and "size1 \<noteq> done1"
  shows "rtmp_read_loop junk srv doc size1 done1 (more_bytes t c) =
    rtmp_read_loop junk srv doc size1 (done1 + n) (more_bytes t c2)"
proof -
  have "rtmp_parse junk (conn_parser (more_bytes t c)) (request_streambuf (more_bytes t c)) =
      Inr (Yes, n, r @ t, acts, p)"
    using rtmp_parse_extend [OF assms(1), of t] by simp
  moreover have "perform acts (more_bytes t c \<lparr> conn_parser := p, request_streambuf := r @ t \<rparr>) = Some (more_bytes t c')"
    using perform_stream [where c = "c \<lparr> conn_parser := p, request_streambuf := r \<rparr>" and x = "r @ t" and acts = acts]
      assms(2,6,8,9) by (simp add: stay)
  moreover have "perform acts2 (more_bytes t c' \<lparr> conn_session := s \<rparr>) = Some (more_bytes t c2)"
    using perform_stream [where c = "c' \<lparr> conn_session := s \<rparr>" and x = "r @ t" and acts = acts2] assms(4,6,7)
    unfolding stay [OF assms(9)] stay [OF assms(10)] by (simp add: session_stream)
  ultimately show ?thesis using rtmp_loop_turn [OF assms(11)] assms(3,5) by simp
qed

lemma waits_ahead:
  assumes "rtmp_parse junk (conn_parser c) (request_streambuf c) = Inr (Indeterminate, n, r, acts, p)" and "resumable p"
    and "same_but_sending (c \<lparr> conn_parser := p, request_streambuf := r \<rparr>) c'" and "sending_ok c" and "sending_ok c'"
    and "request_streambuf c \<noteq> []" and "t \<noteq> []"
  shows "same_ahead junk (more_bytes t (c' \<lparr> phase_of := Read_Messages \<rparr>)) (more_bytes t c)"
  using parse_resumes [OF assms(1,2), of t] assms(3-7)
  by (simp add: same_ahead_def agree_def same_but_sending_def sending_ok_def)

lemma loop_resumes:
  assumes "rtmp_read_loop junk srv doc size1 done1 c = Some (Inr c1)" and "phase_of c1 = Read_Messages"
    and "resumable (conn_parser c1)" and "sending_ok c" and "phase_of c = No_Operation"
    and "done1 + length (request_streambuf c) = size1" and "t \<noteq> []"
  shows "same_end (rtmp_read_loop junk srv doc (length (request_streambuf c1 @ t)) 0 (more_bytes t c1))
    (rtmp_read_loop junk srv doc (size1 + length t) done1 (more_bytes t c))"
  using assms
proof (induction "(length (request_streambuf c), parser_rank (conn_parser c))" arbitrary: c done1
    rule: wf_induct_rule [OF wf_lex_prod [OF wf_less_than wf_less_than]])
  case (1 c done1)
  let ?loop = "rtmp_read_loop junk srv doc" and ?s = "request_streambuf c"
  show ?case
  proof (cases "?s = []")
    case True
    then have "c1 = c \<lparr> phase_of := Read_Messages \<rparr>"
      using 1(2,7) by (simp add: rtmp_connection.read_loop_done)
    then show ?thesis
      using True 1(5,6,7) by (intro loops_alike same_ahead_step) (simp_all add: agree_def sending_ok_def)
  next
    case False
    then have ne: "size1 \<noteq> done1" "size1 + length t \<noteq> done1" using 1(7) by auto
    obtain res n r acts p where p: "rtmp_parse junk (conn_parser c) ?s = Inr (res, n, r, acts, p)"
      using 1(2) ne rtmp_connection.read_loop_crash [OF ne(1), of junk c]
      by (cases "rtmp_parse junk (conn_parser c) ?s") auto
    let ?c = "c \<lparr> conn_parser := p, request_streambuf := r \<rparr>"
    obtain c' where c': "perform acts ?c = Some c'" "sending_ok c'" "same_but_sending ?c c'"
      using perform_ok [OF _ rtmp.parser_acts [OF p], of ?c] 1(5) by (auto simp: sending_ok_def)
    then have same: "conn_parser c' = p" "request_streambuf c' = r" "phase_of c' = No_Operation"
      using 1(6) by (simp_all add: same_but_sending_def)
    note turn = rtmp_loop_turn [OF ne(1) p c'(1), of srv doc]
    consider (waits) "res = Indeterminate" | (message) "res = Yes"
      using 1(2,3) same(3) by (cases res) (auto simp: turn disconnect_def)
    then show ?thesis
    proof cases
      case waits
      then have c1: "c1 = c' \<lparr> phase_of := Read_Messages \<rparr>" using 1(2) by (simp add: turn)
      then have "same_ahead junk (more_bytes t c1) (more_bytes t c)"
        using waits_ahead [OF p [unfolded waits] _ c'(3) 1(5) c'(2) False 1(8)] 1(4) same(1) by simp
      then show ?thesis using 1(7) by (intro loops_alike) simp_all
    next
      case message
      obtain acts2 s where h: "handle_request srv doc (parsed_message p) (conn_session c') = Inr (acts2, s)"
        using 1(2) same(1)
        by (cases "handle_request srv doc (parsed_message p) (conn_session c')") (auto simp: turn message)
      obtain c2 where c2: "perform acts2 (c' \<lparr> conn_session := s \<rparr>) = Some c2" "sending_ok c2"
        "same_but_sending (c' \<lparr> conn_session := s \<rparr>) c2"
        using perform_ok [OF _ handle_request_acts [OF h], of "c' \<lparr> conn_session := s \<rparr>"] c'(2)
        by (auto simp: sending_ok_def)
      then have same2: "conn_parser c2 = p" "request_streambuf c2 = r" "phase_of c2 = No_Operation"
        using same by (simp_all add: same_but_sending_def)
      note more = more_bytes_turn [OF p [unfolded message] c'(1) h c2(1) same(1,2) same2(2) 1(6) same(3) same2(3) ne(2)]
      have "((length (request_streambuf c2), parser_rank (conn_parser c2)), length ?s,
          parser_rank (conn_parser c)) \<in> less_than <*lex*> less_than"
        "done1 + n + length (request_streambuf c2) = size1"
        using rtmp.parser_progress [OF p [unfolded message]] rtmp.parser_reads [OF p] message 1(7) same2 by auto
      then show ?thesis
        using 1(1) [of c2 "done1 + n"] 1(2-4,8) c2(1,2) same same2 h by (simp add: turn more message)
    qed
  qed
qed

text \<open>Reads of a connection, one after the other, and the reads after which the theorem applies: they are
  enabled, and when the parser waits in between it is not for the first chunk of a message
  with a delta header.\<close>

primrec read_pieces :: "u32 \<Rightarrow> server \<Rightarrow> json \<Rightarrow> hmac \<Rightarrow> bytes list \<Rightarrow> (rtmp_parser, session) connection \<Rightarrow>
    (crash + (rtmp_parser, session) connection) option" where
  "read_pieces junk srv doc mac [] c = Some (Inr c)"
| "read_pieces junk srv doc mac (b # bs) c = (case rtmp_event junk srv doc mac (Bytes b) c of
      Some (Inr c') \<Rightarrow> read_pieces junk srv doc mac bs c' | out \<Rightarrow> out)"

primrec uninterrupted :: "u32 \<Rightarrow> server \<Rightarrow> json \<Rightarrow> hmac \<Rightarrow> bytes list \<Rightarrow> (rtmp_parser, session) connection \<Rightarrow> bool" where
  "uninterrupted junk srv doc mac [] c \<longleftrightarrow> True"
| "uninterrupted junk srv doc mac (b # bs) c \<longleftrightarrow> b \<noteq> [] \<and> enabled (Bytes b) c \<and> (bs = [] \<or>
     (case rtmp_event junk srv doc mac (Bytes b) c of
        Some (Inr c') \<Rightarrow> resumable (conn_parser c') \<and> uninterrupted junk srv doc mac bs c'
      | _ \<Rightarrow> False))"

lemma same_end_trans: "same_end x y \<Longrightarrow> same_end y z \<Longrightarrow> same_end x z"
  by (auto simp: same_end_def agree_def split: option.splits sum.splits)

lemma same_end_sym: "same_end x y \<Longrightarrow> same_end y x"
  by (auto simp: same_end_def agree_def split: option.splits sum.splits)

lemma event_Bytes:
  "b \<noteq> [] \<Longrightarrow> rtmp_event junk srv doc mac (Bytes b) c =
    rtmp_read_loop junk srv doc (length (request_streambuf c @ b)) 0 (more_bytes b c)"
  by (simp add: handle_event_def handle_read_def Let_def)

lemma reads_resume:
  assumes "rtmp_event junk srv doc mac (Bytes b) c = Some (Inr c1)" and "b \<noteq> []" and "t \<noteq> []"
    and "phase_of c1 = Read_Messages" and "resumable (conn_parser c1)" and "sending_ok c"
  shows "same_end (rtmp_event junk srv doc mac (Bytes t) c1) (rtmp_event junk srv doc mac (Bytes (b @ t)) c)"
  using loop_resumes [of junk srv doc "length (request_streambuf c @ b)" 0 "more_bytes b c" c1 t] assms
  by (simp add: event_Bytes sending_ok_def add.assoc)

lemma reading_ok:
  assumes "rtmp_reachable junk srv doc mac c" and "phase_of c = Read_Messages"
  shows "sending_ok c"
  using rtmp_connection.reachable_ok [OF assms(1) posting_new] assms(2) rtmp_connection.conn_ok_reading by blast

lemma pieces_as_one:
  assumes "rtmp_reachable junk srv doc mac c" and "uninterrupted junk srv doc mac bs c" and "bs \<noteq> []"
  shows "same_end (read_pieces junk srv doc mac bs c) (rtmp_event junk srv doc mac (Bytes (concat bs)) c)"
  using assms
proof (induction bs arbitrary: c)
  case (Cons b bs)
  let ?event = "rtmp_event junk srv doc mac"
  have b: "b \<noteq> []" "enabled (Bytes b) c" using Cons.prems(2) by simp_all
  then have ok: "sending_ok c" using reading_ok [OF Cons.prems(1)] by (simp add: enabled_def)
  show ?case
  proof (cases bs)
    case Nil
    obtain r where "?event (Bytes b) c = Some r"
      using rtmp_connection.event_ok [OF rtmp_connection.reachable_ok [OF Cons.prems(1) posting_new] b(2)] by blast
    then show ?thesis using Nil by (cases r) (simp_all add: agree_def)
  next
    case (Cons b' bs')
    obtain c1 where c1: "?event (Bytes b) c = Some (Inr c1)" "resumable (conn_parser c1)"
      "uninterrupted junk srv doc mac bs c1"
      using Cons.prems(2) Cons by (auto split: option.splits sum.splits)
    have reach: "rtmp_reachable junk srv doc mac c1"
      by (rule reachable.event [OF Cons.prems(1) b(2) c1(1)])
    have b': "b' \<noteq> []" "phase_of c1 = Read_Messages" using c1(3) Cons by (simp_all add: enabled_def)
    have "same_end (read_pieces junk srv doc mac bs c1) (?event (Bytes (concat bs)) c1)"
      using Cons.IH [OF reach c1(3)] Cons by simp
    moreover have "same_end (?event (Bytes (concat bs)) c1) (?event (Bytes (b @ concat bs)) c)"
      using reads_resume [OF c1(1) b(1) _ b'(2) c1(2) ok] b'(1) Cons by simp
    ultimately show ?thesis using c1(1) same_end_trans by simp
  qed
qed simp

text \<open>C4: provided that in two sequences of reads, of the same bytes, no read but the last one ends
  between a header that is not a full one, of a new message, and the end of the first chunk of that
  message, it does not matter how they cut the bytes: they lead to the same session (the same files,
  frames and requests to the streamer), the same bytes left and the same parser waiting for more,
  up to its counters, or both end the process in the same way. A read that does end there adds the
  time delta of the header once more (\<open>waiting_moves_clock\<close>), so that the condition is needed.\<close>

theorem segmentation_irrelevant:
  assumes "rtmp_reachable junk srv doc mac c" and "concat bs = concat bs'" and "bs \<noteq> []" and "bs' \<noteq> []"
    and "uninterrupted junk srv doc mac bs c" and "uninterrupted junk srv doc mac bs' c"
  shows "same_end (read_pieces junk srv doc mac bs c) (read_pieces junk srv doc mac bs' c)"
  using same_end_trans [OF pieces_as_one [OF assms(1,5,3)] same_end_sym]
    pieces_as_one [OF assms(1,6,4)] by (simp add: assms(2))

theorem segmentation_irrelevant_witness:
  "same_end (read_pieces 0 all_ok id_doc sum_hmac [[2, 0, 0, 0, 0, 0], [4, 5, 0, 0, 0, 0, 0, 0, 1, 0]] (open_connection sum_hmac))
    (read_pieces 0 all_ok id_doc sum_hmac [[2, 0, 0, 0, 0, 0, 4, 5, 0, 0, 0, 0, 0, 0, 1, 0]] (open_connection sum_hmac))"
proof (rule segmentation_irrelevant [OF open_connection_reachable])
  let ?c = "open_connection sum_hmac" and ?b = "[2, 0, 0, 0, 0, 0] :: bytes"
  note c = open_connection_state(1,2,7,8) [of sum_hmac]
  obtain res n r hp where h: "parse_header header_parser_reset ?b = (res, n, r, hp)" by (metis prod_cases4)
  have "fst (parse_header header_parser_reset ?b) = Indeterminate" by code_simp
  then have "rtmp_parse 0 (conn_parser ?c) ?b = Inr (Indeterminate, 0, r, [], (conn_parser ?c)\<lparr>hdr_parser := hp\<rparr>)"
    using h c(3,4) by (simp add: rtmp_parse_def parse_def parse_private.simps)
  then have "rtmp_event 0 all_ok id_doc sum_hmac (Bytes ?b) ?c =
      Some (Inr (?c \<lparr> phase_of := Read_Messages, conn_parser := (conn_parser ?c)\<lparr>hdr_parser := hp\<rparr>, request_streambuf := r \<rparr>))"
    using rtmp_loop_turn [of "length ?b" 0 0 "more_bytes ?b ?c"] c by (simp add: event_Bytes)
  then show "uninterrupted 0 all_ok id_doc sum_hmac [?b, [4, 5, 0, 0, 0, 0, 0, 0, 1, 0]] ?c"
    using c by (simp add: enabled_def READ_BUF_SIZE_def resumable_def)
  show "uninterrupted 0 all_ok id_doc sum_hmac [[2, 0, 0, 0, 0, 0, 4, 5, 0, 0, 0, 0, 0, 0, 1, 0]] ?c"
    using c by (simp add: enabled_def READ_BUF_SIZE_def)
qed simp_all

end
