(* ===== verification/Publication.thy ===== *)
theory Publication
  imports Connection
begin

text \<open>
  The life of a publication (\<open>publish_state_\<close> of a context) in a connection. Its states are ordered as
  they follow each other. Shown: whatever a client does, a publication never goes back to an
  earlier state; and when it has ended, no frame of that connection is accepted any more, also when
  the client creates and publishes another stream on it.
\<close>

subsection \<open>The order of the states\<close>

primrec stage :: "publish_state_t \<Rightarrow> nat" where
  "stage Begin = 0"
| "stage Init = 1"
| "stage Publishing = 2"
| "stage End = 3"

lemma stage_inject [simp]: "stage s = stage t \<longleftrightarrow> s = t"
  by (cases s; cases t) simp_all

instantiation publish_state_t :: linorder
begin

definition less_eq_publish_state_t :: "publish_state_t \<Rightarrow> publish_state_t \<Rightarrow> bool" where
  "s \<le> t \<longleftrightarrow> stage s \<le> stage t"

definition less_publish_state_t :: "publish_state_t \<Rightarrow> publish_state_t \<Rightarrow> bool" where
  "s < t \<longleftrightarrow> stage s < stage t"

instance
  by standard (auto simp: less_eq_publish_state_t_def less_publish_state_t_def)

end

lemma state_order [simp]: "Begin \<le> s" "s \<le> Begin \<longleftrightarrow> s = Begin" "s \<le> End" "End \<le> s \<longleftrightarrow> s = End"
  "s \<le> Init \<Longrightarrow> s \<le> Publishing"
  by (cases s; simp add: less_eq_publish_state_t_def)+

subsection \<open>Forward\<close>

lemma publish_to_streamer_forward:
  assumes "publish_to_streamer srv doc c ex = (c', ex')"
  shows "publish_state c \<le> publish_state c'"
  using assms
proof (rule publish_to_streamer_keeps [where P = "\<lambda>c' ex. publish_state c \<le> publish_state c'"])
  fix c1 :: es_context and ex go c' ex'
  assume P: "publish_state c \<le> publish_state c1"
  show "begin_stage srv doc c1 ex = (go, c', ex') \<Longrightarrow> publish_state c \<le> publish_state c'"
    by (erule begin_stage_cases) (use P in simp_all)
  show "init_stage srv c1 ex = (go, c', ex') \<Longrightarrow> publish_state c \<le> publish_state c'"
    by (erule init_stage_cases) (use P in simp_all)
  show "publish_frames srv c1 ex = (go, c', ex') \<Longrightarrow> publish_state c \<le> publish_state c'"
    using publish_frames_run [of srv c1 ex go c' ex'] P by auto
next
  fix c1 :: es_context and ex c' ex'
  assume P: "publish_state c \<le> publish_state c1"
  show "end_stage srv c1 ex = (c', ex') \<Longrightarrow> publish_state c \<le> publish_state c'"
    by (erule end_stage_cases) (use P in simp_all)
qed simp

lemma publish_to_streamer_ended:
  assumes "publish_state c = End" and "publish_to_streamer srv doc c ex = (c', ex')"
  shows "accepted_es ex' = accepted_es ex"
  using assms(2) nothing_after_end [OF assms(1), of srv doc ex] by (auto split: if_splits)

text \<open>A session in which the publication has come to a state; after the end, with the frames accepted.\<close>

definition come_to :: "publish_state_t \<Rightarrow> http_request list \<Rightarrow> session \<Rightarrow> bool" where
  "come_to st frames s \<longleftrightarrow> st \<le> publish_state (es_ctx s) \<and> (st = End \<longrightarrow> accepted_es (exchanges s) = frames)"

lemma come_to_publish:
  assumes "come_to st frames s" and "publish_state c = publish_state (es_ctx s)"
    and "publish_to_streamer srv doc c (exchanges s) = (c', ex')"
  shows "come_to st frames (s \<lparr> es_ctx := c', disk := d, exchanges := ex' \<rparr>)"
  using assms order.trans [OF _ publish_to_streamer_forward [OF assms(3)]] publish_to_streamer_ended [OF _ assms(3)]
  by (auto simp: come_to_def)

lemma media_message_come_to:
  assumes "come_to st frames s" and "handle_media_message srv doc m s = Inr (acts, s')"
  shows "come_to st frames s'"
proof -
  obtain c1 d1 c2 d2 where rec: "write_flv m (es_ctx s, disk s) = (c1, d1)"
    "write_flv_media_message_dump m (c1, d1) = (c2, d2)" by (metis prod.exhaust)
  have c2: "publish_state c2 = publish_state (es_ctx s)"
    by (subst recorder_context(2) [OF rec(2)], subst recorder_context(1) [OF rec(1)]) simp
  let ?publish = "publish_message srv doc c2 (exchanges s) (msg_type_value (msg_type_id (header m)))
    (abs_timestamp (header m)) (get_data m)"
  show ?thesis
  proof (cases ?publish)
    case (Ok r)
    obtain c3 ex where r: "r = (c3, ex)" by fastforce
    obtain b c where p: "process_flv_es_message c2 (msg_type_value (msg_type_id (header m)))
        (abs_timestamp (header m)) (get_data m) = Ok (b, c)"
      using Ok by (auto simp: publish_message_def bind_access_Ok)
    have c: "publish_state c = publish_state (es_ctx s)" using process_keeps_publication [OF p] c2 by simp
    have "come_to st frames (s \<lparr> es_ctx := c3, disk := d2, exchanges := ex \<rparr>)"
    proof (rule publish_message_keeps [OF Ok [unfolded r] p])
      show "come_to st frames (s \<lparr> es_ctx := c, disk := d2, exchanges := exchanges s \<rparr>)"
        using assms(1) c by (simp add: come_to_def)
    qed (rule come_to_publish [OF assms(1) c])
    then show ?thesis using assms(2) by (auto simp: handle_media_message_def rec Ok r of_access_def)
  next
    case Refused
    then show ?thesis using assms c2 by (auto simp: handle_media_message_def rec of_access_def come_to_def)
  qed (use assms(2) in \<open>simp add: handle_media_message_def rec of_access_def\<close>)
qed

interpretation publication_handler: request_handler "handle_request srv doc" "notify_disconnect srv doc"
  "come_to st frames"
proof
  fix s req acts s'
  assume h: "handle_request srv doc req s = Inr (acts, s')"
  then show "acts_ok acts" by (rule handle_request_acts)
  obtain m where m: "req = Some m" using h by (cases req) (auto simp: handle_request_def)
  assume "come_to st frames s"
  then show "come_to st frames s'"
    using h media_message_come_to [of st frames s srv doc m acts s']
    by (cases "body m") (auto simp: m handle_request_def handlers come_to_def Let_def)
next
  fix s assume s: "come_to st frames s"
  obtain c ex where "publish_to_streamer srv doc ((es_ctx s) \<lparr> ready_to_end_of_stream := True \<rparr>) (exchanges s) = (c, ex)"
    by fastforce
  with come_to_publish [OF s _ this, of "disk s"] show "come_to st frames (notify_disconnect srv doc s)"
    by (simp add: notify_disconnect_def)
qed

interpretation publication: connection_parts "rtmp_parse junk" parser_rank "handle_request srv doc"
  "notify_disconnect srv doc" "come_to st frames" parsed_message mac set_base_timestamp
  for junk srv doc st frames and mac :: hmac
  by unfold_locales (simp add: set_base_timestamp_def come_to_def)

lemma event_come_to:
  assumes "rtmp_reachable junk srv doc mac c" and "enabled ev c" and "rtmp_event junk srv doc mac ev c = Some (Inr c')"
    and "come_to st frames (conn_session c)"
  shows "come_to st frames (conn_session c')"
proof -
  have "connection_parts.conn_ok (come_to st frames) c"
    using rtmp_connection.reachable_ok [OF assms(1) posting_new] assms(4)
    by (simp add: rtmp_connection.conn_ok_def publication.conn_ok_def)
  from publication.event_keeps [OF this assms(2,3)] show ?thesis by (simp add: publication.conn_ok_def)
qed

text \<open>C10: no event of a connection takes its publication back to an earlier state; and once the publication has
  ended, no event makes the streamer accept a frame: what the client publishes on the connection
  after its first stream was deleted is recorded, but it is never announced or posted.\<close>

theorem ended_for_good:
  assumes "rtmp_reachable junk srv doc mac c" and "enabled ev c" and "rtmp_event junk srv doc mac ev c = Some (Inr c')"
  defines "old \<equiv> conn_session c" and "new \<equiv> conn_session c'"
  shows "publish_state (es_ctx old) \<le> publish_state (es_ctx new)
    \<and> (publish_state (es_ctx old) = End \<longrightarrow> accepted_es (exchanges new) = accepted_es (exchanges old))"
proof -
  have "come_to (publish_state (es_ctx old)) (accepted_es (exchanges old)) old"
    by (simp add: come_to_def)
  from event_come_to [OF assms(1-3) this [unfolded old_def]] show ?thesis
    by (simp add: come_to_def old_def new_def)
qed

text \<open>A connection whose publication has ended, with the end of the video.\<close>

definition eos_message :: rtmp_message where
  "eos_message = media_message FULL 6 1 128 1000 (VideoMessage [0x27, 2, 0, 0, 0])"

lemma eos_ends:
  assumes "publish_state c = Begin" and "media_es_list c = []" and "audio_codec_info (audio_init_es c) = []"
  shows "\<exists>c' ex'. publish_message all_ok id_doc c ex 9 t [0x27, 2, 0, 0, 0] = Ok (c', ex') \<and> publish_state c' = End"
proof -
  have kind: "IsAVCSequenceHeader [0x27, 2, 0, 0, 0] = Refused" "IsAVCNALU [0x27, 2, 0, 0, 0] = Refused"
    "is_avc_end_of_sequence [0x27, 2, 0, 0, 0] = Ok True"
    "get_avc_end_of_sequence [0x27, 2, 0, 0, 0] = Ok [0x27, 2, 0, 0, 0]"
    by code_simp+
  have p: "process_flv_es_message c 9 t [0x27, 2, 0, 0, 0] = Ok (True, c \<lparr> video_eos := [0x27, 2, 0, 0, 0] \<rparr>)"
    by (simp add: process_flv_es_message_def FLV_AUDIO_ES_def FLV_VIDEO_ES_def kind process_video_eos_def)
  then show ?thesis
    using assms by (simp add: publish_message_def publish_to_streamer_def begin_stage_def begin_publish_def all_ok_def
        id_doc_def ascii_def init_stage_def ready_to_send_def publish_frames.simps end_stage_def end_of_video_es_def
        end_publish_def response_error_def Let_def)
qed

lemma eos_handled:
  assumes "arrived eos_message got" and "publish_state (es_ctx s) = Begin" and "media_es_list (es_ctx s) = []"
    and "audio_codec_info (audio_init_es (es_ctx s)) = []"
  shows "\<exists>s'. handle_request all_ok id_doc (Some got) s = Inr ([], s') \<and> publish_state (es_ctx s') = End"
proof -
  have got: "body got = VideoMessage [0x27, 2, 0, 0, 0]" "msg_type_id (header got) = VIDEODATA"
    using assms(1) by (simp_all add: arrived_def eos_message_def media_message_def addressed_def base_message_def Let_def)
  obtain c1 d1 c2 d2 where rec: "write_flv got (es_ctx s, disk s) = (c1, d1)"
    "write_flv_media_message_dump got (c1, d1) = (c2, d2)" by (metis prod.exhaust)
  have c2: "publish_state c2 = Begin" "media_es_list c2 = []" "audio_codec_info (audio_init_es c2) = []"
    by (subst recorder_context(2) [OF rec(2)], subst recorder_context(1) [OF rec(1)], simp add: assms(2-4))+
  obtain c' ex' where "publish_message all_ok id_doc c2 (exchanges s) 9 (abs_timestamp (header got)) [0x27, 2, 0, 0, 0] =
      Ok (c', ex')" "publish_state c' = End"
    using eos_ends [OF c2] by metis
  then show ?thesis
    by (simp add: handle_request_def handle_media_message_def got rec get_data_def of_access_def msg_type_value_def)
qed

lemma ended_connection:
  "\<exists>c. rtmp_reachable 0 all_ok id_doc sum_hmac c \<and> enabled Operation_Error c \<and> publish_state (es_ctx (conn_session c)) = End"
proof -
  let ?c = "open_connection sum_hmac" and ?b = "message_bytes eos_message"
  note c = open_connection_state [of sum_hmac]
  have m: "deliverable 128 eos_message"
    unfolding deliverable_def eos_message_def
    by (intro exI [of _ "VideoMessage [0x27, 2, 0, 0, 0]"] exI [of _ "[0x27, 2, 0, 0, 0]"] exI [of _ 6] exI [of _ 1]
        exI [of _ 1000]) (simp add: media_body_def)
  have "?b \<noteq> []"
    by (rule deliverable_parse [OF m c(5,6), where junk = 0 and s = "[]"]) simp_all
  then have read: "rtmp_event 0 all_ok id_doc sum_hmac (Bytes ?b) ?c =
      rtmp_read_loop 0 all_ok id_doc (length ?b) 0 (?c \<lparr> phase_of := No_Operation, request_streambuf := ?b \<rparr>)"
    by (simp add: handle_event_def handle_read_def Let_def c(2))
  have "delivered_to all_ok id_doc [eos_message] (conn_session ?c) (rtmp_event 0 all_ok id_doc sum_hmac (Bytes ?b) ?c)"
    unfolding read using read_loop_delivers [of "[eos_message]" 128 "?c \<lparr> phase_of := No_Operation, request_streambuf := ?b \<rparr>" 0]
      m c(3,5,6) by (simp add: sending_ok_def)
  then obtain got where got: "arrived eos_message got" "case run_handlers all_ok id_doc [got] (conn_session ?c) of
      Inl e \<Rightarrow> rtmp_event 0 all_ok id_doc sum_hmac (Bytes ?b) ?c = Some (Inl e)
    | Inr s' \<Rightarrow> \<exists>c'. rtmp_event 0 all_ok id_doc sum_hmac (Bytes ?b) ?c = Some (Inr c') \<and> conn_session c' = s'
        \<and> phase_of c' = Read_Messages \<and> request_streambuf c' = [] \<and> idle (conn_parser c')"
    unfolding delivered_to_def list_all2_Cons1 list_all2_Nil by blast
  obtain s' where "handle_request all_ok id_doc (Some got) (conn_session ?c) = Inr ([], s')" "publish_state (es_ctx s') = End"
    using eos_handled [OF got(1), of "conn_session ?c"] by (auto simp: c(9) new_es_context_def)
  then obtain c' where c': "rtmp_event 0 all_ok id_doc sum_hmac (Bytes ?b) ?c = Some (Inr c')"
    "publish_state (es_ctx (conn_session c')) = End" "phase_of c' = Read_Messages"
    using got(2) by auto
  have "length ?b \<le> READ_BUF_SIZE"
    using media_bytes [of "VideoMessage [0x27, 2, 0, 0, 0]" "[0x27, 2, 0, 0, 0]"]
    by (simp add: eos_message_def media_body_def header_bytes_def basic_header_bytes_def message_header_bytes_def
        header_reset_def be24_def chunked.simps READ_BUF_SIZE_def is_1byte_basic_header_def)
  then have "enabled (Bytes ?b) ?c"
    using c(1) by (simp add: enabled_def)
  from reachable.event [OF open_connection_reachable this c'(1)] c'(2,3) show ?thesis
    by (auto simp: enabled_def)
qed

theorem ended_for_good_witness:
  "\<exists>c c'. publish_state (es_ctx (conn_session c)) = End
    \<and> rtmp_event 0 all_ok id_doc sum_hmac Operation_Error c = Some (Inr c') \<and> publish_state (es_ctx (conn_session c')) = End
    \<and> accepted_es (exchanges (conn_session c')) = accepted_es (exchanges (conn_session c))"
proof -
  obtain c where c: "rtmp_reachable 0 all_ok id_doc sum_hmac c" "enabled Operation_Error c"
    "publish_state (es_ctx (conn_session c)) = End"
    using ended_connection by blast
  obtain c' where c': "rtmp_event 0 all_ok id_doc sum_hmac Operation_Error c = Some (Inr c')"
    by (simp add: handle_event_def)
  from ended_for_good [OF c(1,2) c'] c' c(3) show ?thesis by auto
qed

end
