(* ===== verification/Rtmp_Server.thy ===== *)
theory Rtmp_Server
  imports Connection
begin

text \<open>
  The server, \<open>network/Server.cpp\<close> as \<open>main.cpp\<close> starts it: it accepts connections and runs their
  completion handlers in one thread, one at a time. The connections share the disk: the one of
  a session is the disk of the server while one of its handlers runs. The streamer may answer
  each connection differently: \<open>srv i\<close> is what it answers to the requests of connection \<open>i\<close>.
  A connection without an operation under way is gone in the program; here it stays in the list, and has no
  event. The sockets, the address and the signal set are asio's.

  Shown: what holds of a connection holds of every connection of the server, whatever the others do
  meanwhile; recordings and dumps only grow, also when a name is published again.
\<close>

subsection \<open>State and handlers\<close>

record rtmp_server =
  connections :: "(rtmp_parser, session) connection list"
  next_connection :: "(rtmp_parser, session) connection"
  new_connection_id :: u32
  stopped :: bool
  server_disk :: disk

definition start_accept :: "rtmp_server \<Rightarrow> rtmp_server" where
  "start_accept s = s \<lparr> next_connection := new_connection new_rtmp_parser new_session,
     new_connection_id := new_connection_id s + 1 \<rparr>"

definition new_server :: "disk \<Rightarrow> rtmp_server" where
  "new_server d = start_accept \<lparr> connections = [], next_connection = new_connection new_rtmp_parser new_session,
     new_connection_id = 0, stopped = False, server_disk = d \<rparr>"

definition handle_accept :: "bool \<Rightarrow> rtmp_server \<Rightarrow> rtmp_server" where
  "handle_accept e s = start_accept
     (if e then s else s \<lparr> connections := connections s @ [next_connection s] \<rparr>)"

definition handle_stop :: "rtmp_server \<Rightarrow> rtmp_server" where
  "handle_stop s = s \<lparr> stopped := True \<rparr>"

text \<open>A handler of connection \<open>i\<close>, with the disk.\<close>

definition with_disk :: "disk \<Rightarrow> (rtmp_parser, session) connection \<Rightarrow> (rtmp_parser, session) connection" where
  "with_disk d c = c \<lparr> conn_session := (conn_session c) \<lparr> disk := d \<rparr> \<rparr>"

definition run_handler :: "u32 \<Rightarrow> (nat \<Rightarrow> server) \<Rightarrow> json \<Rightarrow> hmac \<Rightarrow> nat \<Rightarrow> event \<Rightarrow> rtmp_server \<Rightarrow>
    (crash + rtmp_server) option" where
  "run_handler junk srv doc mac i ev s =
     (case rtmp_event junk (srv i) doc mac ev (with_disk (server_disk s) (connections s ! i)) of
        None \<Rightarrow> None
      | Some (Inl e) \<Rightarrow> Some (Inl e)
      | Some (Inr c) \<Rightarrow> Some (Inr (s \<lparr> connections := (connections s)[i := c],
          server_disk := disk (conn_session c) \<rparr>)))"

datatype server_event = Accepted bool | Completion nat event | Stop_Signal

definition server_enabled :: "server_event \<Rightarrow> rtmp_server \<Rightarrow> bool" where
  "server_enabled ev s \<longleftrightarrow> \<not> stopped s \<and> (case ev of
      Completion i e \<Rightarrow> i < length (connections s) \<and> enabled e (connections s ! i)
    | _ \<Rightarrow> True)"

definition server_event :: "u32 \<Rightarrow> (nat \<Rightarrow> server) \<Rightarrow> json \<Rightarrow> hmac \<Rightarrow> server_event \<Rightarrow> rtmp_server \<Rightarrow>
    (crash + rtmp_server) option" where
  "server_event junk srv doc mac ev s = (case ev of
      Accepted e \<Rightarrow> Some (Inr (handle_accept e s))
    | Completion i e \<Rightarrow> run_handler junk srv doc mac i e s
    | Stop_Signal \<Rightarrow> Some (Inr (handle_stop s)))"

inductive server_reachable :: "u32 \<Rightarrow> (nat \<Rightarrow> server) \<Rightarrow> json \<Rightarrow> hmac \<Rightarrow> disk \<Rightarrow> rtmp_server \<Rightarrow> bool"
  for junk srv doc mac d where
  start: "server_reachable junk srv doc mac d (new_server d)"
| event: "server_reachable junk srv doc mac d s \<Longrightarrow> server_enabled ev s \<Longrightarrow>
    server_event junk srv doc mac ev s = Some (Inr s') \<Longrightarrow> server_reachable junk srv doc mac d s'"

subsection \<open>Every connection keeps its invariant\<close>

definition server_ok :: "(nat \<Rightarrow> server) \<Rightarrow> json \<Rightarrow> rtmp_server \<Rightarrow> bool" where
  "server_ok srv doc s \<longleftrightarrow> next_connection s = new_connection new_rtmp_parser new_session \<and>
     (\<forall>i<length (connections s). connection_parts.conn_ok (posting (srv i) doc) (connections s ! i))"

lemma with_disk_ok:
  "connection_parts.conn_ok (posting srv doc) (with_disk d c) = connection_parts.conn_ok (posting srv doc) c"
  by (simp add: rtmp_connection.conn_ok_def with_disk_def posting_def session_publishing_def)

lemma enabled_with_disk [simp]: "enabled ev (with_disk d c) = enabled ev c"
  by (cases ev) (simp_all add: enabled_def with_disk_def)

lemma fresh_ok: "connection_parts.conn_ok (posting srv doc) (new_connection new_rtmp_parser new_session)"
  by (rule rtmp_connection.reachable_ok [OF reachable.start posting_new])

lemma server_event_ok:
  assumes "server_ok srv doc s" and "server_enabled ev s"
  shows "\<exists>r. server_event junk srv doc mac ev s = Some r \<and> (\<forall>s'. r = Inr s' \<longrightarrow> server_ok srv doc s')"
proof (cases ev)
  case (Accepted e)
  have "server_ok srv doc (handle_accept e s)"
    using assms(1) fresh_ok
    by (auto simp: server_ok_def handle_accept_def start_accept_def nth_append less_Suc_eq)
  then show ?thesis by (simp add: server_event_def Accepted)
next
  case (Completion i e)
  let ?c = "with_disk (server_disk s) (connections s ! i)"
  have "connection_parts.conn_ok (posting (srv i) doc) ?c" "enabled e ?c"
    using assms by (simp_all add: server_ok_def server_enabled_def Completion with_disk_ok)
  from rtmp_connection.event_ok [OF this] obtain r where r: "rtmp_event junk (srv i) doc mac e ?c = Some r"
    "\<forall>c'. r = Inr c' \<longrightarrow> connection_parts.conn_ok (posting (srv i) doc) c'" by blast
  then show ?thesis
    using assms by (cases r) (auto simp: server_event_def Completion run_handler_def server_ok_def server_enabled_def nth_list_update)
next
  case Stop_Signal
  then show ?thesis using assms(1) by (simp add: server_event_def handle_stop_def server_ok_def)
qed

lemma server_reachable_ok: "server_reachable junk srv doc mac d s \<Longrightarrow> server_ok srv doc s"
proof (induction rule: server_reachable.induct)
  case (event s ev s')
  then show ?case using server_event_ok [OF event.IH event.hyps(2), of junk mac] by auto
qed (simp add: server_ok_def new_server_def start_accept_def)

text \<open>In every state of the server, for each of its connections, whatever the other clients did meanwhile,
  every handler that can run returns or ends the process.\<close>

theorem server_runs:
  assumes "server_reachable junk srv doc mac d s" and "server_enabled ev s"
  shows "\<exists>r. server_event junk srv doc mac ev s = Some r"
  using server_event_ok [OF server_reachable_ok [OF assms(1)] assms(2)] by blast

text \<open>C5: every connection of the server has its frames posted in order: the frame requests that the streamer
  has accepted from it are those of its frames 1 to \<open>k\<close> with data, and the frames that wait are
  the next ones, although the connections write to the same disk and their handlers are
  interleaved.\<close>

theorem server_posts_in_order:
  assumes "server_reachable junk srv doc mac d s" and "c \<in> set (connections s)"
  defines "ctx \<equiv> es_ctx (conn_session c)"
  shows "\<exists>sent. accepted_es (exchanges (conn_session c)) = frames_to_send ctx sent
    \<and> map es_frame_number (sent @ media_es_list ctx) = map (\<lambda>i. of_nat (i + 1)) [0 ..< length (sent @ media_es_list ctx)]"
proof -
  obtain i where "i < length (connections s)" "c = connections s ! i"
    using assms(2) by (metis in_set_conv_nth)
  then have "posting (srv i) doc (conn_session c)"
    using server_reachable_ok [OF assms(1)] by (simp add: server_ok_def rtmp_connection.conn_ok_def)
  from posting_in_order [OF this] show ?thesis unfolding ctx_def by blast
qed

subsection \<open>Files\<close>

lemma recorder_grows:
  "write_flv m (c, d) = (c', d') \<Longrightarrow> prefix d d'"
  "write_flv_media_message_dump m (c, d) = (c', d') \<Longrightarrow> prefix d d'"
  by (auto simp: write_flv_def write_flv_media_message_dump_def ensure_flv_header_def write_flv_header_def
      write_flv_tag_def append_file_def Let_def split: if_splits)

lemma handle_request_grows:
  assumes "handle_request srv doc req s = Inr (acts, s')"
  shows "prefix (disk s) (disk s')"
proof -
  obtain m where m: "req = Some m" using assms by (cases req) (auto simp: handle_request_def)
  obtain c1 d1 c2 d2 where rec: "write_flv m (es_ctx s, disk s) = (c1, d1)"
    "write_flv_media_message_dump m (c1, d1) = (c2, d2)" by (metis prod.exhaust)
  have "prefix (disk s) d2"
    using recorder_grows(1) [OF rec(1)] recorder_grows(2) [OF rec(2)] by (rule prefix_order.trans)
  then have "prefix (disk s) (disk s')" if "handle_media_message srv doc m s = Inr (acts, s')"
    using that by (auto simp: handle_media_message_def rec of_access_def split: access.splits)
  then show ?thesis
    using assms by (cases "body m") (auto simp: m handle_request_def handlers Let_def)
qed

interpretation recording_handler: request_handler "handle_request srv doc" "notify_disconnect srv doc"
  "\<lambda>s. prefix d (disk s)"
proof
  fix s req acts s'
  assume h: "handle_request srv doc req s = Inr (acts, s')"
  then show "acts_ok acts" by (rule handle_request_acts)
  assume "prefix d (disk s)"
  then show "prefix d (disk s')" using handle_request_grows [OF h] by (rule prefix_order.trans)
qed (auto simp: notify_disconnect_def Let_def split: prod.splits)

interpretation recording_connection: connection_parts "rtmp_parse junk" parser_rank "handle_request srv doc"
  "notify_disconnect srv doc" "\<lambda>s. prefix d (disk s)" parsed_message mac set_base_timestamp
  for junk srv doc d and mac :: hmac
  by unfold_locales (simp add: set_base_timestamp_def)

lemma prefix_content: "prefix d d' \<Longrightarrow> prefix (file_content d path) (file_content d' path)"
  by (auto simp: prefix_def)

text \<open>C16: a name that is published again does not start a new recording. The files of the disk here
  are the recordings and the dumps of media messages, and whatever the clients do, they are only
  appended to: what such a file held before a handler ran, of whichever connection, is how it
  begins afterwards. The comment on publish types above \<open>handle_media_message\<close> says that an
  existing file is overwritten by a stream of type \<open>record\<close>, which is the type that
  \<open>write_flv.cpp\<close> always has; this code overwrites none.\<close>

theorem recordings_only_grow:
  assumes "server_reachable junk srv doc mac d s" and "server_enabled ev s"
    and "server_event junk srv doc mac ev s = Some (Inr s')"
  shows "prefix (file_content (server_disk s) path) (file_content (server_disk s') path)"
proof (cases ev)
  case (Completion i e)
  let ?ok = "connection_parts.conn_ok (\<lambda>t. prefix (server_disk s) (disk t))"
    and ?c = "with_disk (server_disk s) (connections s ! i)"
  have "connection_parts.conn_ok (posting (srv i) doc) ?c" "enabled e ?c"
    using server_reachable_ok [OF assms(1)] assms(2)
    by (simp_all add: server_ok_def server_enabled_def Completion with_disk_ok)
  then have "?ok ?c"
    by (simp add: rtmp_connection.conn_ok_def recording_connection.conn_ok_def with_disk_def)
  obtain c where c: "rtmp_event junk (srv i) doc mac e ?c = Some (Inr c)" "server_disk s' = disk (conn_session c)"
    using assms(3) by (auto simp: server_event_def Completion run_handler_def split: option.splits sum.splits)
  from recording_connection.event_keeps [OF \<open>?ok ?c\<close> \<open>enabled e ?c\<close> c(1)] show ?thesis
    by (simp add: recording_connection.conn_ok_def c(2) prefix_content)
qed (use assms(3) in \<open>auto simp: server_event_def handle_accept_def start_accept_def handle_stop_def\<close>)

subsection \<open>A run\<close>

text \<open>A server that has accepted two clients.\<close>

definition two_clients :: rtmp_server where
  "two_clients = handle_accept False (handle_accept False (new_server []))"

lemma two_clients_reachable: "server_reachable junk srv doc mac [] two_clients"
proof -
  have e: "server_enabled (Accepted False) (new_server [])" "server_enabled (Accepted False) (handle_accept False (new_server []))"
    by (simp_all add: server_enabled_def new_server_def handle_accept_def start_accept_def)
  have "server_reachable junk srv doc mac [] (handle_accept False (new_server []))"
    by (rule server_reachable.event [OF server_reachable.start e(1)]) (simp add: server_event_def)
  then show ?thesis unfolding two_clients_def
    by (rule server_reachable.event [OF _ e(2)]) (simp add: server_event_def)
qed

lemma two_clients_enabled: "server_enabled (Completion 1 (C0_C1 zero_C0_C1 0 0 0 of_nat)) two_clients"
  by (simp add: server_enabled_def two_clients_def handle_accept_def start_accept_def new_server_def enabled_def
      new_connection_def zero_C0_C1_def HANDSHAKE_MSG_LENGTH_def)

theorem server_runs_witness:
  "\<exists>r. server_event 0 (\<lambda>_. all_ok) id_doc sum_hmac (Completion 1 (C0_C1 zero_C0_C1 0 0 0 of_nat)) two_clients = Some r"
  by (rule server_runs [OF two_clients_reachable two_clients_enabled])

theorem server_posts_in_order_witness:
  "\<exists>sent. accepted_es (exchanges (conn_session (connections two_clients ! 1))) =
    frames_to_send (es_ctx (conn_session (connections two_clients ! 1))) sent"
proof -
  have "connections two_clients ! 1 \<in> set (connections two_clients)"
    by (simp add: two_clients_def handle_accept_def start_accept_def new_server_def)
  from server_posts_in_order [OF two_clients_reachable [of 0 "\<lambda>_. all_ok" id_doc sum_hmac] this]
  show ?thesis by blast
qed

theorem recordings_only_grow_witness:
  "\<exists>s'. server_event 0 (\<lambda>_. all_ok) id_doc sum_hmac (Completion 1 (C0_C1 zero_C0_C1 0 0 0 of_nat)) two_clients = Some (Inr s')
    \<and> prefix (file_content (server_disk two_clients) (ascii ''dump/a/a.flv'')) (file_content (server_disk s') (ascii ''dump/a/a.flv''))"
proof -
  obtain s' where e: "server_event 0 (\<lambda>_. all_ok) id_doc sum_hmac (Completion 1 (C0_C1 zero_C0_C1 0 0 0 of_nat)) two_clients = Some (Inr s')"
    by (simp add: server_event_def run_handler_def handle_event_def)
  show ?thesis using recordings_only_grow [OF two_clients_reachable two_clients_enabled e] e by blast
qed

end
