(* ===== verification/Stream_Links.thy ===== *)
theory Stream_Links
  imports Rtmp_Message
begin

text \<open>
  Linking a published stream to its players, \<open>logic/RtmpStream.hpp\<close> and \<open>RtmpStream.cpp\<close>, and the sender
  and the sessions of \<open>logic/StreamManager.hpp\<close> and \<open>logic/Session.h\<close>: the part of the
  program that would relay a stream, to which the handler has no call yet. A shared pointer is an
  address in a store, a \<open>MessageSender\<close> a number; what is pushed to senders is returned.

  Shown: the links of a stream are apart, as registering and unregistering keep them, and
  unregistering takes back a registration; the streams that \<open>SameStream\<close> finds are
  those with other names; a session that \<open>get_session\<close> makes is forgotten.
\<close>

subsection \<open>Streams\<close>

record rtmp_stream =
  stream_msg_stream_id :: u32
  stream_full_name :: bytes
  stream_simple_name :: bytes
  stream_chunk_stream_id :: u32
  stream_chunk_size :: u32
  stream_sender :: nat

type_synonym stream_store = "nat \<Rightarrow> rtmp_stream"

definition is_same :: "stream_store \<Rightarrow> nat \<Rightarrow> nat \<Rightarrow> bool" where
  "is_same st p ptr \<longleftrightarrow> stream_full_name (st p) = stream_full_name (st ptr)
     \<or> stream_simple_name (st p) = stream_simple_name (st ptr)"

definition is_same_name :: "stream_store \<Rightarrow> nat \<Rightarrow> bytes \<Rightarrow> bool" where
  "is_same_name st p stream_name \<longleftrightarrow> stream_full_name (st p) = stream_name
     \<or> stream_simple_name (st p) = stream_name"

text \<open>\<open>compare\<close> is 0, so false, for equal strings.\<close>

definition SameStream :: "bytes \<Rightarrow> stream_store \<Rightarrow> nat \<Rightarrow> bool" where
  "SameStream name st p \<longleftrightarrow> name \<noteq> stream_full_name (st p) \<or> name \<noteq> stream_simple_name (st p)"

definition stream_write_message :: "stream_store \<Rightarrow> 'm \<Rightarrow> nat \<Rightarrow> nat \<times> 'm" where
  "stream_write_message st msg p = (stream_sender (st p), msg)"

definition add_data :: "stream_store \<Rightarrow> 'm \<Rightarrow> nat list \<Rightarrow> (nat \<times> 'm) list" where
  "add_data st msg linked_out_streams = map (stream_write_message st msg) linked_out_streams"

definition exists_in_linked_out_streams :: "stream_store \<Rightarrow> nat \<Rightarrow> nat list \<Rightarrow> bool" where
  "exists_in_linked_out_streams st out linked_out_streams \<longleftrightarrow>
     dropWhile (\<lambda>p. \<not> is_same st p out) linked_out_streams \<noteq> []"

definition register_link :: "stream_store \<Rightarrow> nat \<Rightarrow> nat list \<Rightarrow> nat list" where
  "register_link st out linked_out_streams =
     (if exists_in_linked_out_streams st out linked_out_streams then linked_out_streams
      else linked_out_streams @ [out])"

definition unregister_link :: "stream_store \<Rightarrow> nat \<Rightarrow> nat list \<Rightarrow> nat list" where
  "unregister_link st out linked_out_streams =
     (case dropWhile (\<lambda>p. \<not> is_same st p out) linked_out_streams of
        [] \<Rightarrow> linked_out_streams
      | _ # rest \<Rightarrow> takeWhile (\<lambda>p. \<not> is_same st p out) linked_out_streams @ rest)"

subsection \<open>The sender\<close>

record stream_manager =
  manager_out :: "nat option"
  out_chunk_size :: u32

definition new_stream_manager :: stream_manager where
  "new_stream_manager = \<lparr> manager_out = None, out_chunk_size = 128 \<rparr>"

definition set_out :: "nat option \<Rightarrow> stream_manager \<Rightarrow> stream_manager" where
  "set_out out m = m \<lparr> manager_out := out \<rparr>"

definition manager_write_message :: "rtmp_message \<Rightarrow> stream_manager \<Rightarrow> (nat \<times> rtmp_message) list" where
  "manager_write_message msg m = (case manager_out m of
      None \<Rightarrow> [] | Some out \<Rightarrow> [(out, msg \<lparr> write_chunk_size := out_chunk_size m \<rparr>)])"

definition manager_set_chunk_size :: "u64 \<Rightarrow> stream_manager \<Rightarrow> (nat \<times> rtmp_message) list \<times> stream_manager" where
  "manager_set_chunk_size sz m =
     (manager_write_message (control_message (SetChunkSize (ucast sz))) m,
      m \<lparr> out_chunk_size := ucast sz \<rparr>)"

subsection \<open>Sessions\<close>

text \<open>The objects, with their addresses in each list.\<close>

record chunk_stream_obj =
  chunk_stream_obj_id :: u32
  message_streams :: "u32 \<rightharpoonup> nat"
  preceding_chunk_header :: "rtmp_header option"

record session_obj =
  session_obj_id :: u32
  chunk_streams :: "u32 \<rightharpoonup> nat"
  session_chunk_size :: nat

record message_obj =
  message_obj_id :: nat
  message_obj_timestamp :: u32
  message_obj_length :: nat
  message_obj_type_id :: u32
  received_length :: nat
  message_obj_chunk_stream_id :: u32
  message_obj_stream_id :: u32
  message_obj_chunk_data :: "bytes option"
  message_obj_chunk_datas :: "bytes list"

record message_stream_obj =
  message_stream_obj_id :: u32
  current_message :: "nat option"

record session_heap =
  message_objs :: "message_obj list"
  message_uid :: u32
  message_stream_objs :: "message_stream_obj list"
  chunk_stream_objs :: "chunk_stream_obj list"
  session_objs :: "session_obj list"

definition new_message :: "nat \<Rightarrow> session_heap \<Rightarrow> nat \<times> session_heap" where
  "new_message ms h = (let p = length (message_objs h); uid = message_uid h + 1 in
     (p, h \<lparr> message_uid := uid,
        message_objs := message_objs h @ [\<lparr> message_obj_id = unat uid, message_obj_timestamp = 0,
          message_obj_length = 0, message_obj_type_id = 0, received_length = 0,
          message_obj_chunk_stream_id = 0, message_obj_stream_id = 0,
          message_obj_chunk_data = None, message_obj_chunk_datas = [] \<rparr>],
        message_stream_objs := (message_stream_objs h)[ms :=
          (message_stream_objs h ! ms) \<lparr> current_message := Some p \<rparr>] \<rparr>))"

definition set_current_message :: "nat \<Rightarrow> nat option \<Rightarrow> session_heap \<Rightarrow> session_heap" where
  "set_current_message ms message h = h \<lparr> message_stream_objs := (message_stream_objs h)[ms :=
     (message_stream_objs h ! ms) \<lparr> current_message := message \<rparr>] \<rparr>"

definition set_preceding_chunk_header :: "nat \<Rightarrow> rtmp_header option \<Rightarrow> session_heap \<Rightarrow> session_heap" where
  "set_preceding_chunk_header cs preceding_header h = h \<lparr> chunk_stream_objs := (chunk_stream_objs h)[cs :=
     (chunk_stream_objs h ! cs) \<lparr> preceding_chunk_header := preceding_header \<rparr>] \<rparr>"

definition get_message_stream :: "nat \<Rightarrow> u32 \<Rightarrow> session_heap \<Rightarrow> nat \<times> session_heap" where
  "get_message_stream cs message_stream_id h =
     (case message_streams (chunk_stream_objs h ! cs) message_stream_id of
        Some p \<Rightarrow> (p, h)
      | None \<Rightarrow> let p = length (message_stream_objs h); c = chunk_stream_objs h ! cs in
          (p, h \<lparr> message_stream_objs := message_stream_objs h @
               [\<lparr> message_stream_obj_id = message_stream_id, current_message = None \<rparr>],
             chunk_stream_objs := (chunk_stream_objs h)[cs :=
               c \<lparr> message_streams := (message_streams c)(message_stream_id \<mapsto> p) \<rparr>] \<rparr>))"

definition get_chunk_stream :: "nat \<Rightarrow> u32 \<Rightarrow> session_heap \<Rightarrow> nat \<times> session_heap" where
  "get_chunk_stream s cs_id h =
     (case chunk_streams (session_objs h ! s) cs_id of
        Some p \<Rightarrow> (p, h)
      | None \<Rightarrow> let p = length (chunk_stream_objs h); obj = session_objs h ! s in
          (p, h \<lparr> chunk_stream_objs := chunk_stream_objs h @
               [\<lparr> chunk_stream_obj_id = cs_id, message_streams = Map.empty, preceding_chunk_header = None \<rparr>],
             session_objs := (session_objs h)[s :=
               obj \<lparr> chunk_streams := (chunk_streams obj)(cs_id \<mapsto> p) \<rparr>] \<rparr>))"

text \<open>The map of sessions is passed by value, so that what is done to it is not returned.\<close>

definition remove_session :: "(u32 \<rightharpoonup> nat) \<Rightarrow> u32 \<Rightarrow> unit" where
  "remove_session sessions i = ()"

definition get_session :: "(u32 \<rightharpoonup> nat) \<Rightarrow> u32 \<Rightarrow> session_heap \<Rightarrow> nat \<times> session_heap" where
  "get_session sessions i h = (case sessions i of
      Some p \<Rightarrow> (p, h)
    | None \<Rightarrow> (length (session_objs h), h \<lparr> session_objs := session_objs h @
        [\<lparr> session_obj_id = i, chunk_streams = Map.empty, session_chunk_size = 128 \<rparr>] \<rparr>))"

subsection \<open>Links\<close>

lemma is_same_refl [simp]: "is_same st p p"
  by (simp add: is_same_def)

lemma is_same_sym: "is_same st p q \<longleftrightarrow> is_same st q p"
  by (auto simp: is_same_def)

lemma exists_linked: "exists_in_linked_out_streams st out links \<longleftrightarrow> (\<exists>p\<in>set links. is_same st p out)"
  by (auto simp: exists_in_linked_out_streams_def)

text \<open>No two links are to the same stream.\<close>

definition apart :: "stream_store \<Rightarrow> nat list \<Rightarrow> bool" where
  "apart st links \<longleftrightarrow> sorted_wrt (\<lambda>p q. \<not> is_same st p q) links"

lemma apart_distinct: "apart st links \<Longrightarrow> distinct links"
  unfolding apart_def by (induction links) auto

lemma unregister_Cons:
  "unregister_link st out (p # links) = (if is_same st p out then links else p # unregister_link st out links)"
  by (cases "dropWhile (\<lambda>p. \<not> is_same st p out) links")
    (simp_all add: unregister_link_def del: dropWhile_eq_Nil_conv)

lemma unregister_Nil [simp]: "unregister_link st out [] = []"
  by (simp add: unregister_link_def)

lemma unregister_subset: "set (unregister_link st out links) \<subseteq> set links"
  by (induction links) (auto simp: unregister_Cons)

lemma links_stay_apart:
  assumes "apart st links"
  shows "apart st (register_link st out links)" and "apart st (unregister_link st out links)"
proof -
  show "apart st (register_link st out links)"
    using assms by (auto simp: apart_def register_link_def exists_linked sorted_wrt_append)
  show "apart st (unregister_link st out links)"
    using assms unregister_subset [of st out]
    unfolding apart_def by (induction links) (auto simp: unregister_Cons subset_iff)
qed

text \<open>A registered stream gets every message once, until it is unregistered; then the links are as before.\<close>

lemma linked_once:
  assumes "apart st links" and "\<not> exists_in_linked_out_streams st out links"
  shows "add_data st msg (register_link st out links) = add_data st msg links @ [(stream_sender (st out), msg)]"
    and "unregister_link st out (register_link st out links) = links"
proof -
  have r: "register_link st out links = links @ [out]" using assms(2) by (simp add: register_link_def)
  then show "add_data st msg (register_link st out links) = add_data st msg links @ [(stream_sender (st out), msg)]"
    by (simp add: add_data_def stream_write_message_def)
  show "unregister_link st out (register_link st out links) = links"
    using assms(2) unfolding r by (induction links) (auto simp: unregister_Cons exists_linked)
qed

lemma unregister_linked:
  "apart st links \<Longrightarrow> out \<in> set links \<Longrightarrow> unregister_link st out links = remove1 out links"
  by (induction links) (auto simp: unregister_Cons apart_def is_same_sym)

text \<open>What \<open>SameStream\<close> finds: every stream but those that have the name as both of theirs.\<close>

lemma SameStream_other: "\<not> is_same_name st p name \<Longrightarrow> SameStream name st p"
  and SameStream_itself: "\<not> SameStream (stream_full_name (st p)) st p \<longleftrightarrow> stream_simple_name (st p) = stream_full_name (st p)"
  by (auto simp: SameStream_def is_same_name_def)

subsection \<open>Lookups\<close>

text \<open>A chunk stream of a session is made once; a session every time.\<close>

lemma chunk_stream_remembered:
  assumes "get_chunk_stream s i h = (p, h')" and "s < length (session_objs h)"
  shows "get_chunk_stream s i h' = (p, h')"
  using assms by (auto simp: get_chunk_stream_def Let_def split: option.splits)

lemma session_forgotten:
  assumes "get_session sessions i h = (p, h')" and "sessions i = None"
  shows "fst (get_session sessions i h') = Suc p"
  using assms by (auto simp: get_session_def)

end
