(* ===== verification/Log_Files.thy ===== *)
theory Log_Files
  imports Rtmp_Prelude
begin

text \<open>
  The files of the log: the four sink backends of \<open>src/castislogger.h\<close> and \<open>src/cichannellogger.h\<close>, which
  write each record as a line and move to another file by size, by date or by hour. The program
  uses \<open>cilog_size_based_backup_backend\<close> (\<open>rtmpmodulelogger.h\<close>, \<open>main.cpp\<close>), whose active file is
  renamed when it is full.

  Local time is a number of seconds; every call of a function that reads the clock has a reading
  of its own. A disk is the list of its files below the target directory, with their contents.
  What Boost decides is in the record \<open>log_env\<close>: how a time is printed in a format, whether a file
  name matches a pattern, in which order a directory is iterated, and whether a file can be opened.
  Creating directories and writing succeed; the size of a file is a natural number.

  Shown: a backend is a sink (the locale \<open>log_sink\<close>): its files hold all lines in the order of the
  records, for the size-based backends as long as the day is the same and for the hourly one as long
  as time does not go back. At a change of the day, the size-based backup loses the old log.
\<close>

subsection \<open>Time, disk and names\<close>

type_synonym ptime = int

definition local_day :: "ptime \<Rightarrow> int" where
  "local_day t = t div 86400"

definition hours :: "int \<Rightarrow> int" where
  "hours h = 3600 * h"

type_synonym log_path = "bytes list"
type_synonym log_disk = "(log_path \<times> bytes) list"

record log_env =
  print_time :: "bytes \<Rightarrow> ptime \<Rightarrow> bytes"
  regex_match :: "bytes \<Rightarrow> bytes \<Rightarrow> bool"
  directory_order :: "bytes list \<Rightarrow> bytes list"
  can_open :: "log_path \<Rightarrow> bool"

abbreviation line :: "bytes \<Rightarrow> bytes" where
  "line msg \<equiv> msg @ [0x0A]"

definition log_content :: "log_disk \<Rightarrow> log_path \<Rightarrow> bytes" where
  "log_content d p = (case map_of d p of None \<Rightarrow> [] | Some b \<Rightarrow> b)"

text \<open>Writing at the end of a file, which is made when it does not exist.\<close>

fun append_log :: "log_path \<Rightarrow> bytes \<Rightarrow> log_disk \<Rightarrow> log_disk" where
  "append_log p b [] = [(p, b)]"
| "append_log p b ((q, c) # d) = (if q = p then (q, c @ b) # d else (q, c) # append_log p b d)"

text \<open>\<open>rename\<close> throws when there is no such file, and replaces a file that has the new name.\<close>

definition rename_log :: "log_path \<Rightarrow> log_path \<Rightarrow> log_disk \<Rightarrow> log_disk option" where
  "rename_log p q d = (case map_of d p of
      None \<Rightarrow> None
    | Some b \<Rightarrow> Some ((q, b) # filter (\<lambda>f. fst f \<noteq> p \<and> fst f \<noteq> q) d))"

definition file_size :: "log_path \<Rightarrow> log_disk \<Rightarrow> nat option" where
  "file_size p d = (if p = [] then None else map_option length (map_of d p))"

definition directory :: "log_env \<Rightarrow> bytes \<Rightarrow> log_disk \<Rightarrow> bytes list" where
  "directory env dir d = directory_order env (concat (map (\<lambda>(p, b). case p of
     [parent, name] \<Rightarrow> if parent = dir then [name] else [] | _ \<Rightarrow> []) d))"

definition log_extension :: bytes where "log_extension = ascii ''.log''"
definition day_format :: bytes where "day_format = ascii ''%Y-%m-%d''"
definition month_format :: bytes where "month_format = ascii ''%Y-%m''"
definition date_hour_format :: bytes where "date_hour_format = ascii ''%Y-%m-%d %H''"
definition default_prefix_format :: bytes where "default_prefix_format = ascii ''%Y-%m-%d[%H]''"

definition datetime_string_with_format :: "log_env \<Rightarrow> ptime \<Rightarrow> bytes \<Rightarrow> int \<Rightarrow> bytes" where
  "datetime_string_with_format env now format hour = print_time env format (now + hours hour)"

definition get_current_date_hour :: "log_env \<Rightarrow> ptime \<Rightarrow> bytes" where
  "get_current_date_hour env now = datetime_string_with_format env now date_hour_format 0"

definition generate_active_filepath :: "bytes \<Rightarrow> log_path" where
  "generate_active_filepath file_name_suffix = [file_name_suffix @ log_extension]"

subsection \<open>The next index of a file\<close>

text \<open>\<open>atoi\<close>, whose result is only defined for the values of an \<open>int\<close>.\<close>

definition is_space :: "byte \<Rightarrow> bool" where
  "is_space c \<longleftrightarrow> c = 32 \<or> (9 \<le> c \<and> c \<le> 13)"

definition atoi :: "bytes \<Rightarrow> int" where
  "atoi s = (case dropWhile is_space s of
      [] \<Rightarrow> 0
    | c # rest \<Rightarrow>
        if c = 0x2D then - int (digits_value (takeWhile is_digit rest))
        else int (digits_value (takeWhile is_digit (if c = 0x2B then rest else c # rest))))"

fun find_char :: "byte \<Rightarrow> bytes \<Rightarrow> nat option" where
  "find_char c [] = None"
| "find_char c (b # bs) = (if b = c then Some 0 else map_option Suc (find_char c bs))"

text \<open>With the brackets in the other order the length of the \<open>substr\<close> wraps, and it takes the rest.\<close>

definition parse_index :: "bytes \<Rightarrow> nat" where
  "parse_index filename = (case (find_char 0x5B filename, find_char 0x5D filename) of
      (Some pos_index_begin, Some pos_index_end) \<Rightarrow>
        unat (word_of_int (atoi (let rest = drop (pos_index_begin + 1) filename
          in if pos_index_begin \<le> pos_index_end then take (pos_index_end - pos_index_begin) rest
             else rest)) :: u32)
    | _ \<Rightarrow> 0)"

definition scan_step :: "bytes \<Rightarrow> bytes \<Rightarrow> nat \<times> log_path \<Rightarrow> nat \<times> log_path" where
  "scan_step dir name = (\<lambda>(current_index, current_fs).
     if parse_index name \<ge> current_index then (parse_index name, [dir, name])
     else (current_index, current_fs))"

definition scan_next_index :: "log_env \<Rightarrow> nat \<Rightarrow> bytes \<Rightarrow> bytes \<Rightarrow> log_disk \<Rightarrow> nat" where
  "scan_next_index env rotation_size dir pattern d =
     (let (current_index, current_fs) =
        fold (scan_step dir) (filter (regex_match env pattern) (directory env dir d)) (0, [])
      in case file_size current_fs d of
           Some filesize \<Rightarrow> if filesize \<ge> rotation_size then current_index + 1 else current_index
         | None \<Rightarrow> current_index)"

definition name_pattern :: "bytes \<Rightarrow> bytes \<Rightarrow> bytes" where
  "name_pattern filename_prefix file_name_suffix =
     filename_prefix @ ascii ''('' @ [0x5C] @ ascii ''[[0-9]+'' @ [0x5C] @ ascii ''])?'' @ ascii ''_'' @ file_name_suffix @ log_extension"

definition indexed_name :: "bytes \<Rightarrow> nat \<Rightarrow> bytes \<Rightarrow> bytes" where
  "indexed_name filename_prefix index file_name_suffix =
     filename_prefix @ [0x5B] @ decimal index @ [0x5D] @ [0x5F] @ file_name_suffix @ log_extension"

subsection \<open>Backups by size\<close>

record size_backend =
  file_open :: bool
  file_path :: log_path
  file_name_suffix :: bytes
  rotation_size :: nat
  characters_written :: nat
  current_date :: int

definition new_size_backend :: "bytes \<Rightarrow> nat \<Rightarrow> ptime \<Rightarrow> size_backend" where
  "new_size_backend suf limit now = \<lparr> file_open = False, file_path = [], file_name_suffix = suf,
     rotation_size = limit, characters_written = 0, current_date = local_day now \<rparr>"

text \<open>Readings of the clock during a call are numbered; a function gets its first one.\<close>

type_synonym readings = "nat \<Rightarrow> ptime"

definition generate_filepath :: "log_env \<Rightarrow> readings \<Rightarrow> nat \<Rightarrow> size_backend \<Rightarrow> log_disk \<Rightarrow> log_path" where
  "generate_filepath env now i b d =
     (let filename_prefix = datetime_string_with_format env (now i) day_format 0;
          monthly_path = datetime_string_with_format env (now (i + 1)) month_format 0;
          next_index = scan_next_index env (rotation_size b) monthly_path
            (name_pattern filename_prefix (file_name_suffix b)) d
      in [monthly_path, indexed_name filename_prefix next_index (file_name_suffix b)])"

definition rollover_without_max :: "log_env \<Rightarrow> readings \<Rightarrow> nat \<Rightarrow> size_backend \<Rightarrow> log_disk \<Rightarrow> log_disk" where
  "rollover_without_max env now i b d =
     (case rename_log (file_path b) (generate_filepath env now i b d) d of None \<Rightarrow> d | Some d' \<Rightarrow> d')"

definition rotate_file :: "log_env \<Rightarrow> readings \<Rightarrow> nat \<Rightarrow> size_backend \<times> log_disk \<Rightarrow> size_backend \<times> log_disk" where
  "rotate_file env now i = (\<lambda>(b, d).
     (b \<lparr> file_open := False, characters_written := 0, current_date := local_day (now (i + 2)) \<rparr>,
      rollover_without_max env now i b d))"

definition write_line :: "log_env \<Rightarrow> readings \<Rightarrow> bytes \<Rightarrow> size_backend \<times> log_disk \<Rightarrow> size_backend \<times> log_disk" where
  "write_line env now msg = (\<lambda>(b, d).
     let b = b \<lparr> characters_written := characters_written b + length msg + 1 \<rparr>;
         d = append_log (file_path b) (line msg) d
     in if characters_written b \<ge> rotation_size b then rotate_file env now 4 (b, d) else (b, d))"

definition consume :: "log_env \<Rightarrow> readings \<Rightarrow> bytes \<Rightarrow> size_backend \<times> log_disk \<Rightarrow> size_backend \<times> log_disk" where
  "consume env now msg = (\<lambda>(b, d).
     let active = generate_active_filepath (file_name_suffix b);
         (b, d) = (if current_date b \<noteq> local_day (now 0)
                   then rotate_file env now 1 (b \<lparr> file_path := active \<rparr>, d) else (b, d))
     in if file_open b then write_line env now msg (b, d)
        else if \<not> can_open env active then (b \<lparr> file_path := active \<rparr>, d)
        else let d = append_log active [] d
             in write_line env now msg
                  (b \<lparr> file_path := active, file_open := True,
                     characters_written := length (log_content d active) \<rparr>, d))"

subsection \<open>Files\<close>

lemma map_of_append_log [simp]:
  "map_of (append_log p b d) q = (if q = p then Some (log_content d p @ b) else map_of d q)"
  by (induction p b d rule: append_log.induct) (auto simp: log_content_def)

lemma log_content_append [simp]:
  "log_content (append_log p b d) q = (if q = p then log_content d p @ b else log_content d q)"
  by (simp add: log_content_def)

lemma map_of_filter_keys: "map_of (filter (\<lambda>f. P (fst f)) d) x = (if P x then map_of d x else None)"
  by (induction d) auto

lemma rename_log_Some:
  assumes "map_of d p = Some b"
  shows "\<exists>d'. rename_log p q d = Some d' \<and>
    (\<forall>x. map_of d' x = (if x = q then Some b else if x = p then None else map_of d x)) \<and>
    (\<forall>x. log_content d' x = (if x = q then b else if x = p then [] else log_content d x))"
proof (intro exI conjI)
  let ?d = "(q, b) # filter (\<lambda>f. fst f \<noteq> p \<and> fst f \<noteq> q) d"
  show "rename_log p q d = Some ?d" using assms by (simp add: rename_log_def)
  show m: "\<forall>x. map_of ?d x = (if x = q then Some b else if x = p then None else map_of d x)"
    using map_of_filter_keys [of "\<lambda>k. k \<noteq> p \<and> k \<noteq> q" d] by simp
  show "\<forall>x. log_content ?d x = (if x = q then b else if x = p then [] else log_content d x)"
    by (simp add: log_content_def m del: map_of.simps)
qed

text \<open>What Boost is relied on for, with files of one suffix: a directory is iterated once, the formats
  of days and months print a date, without brackets, and the pattern that is made of a date and the
  suffix matches the names of backups that are made of the same. The suffix stands in the pattern as
  it is, so that the last clause holds of a suffix without special characters, like
  \<open>rtmp-module\<close>, but not of every suffix.\<close>

definition log_env_ok :: "log_env \<Rightarrow> bytes \<Rightarrow> bool" where
  "log_env_ok env suf \<longleftrightarrow> (\<forall>names. set (directory_order env names) = set names) \<and>
     (\<forall>t t'. local_day t = local_day t' \<longrightarrow> print_time env day_format t = print_time env day_format t' \<and>
        print_time env month_format t = print_time env month_format t') \<and>
     (\<forall>t. 0x5B \<notin> set (print_time env day_format t) \<and> 0x5D \<notin> set (print_time env day_format t)) \<and>
     (\<forall>t k. regex_match env (name_pattern (print_time env day_format t) suf)
        (indexed_name (print_time env day_format t) k suf))"

lemma log_env_names:
  assumes "log_env_ok env suf"
  shows "local_day t = local_day t' \<Longrightarrow> print_time env day_format t = print_time env day_format t'"
    and "local_day t = local_day t' \<Longrightarrow> print_time env month_format t = print_time env month_format t'"
    and "0x5B \<notin> set (print_time env day_format t)" and "0x5D \<notin> set (print_time env day_format t)"
    and "regex_match env (name_pattern (print_time env day_format t) suf)
      (indexed_name (print_time env day_format t) k suf)"
  using assms unfolding log_env_ok_def by blast+

lemma directory_iff:
  assumes "log_env_ok env suf"
  shows "name \<in> set (directory env dir d) \<longleftrightarrow> map_of d [dir, name] \<noteq> None"
proof -
  have "set (directory_order env names) = set names" for names
    using assms by (simp add: log_env_ok_def)
  then show ?thesis
    by (auto simp: directory_def map_of_eq_None_iff image_iff split: list.splits if_splits) force+
qed

subsection \<open>Indices\<close>

lemma find_char_append: "c \<notin> set pre \<Longrightarrow> find_char c (pre @ c # rest) = Some (length pre)"
  by (induction pre) auto

lemma digit_not_special:
  "is_digit c \<Longrightarrow> c \<noteq> 0x5B \<and> c \<noteq> 0x5D \<and> c \<noteq> 0x2D \<and> c \<noteq> 0x2B \<and> \<not> is_space c"
  by (auto simp: is_digit_def is_space_def word_le_nat_alt)

lemma bracket_not_digit: "\<not> is_digit 0x5D"
  by (simp add: is_digit_def word_le_nat_alt)

lemma atoi_decimal: "\<not> is_digit c \<Longrightarrow> atoi (decimal k @ c # rest) = int k"
proof -
  assume c: "\<not> is_digit c"
  obtain x xs where dec: "decimal k = x # xs" by (cases "decimal k") auto
  then have "is_digit x" using decimal_digits [of k] by simp
  moreover have "takeWhile is_digit (decimal k @ c # rest) = decimal k"
    using decimal_digits [of k] c by (simp add: takeWhile_append2)
  ultimately show ?thesis
    using digits_value_decimal [of k] digit_not_special [of x] by (simp add: atoi_def dec)
qed

lemma parse_index_name:
  assumes "0x5B \<notin> set pre" and "0x5D \<notin> set pre" and "k < 2 ^ 31"
  shows "parse_index (indexed_name pre k suf) = k"
proof -
  have e: "indexed_name pre k suf = (pre @ 0x5B # decimal k) @ 0x5D # 0x5F # suf @ log_extension"
    by (simp add: indexed_name_def)
  have open_at: "find_char 0x5B (indexed_name pre k suf) = Some (length pre)"
    using find_char_append [OF assms(1)] by (simp add: e)
  have close_at: "find_char 0x5D (indexed_name pre k suf) = Some (length (pre @ 0x5B # decimal k))"
    unfolding e by (rule find_char_append) (use assms(2) decimal_digits [of k] digit_not_special in auto)
  have "take (length (decimal k) + 1) (drop (length pre + 1) (indexed_name pre k suf)) = decimal k @ [0x5D]"
    by (simp add: e)
  moreover have "atoi (decimal k @ [0x5D]) = int k" by (rule atoi_decimal [OF bracket_not_digit])
  ultimately show ?thesis
    using assms(3) unfolding parse_index_def open_at close_at
    by (simp add: unat_of_nat)
qed

text \<open>The scan ends at a file of the greatest index.\<close>

lemma scan_result:
  assumes "fold (scan_step dir) names (0, []) = (i, fs)"
  shows "if names = [] then i = 0 \<and> fs = []
    else (\<exists>name\<in>set names. fs = [dir, name] \<and> i = parse_index name) \<and> (\<forall>name\<in>set names. parse_index name \<le> i)"
  using assms
proof (induction names arbitrary: i fs rule: rev_induct)
  case (snoc name names)
  obtain j gs where before: "fold (scan_step dir) names (0, []) = (j, gs)"
    by (cases "fold (scan_step dir) names (0, [])")
  then have "scan_step dir name (j, gs) = (i, fs)" using snoc.prems by simp
  then show ?case
    using snoc.IH [OF before] by (auto simp: scan_step_def split: if_splits intro: order_trans)
qed simp

text \<open>A backup of a day and the log that its first backups and the active file hold.\<close>

definition backup_path :: "log_env \<Rightarrow> ptime \<Rightarrow> bytes \<Rightarrow> nat \<Rightarrow> log_path" where
  "backup_path env t suf k =
     [print_time env month_format t, indexed_name (print_time env day_format t) k suf]"

definition logged :: "log_env \<Rightarrow> ptime \<Rightarrow> bytes \<Rightarrow> nat \<Rightarrow> log_disk \<Rightarrow> bytes" where
  "logged env t suf n d = concat (map (\<lambda>k. log_content d (backup_path env t suf k)) [0..<n]) @
     log_content d (generate_active_filepath suf)"

text \<open>The files of the day that the pattern matches.\<close>

definition backups_of :: "log_env \<Rightarrow> ptime \<Rightarrow> bytes \<Rightarrow> log_disk \<Rightarrow> log_path set" where
  "backups_of env t suf d = {[print_time env month_format t, name] |name.
     map_of d [print_time env month_format t, name] \<noteq> None \<and>
     regex_match env (name_pattern (print_time env day_format t) suf) name}"

lemma indexed_name_inject:
  "indexed_name (print_time env day_format t) j suf = indexed_name (print_time env day_format t) k suf \<longleftrightarrow> j = k"
proof
  assume e: "indexed_name (print_time env day_format t) j suf = indexed_name (print_time env day_format t) k suf"
  then have "atoi (decimal j @ 0x5D # 0x5F # suf @ log_extension) = atoi (decimal k @ 0x5D # 0x5F # suf @ log_extension)"
    by (simp add: indexed_name_def)
  then show "j = k" using atoi_decimal [OF bracket_not_digit] by simp
qed simp

lemma backup_path_simps [simp]:
  "backup_path env t suf j = backup_path env t suf k \<longleftrightarrow> j = k"
  "backup_path env t suf k \<noteq> generate_active_filepath suf'"
  "generate_active_filepath suf' \<noteq> backup_path env t suf k"
  by (simp_all add: backup_path_def generate_active_filepath_def indexed_name_inject)

text \<open>The next index, where the backups of the day are numbered from 0: it depends on the last one only.\<close>

lemma next_index:
  assumes env: "log_env_ok env suf"
    and files: "backups_of env t suf d = backup_path env t suf ` {..<n}"
    and n: "n \<le> 2 ^ 31"
  shows "scan_next_index env limit (print_time env month_format t)
    (name_pattern (print_time env day_format t) suf) d =
    (case n of 0 \<Rightarrow> 0 | Suc m \<Rightarrow> if limit \<le> length (log_content d (backup_path env t suf m)) then n else m)"
proof -
  let ?m = "print_time env month_format t" and ?d = "print_time env day_format t"
  define names where "names = filter (regex_match env (name_pattern ?d suf)) (directory env ?m d)"
  obtain i fs where scan: "fold (scan_step ?m) names (0, []) = (i, fs)"
    by (cases "fold (scan_step ?m) names (0, [])")
  have "(\<lambda>name. [?m, name]) ` set names = backups_of env t suf d"
    using directory_iff [OF env] by (auto simp: backups_of_def names_def)
  then have "(\<lambda>name. [?m, name]) ` set names = (\<lambda>name. [?m, name]) ` (\<lambda>k. indexed_name ?d k suf) ` {..<n}"
    by (simp add: files backup_path_def image_image)
  then have set_names: "set names = (\<lambda>k. indexed_name ?d k suf) ` {..<n}"
    by (subst (asm) inj_image_eq_iff) (auto simp: inj_def)
  have index: "parse_index (indexed_name ?d k suf) = k" if "k < n" for k
    using that n log_env_names(3,4) [OF env] by (intro parse_index_name) auto
  show ?thesis
  proof (cases n)
    case 0
    then show ?thesis using scan_result [OF scan] set_names scan
      by (simp add: scan_next_index_def file_size_def names_def)
  next
    case (Suc m)
    then obtain k where k: "k < n" "fs = backup_path env t suf k" "i = k" "\<forall>j<n. j \<le> i"
      using scan_result [OF scan] set_names index by (auto simp: backup_path_def split: if_splits)
    then have last: "i = m" using Suc by (metis less_Suc_eq_le le_antisym lessI)
    have "backup_path env t suf k \<in> backups_of env t suf d" using k(1) files by blast
    then obtain b where "map_of d (backup_path env t suf k) = Some b" by (auto simp: backups_of_def)
    then have "file_size fs d = Some (length (log_content d (backup_path env t suf m)))"
      using k(2,3) last by (simp add: file_size_def log_content_def backup_path_def)
    then show ?thesis using scan last Suc by (simp add: scan_next_index_def names_def)
  qed
qed

lemma generate_filepath_in_day:
  assumes "log_env_ok env (file_name_suffix b)" and "\<forall>j. local_day (now j) = local_day t"
  shows "generate_filepath env now i b d = backup_path env t (file_name_suffix b)
    (scan_next_index env (rotation_size b) (print_time env month_format t)
      (name_pattern (print_time env day_format t) (file_name_suffix b)) d)"
proof -
  have "print_time env day_format (now j) = print_time env day_format t"
    "print_time env month_format (now j) = print_time env month_format t" for j
    using assms log_env_names(1,2) by blast+
  then show ?thesis
    by (simp add: generate_filepath_def datetime_string_with_format_def hours_def backup_path_def Let_def)
qed

subsection \<open>Sinks\<close>

text \<open>
  What a backend promises: while an entry is admissible, the text that its files hold is followed by
  the line of the entry. The number bounds how many entries there may still be.
\<close>

locale log_sink =
  fixes step :: "'e \<Rightarrow> 's \<Rightarrow> 's"
    and text_of :: "'e \<Rightarrow> bytes"
    and admissible :: "'s \<Rightarrow> 'e \<Rightarrow> bool"
    and holds :: "nat \<Rightarrow> bytes \<Rightarrow> 's \<Rightarrow> bool"
  assumes step_holds: "holds (Suc k) log s \<Longrightarrow> admissible s e \<Longrightarrow> holds k (log @ text_of e) (step e s)"
begin

fun admissible_all :: "'s \<Rightarrow> 'e list \<Rightarrow> bool" where
  "admissible_all s [] \<longleftrightarrow> True"
| "admissible_all s (e # es) \<longleftrightarrow> admissible s e \<and> admissible_all (step e s) es"

lemma all_held:
  "holds (length es + k) log s \<Longrightarrow> admissible_all s es \<Longrightarrow>
    holds k (log @ concat (map text_of es)) (fold step es s)"
proof (induction es arbitrary: s log)
  case (Cons e es)
  then show ?case using step_holds [of "length es + k" log s e] by (simp flip: append_assoc)
qed simp

end

subsection \<open>Backups by size, within a day\<close>

definition full_backups :: "log_env \<Rightarrow> ptime \<Rightarrow> bytes \<Rightarrow> nat \<Rightarrow> nat \<Rightarrow> log_disk \<Rightarrow> bool" where
  "full_backups env t suf limit n d \<longleftrightarrow> backups_of env t suf d = backup_path env t suf ` {..<n} \<and>
     (\<forall>k<n. limit \<le> length (log_content d (backup_path env t suf k)))"

definition size_holds :: "log_env \<Rightarrow> ptime \<Rightarrow> nat \<Rightarrow> bytes \<Rightarrow> size_backend \<times> log_disk \<Rightarrow> bool" where
  "size_holds env t n log s \<longleftrightarrow> (case s of (b, d) \<Rightarrow> current_date b = local_day t \<and>
     full_backups env t (file_name_suffix b) (rotation_size b) n d \<and>
     logged env t (file_name_suffix b) n d = log \<and>
     (file_open b \<longrightarrow> file_path b = generate_active_filepath (file_name_suffix b) \<and>
        characters_written b = length (log_content d (file_path b))))"

lemma backups_of_rename:
  assumes "log_env_ok env suf" and "\<And>x. map_of d' x =
      (if x = backup_path env t suf n then Some a else if x = generate_active_filepath suf then None else map_of d x)"
  shows "backups_of env t suf d' = insert (backup_path env t suf n) (backups_of env t suf d)"
  using log_env_names(5) [OF assms(1)] unfolding backups_of_def assms(2)
  by (auto simp: backup_path_def generate_active_filepath_def)

lemma full_backups_next:
  assumes "log_env_ok env suf" and "full_backups env t suf limit n d" and "n \<le> 2 ^ 31"
  shows "scan_next_index env limit (print_time env month_format t)
    (name_pattern (print_time env day_format t) suf) d = n"
  using next_index [OF assms(1), of t d n limit] assms(2,3)
  by (auto simp: full_backups_def split: nat.splits)

lemma logged_renamed:
  assumes "\<And>k. k < n \<Longrightarrow> log_content d' (backup_path env t suf k) = log_content d (backup_path env t suf k)"
    and "log_content d' (backup_path env t suf n) = log_content d (generate_active_filepath suf)"
    and "log_content d' (generate_active_filepath suf) = []"
  shows "logged env t suf (Suc n) d' = logged env t suf n d"
proof -
  have "concat (map (\<lambda>k. log_content d' (backup_path env t suf k)) [0..<n]) =
      concat (map (\<lambda>k. log_content d (backup_path env t suf k)) [0..<n])"
    using assms(1) by (intro arg_cong [where f = concat] map_cong refl) simp
  then show ?thesis using assms(2,3) by (simp add: logged_def)
qed

lemma rotated_full:
  assumes env: "log_env_ok env (file_name_suffix b)" and day: "\<forall>j. local_day (now j) = local_day t"
    and full: "full_backups env t (file_name_suffix b) (rotation_size b) n d" and n: "n \<le> 2 ^ 31"
    and path: "file_path b = generate_active_filepath (file_name_suffix b)"
    and a: "map_of d (file_path b) = Some a" and size: "rotation_size b \<le> length a"
  shows "size_holds env t (Suc n) (logged env t (file_name_suffix b) n d) (rotate_file env now i (b, d))"
proof -
  let ?suf = "file_name_suffix b" and ?new = "backup_path env t (file_name_suffix b) n"
  have target: "generate_filepath env now i b d = ?new"
    using generate_filepath_in_day [OF env day] full_backups_next [OF env full n] by simp
  obtain d' where d': "rename_log (file_path b) ?new d = Some d'"
    and m: "\<And>x. map_of d' x = (if x = ?new then Some a else if x = file_path b then None else map_of d x)"
    and c: "\<And>x. log_content d' x = (if x = ?new then a else if x = file_path b then [] else log_content d x)"
    using rename_log_Some [OF a, of ?new] by blast
  have old: "log_content d (file_path b) = a" by (simp add: log_content_def a)
  have "backups_of env t ?suf d' = insert ?new (backups_of env t ?suf d)"
    by (rule backups_of_rename [OF env, where a = a]) (simp add: m path)
  moreover have "rotation_size b \<le> length (log_content d' (backup_path env t ?suf k))" if "k < Suc n" for k
    using that full size env by (auto simp: full_backups_def c path less_Suc_eq)
  ultimately have "full_backups env t ?suf (rotation_size b) (Suc n) d'"
    using full by (auto simp: full_backups_def lessThan_Suc)
  moreover have "logged env t ?suf (Suc n) d' = logged env t ?suf n d"
  proof (rule logged_renamed)
    show "log_content d' (backup_path env t ?suf k) = log_content d (backup_path env t ?suf k)" if "k < n" for k
      using env that by (simp add: c path)
  qed (use old in \<open>simp_all add: c path\<close>)
  ultimately show ?thesis
    using day by (simp add: size_holds_def rotate_file_def rollover_without_max_def target d')
qed

lemma full_backups_cong:
  assumes "\<And>dir name. map_of d' [dir, name] = map_of d [dir, name]"
  shows "full_backups env t suf limit n d' = full_backups env t suf limit n d"
    and "log_content d' (backup_path env t suf k) = log_content d (backup_path env t suf k)"
  by (simp_all add: full_backups_def backups_of_def log_content_def backup_path_def assms)

lemma size_holds_cases:
  assumes "size_holds env t n log (b, d)"
  shows "current_date b = local_day t" and "full_backups env t (file_name_suffix b) (rotation_size b) n d"
    and "logged env t (file_name_suffix b) n d = log"
    and "file_open b \<Longrightarrow> file_path b = generate_active_filepath (file_name_suffix b)"
    and "file_open b \<Longrightarrow> characters_written b = length (log_content d (file_path b))"
  using assms by (simp_all add: size_holds_def)

lemma append_active:
  assumes "p = generate_active_filepath suf"
  shows "full_backups env t suf limit n (append_log p a d) = full_backups env t suf limit n d"
    and "logged env t suf n (append_log p a d) = logged env t suf n d @ a"
proof -
  have same: "map_of (append_log p a d) [dir, name] = map_of d [dir, name]" for dir name
    by (simp add: assms generate_active_filepath_def)
  show "full_backups env t suf limit n (append_log p a d) = full_backups env t suf limit n d"
    by (rule full_backups_cong) (rule same)
  show "logged env t suf n (append_log p a d) = logged env t suf n d @ a"
    by (simp add: logged_def assms)
qed

lemma write_line_holds:
  assumes env: "log_env_ok env (file_name_suffix b)" and day: "\<forall>j. local_day (now j) = local_day t"
    and s: "size_holds env t n log (b, d)" and "file_open b" and n: "n < 2 ^ 31"
  shows "\<exists>n'\<le>Suc n. size_holds env t n' (log @ line msg) (write_line env now msg (b, d))"
proof -
  let ?suf = "file_name_suffix b" and ?d = "append_log (file_path b) (line msg) d"
  define b' where "b' = b \<lparr> characters_written := characters_written b + length msg + 1 \<rparr>"
  note h = size_holds_cases [OF s]
  have path: "file_path b = generate_active_filepath ?suf" using h(4) assms(4) .
  note here = append_active [OF refl]
  have chars: "characters_written b' = length (log_content ?d (file_path b))"
    using h(5) assms(4) by (simp add: b'_def)
  show ?thesis
  proof (cases "rotation_size b \<le> characters_written b'")
    case True
    have "size_holds env t (Suc n) (logged env t (file_name_suffix b') n ?d) (rotate_file env now 4 (b', ?d))"
      by (rule rotated_full [OF _ day, where a = "log_content d (file_path b) @ line msg"])
        (use env h(2) n path True chars in \<open>simp_all add: b'_def here\<close>)
    then have "size_holds env t (Suc n) (log @ line msg) (write_line env now msg (b, d))"
      using True h(3) by (simp add: write_line_def b'_def Let_def append_active [OF path])
    then show ?thesis by blast
  next
    case False
    then have "size_holds env t n (log @ line msg) (write_line env now msg (b, d))"
      using h(1-3) path chars by (simp add: write_line_def size_holds_def b'_def Let_def here)
    then show ?thesis by (intro exI [of _ n]) simp
  qed
qed

lemma consume_holds:
  assumes env: "log_env_ok env (file_name_suffix b)" and day: "\<forall>j. local_day (now j) = local_day t"
    and s: "size_holds env t n log (b, d)" and n: "n < 2 ^ 31"
    and opens: "can_open env (generate_active_filepath (file_name_suffix b))"
  shows "\<exists>n'\<le>Suc n. size_holds env t n' (log @ line msg) (consume env now msg (b, d))"
proof (cases "file_open b")
  case True
  then show ?thesis
    using write_line_holds [OF env day s _ n] size_holds_cases(1) [OF s] day by (simp add: consume_def Let_def)
next
  case False
  let ?active = "generate_active_filepath (file_name_suffix b)"
  let ?d = "append_log ?active [] d"
  let ?b = "b \<lparr> file_path := ?active, file_open := True, characters_written := length (log_content d ?active) \<rparr>"
  have "size_holds env t n log (?b, ?d)"
    using s by (simp add: size_holds_def append_active)
  then show ?thesis
    using write_line_holds [OF _ day, of env ?b n log ?d] env n False size_holds_cases(1) [OF s] day opens
    by (simp add: consume_def Let_def)
qed

lemma consume_members [simp]:
  "file_name_suffix (fst (consume env now msg s)) = file_name_suffix (fst s)"
  "rotation_size (fst (consume env now msg s)) = rotation_size (fst s)"
  by (simp_all add: consume_def write_line_def rotate_file_def Let_def split: prod.splits if_splits)

abbreviation consume_all :: "log_env \<Rightarrow> (readings \<times> bytes) list \<Rightarrow> size_backend \<times> log_disk \<Rightarrow> size_backend \<times> log_disk" where
  "consume_all env \<equiv> fold (\<lambda>(now, msg). consume env now msg)"

abbreviation record_lines :: "(readings \<times> bytes) list \<Rightarrow> bytes" where
  "record_lines records \<equiv> concat (map (\<lambda>(now, msg). line msg) records)"

lemma consume_all_members [simp]:
  "file_name_suffix (fst (consume_all env records s)) = file_name_suffix (fst s)"
  "rotation_size (fst (consume_all env records s)) = rotation_size (fst s)"
  by (induction records arbitrary: s) (auto split: prod.splits)

text \<open>The backend is a sink of records with the readings of the clock.\<close>

definition size_sink :: "log_env \<Rightarrow> ptime \<Rightarrow> nat \<Rightarrow> nat \<Rightarrow> bytes \<Rightarrow> size_backend \<times> log_disk \<Rightarrow> bool" where
  "size_sink env t most k log s \<longleftrightarrow> log_env_ok env (file_name_suffix (fst s)) \<and> most \<le> 2 ^ 31 \<and>
     can_open env (generate_active_filepath (file_name_suffix (fst s))) \<and>
     (\<exists>n. n + k \<le> most \<and> size_holds env t n log s)"

interpretation by_size: log_sink "\<lambda>(now, msg). consume env now msg" "\<lambda>(now, msg). line msg"
  "\<lambda>s (now, msg). \<forall>j. local_day (now j) = local_day t" "size_sink env t most" for env t most
proof
  fix k log s and e :: "readings \<times> bytes"
  assume holds: "size_sink env t most (Suc k) log s"
    and e: "case e of (now, msg) \<Rightarrow> \<forall>j. local_day (now j) = local_day t"
  obtain now msg where e': "e = (now, msg)" by (cases e)
  obtain n where n: "n + Suc k \<le> most" and held: "size_holds env t n log (fst s, snd s)"
    using holds by (auto simp: size_sink_def)
  obtain n' where "n' \<le> Suc n" "size_holds env t n' (log @ line msg) (consume env now msg s)"
    using consume_holds [of env "fst s" now t n log "snd s" msg] holds e held n
    by (auto simp: size_sink_def e')
  with n holds show "size_sink env t most k (log @ (case e of (now, msg) \<Rightarrow> line msg))
      ((case e of (now, msg) \<Rightarrow> consume env now msg) s)"
    by (auto simp: size_sink_def e' intro!: exI [of _ n'])
qed

lemma lines_held:
  assumes "log_env_ok env suf" and "can_open env (generate_active_filepath suf)"
    and "full_backups env t suf limit n d" and "n + length records \<le> 2 ^ 31"
    and "\<forall>(now, msg)\<in>set records. \<forall>j. local_day (now j) = local_day t"
  shows "\<exists>n'\<le>n + length records. case consume_all env records (new_size_backend suf limit t, d) of (b', d') \<Rightarrow>
    full_backups env t suf limit n' d' \<and> logged env t suf n' d' = logged env t suf n d @ record_lines records"
proof -
  let ?s = "(new_size_backend suf limit t, d)" and ?most = "n + length records"
  have "size_sink env t ?most (length records + 0) (logged env t suf n d) ?s"
    using assms(1-4) by (auto simp: size_sink_def size_holds_def new_size_backend_def)
  moreover have "by_size.admissible_all env t s records" for s
    using assms(5) by (induction records arbitrary: s) auto
  ultimately have "size_sink env t ?most 0 (logged env t suf n d @ record_lines records) (consume_all env records ?s)"
    by (rule by_size.all_held)
  moreover obtain b' d' where final: "consume_all env records ?s = (b', d')"
    by (cases "consume_all env records ?s")
  ultimately obtain n' where "n' \<le> ?most" "size_holds env t n' (logged env t suf n d @ record_lines records) (b', d')"
    by (auto simp: size_sink_def)
  moreover have "file_name_suffix b' = suf" "rotation_size b' = limit"
    using consume_all_members [of env records ?s, unfolded final] by (simp_all add: new_size_backend_def)
  ultimately show ?thesis by (auto simp: final size_holds_def)
qed

text \<open>From a disk whose backups of the day are numbered and full, the size-based backend keeps every
line: the backups of the day in the order of their numbers, followed by the active file, are what
was there and the lines of the records in order, each backup having the rotation size, as long as
the day does not change and the active file can be opened.\<close>

theorem lines_kept_in_day:
  assumes "log_env_ok env suf" and "can_open env (generate_active_filepath suf)"
    and "full_backups env t suf limit n d" and "n + length records \<le> 2 ^ 31"
    and "\<forall>(now, msg)\<in>set records. \<forall>j. local_day (now j) = local_day t"
  shows "\<exists>n'\<le>n + length records. case consume_all env records (new_size_backend suf limit t, d) of (b', d') \<Rightarrow>
    full_backups env t suf limit n' d' \<and> logged env t suf n' d' = logged env t suf n d @ record_lines records"
  using lines_held [OF assms] .

text \<open>A disk in memory with short names of days. The matcher knows of the syntax of patterns what
  occurs in those of the backends: the optional index, the dot, and characters that stand for
  themselves.\<close>

fun plain_match :: "bytes \<Rightarrow> bytes \<Rightarrow> bool" where
  "plain_match [] s \<longleftrightarrow> s = []"
| "plain_match (c # p) s \<longleftrightarrow> (case s of [] \<Rightarrow> False | x # xs \<Rightarrow> (c = 0x2E \<or> c = x) \<and> plain_match p xs)"

definition index_group :: bytes where
  "index_group = ascii ''('' @ [0x5C] @ ascii ''[[0-9]+'' @ [0x5C] @ ascii ''])?''"

definition index_match :: "bytes \<Rightarrow> bytes \<Rightarrow> bool" where
  "index_match p s \<longleftrightarrow> plain_match p s \<or> (case s of [] \<Rightarrow> False | c # rest \<Rightarrow> c = 0x5B \<and>
     takeWhile is_digit rest \<noteq> [] \<and> (case dropWhile is_digit rest of [] \<Rightarrow> False
       | c # rest \<Rightarrow> c = 0x5D \<and> plain_match p rest))"

fun name_match :: "bytes \<Rightarrow> bytes \<Rightarrow> bool" where
  "name_match [] s \<longleftrightarrow> s = []"
| "name_match (c # p) s \<longleftrightarrow>
     (if take (length index_group) (c # p) = index_group
      then index_match (drop (length index_group) (c # p)) s
      else case s of [] \<Rightarrow> False | x # xs \<Rightarrow> (c = 0x2E \<or> c = x) \<and> name_match p xs)"

lemma plain_match_same: "plain_match p p"
  by (induction p) simp_all

lemma name_match_index:
  assumes "0x28 \<notin> set pre"
  shows "name_match (name_pattern pre suf) (indexed_name pre k suf)"
  using assms
proof (induction pre)
  case Nil
  let ?rest = "[0x5F] @ suf @ log_extension"
  have "name_pattern [] suf = index_group @ ?rest"
    by (simp add: name_pattern_def index_group_def ascii_def)
  then have "name_match (name_pattern [] suf) s = index_match ?rest s" for s
    by (cases "index_group @ ?rest") (simp_all add: index_group_def ascii_def)
  moreover have "takeWhile is_digit (decimal k @ 0x5D # ?rest) = decimal k"
    "dropWhile is_digit (decimal k @ 0x5D # ?rest) = 0x5D # ?rest"
    using decimal_digits [of k] bracket_not_digit by (simp_all add: takeWhile_append2 dropWhile_append2)
  ultimately show ?case
    by (simp add: indexed_name_def index_match_def plain_match_same del: plain_match.simps)
next
  case (Cons c pre)
  then have "take (length index_group) (c # name_pattern pre suf) \<noteq> index_group"
    by (auto simp: index_group_def ascii_def)
  then show ?case using Cons by (simp add: name_pattern_def indexed_name_def)
qed

definition sample_log_env :: log_env where
  "sample_log_env = \<lparr> print_time = \<lambda>format t. decimal (nat (local_day t)), regex_match = name_match,
     directory_order = rev, can_open = \<lambda>p. True \<rparr>"

lemma sample_log_env_ok: "log_env_ok sample_log_env suf"
proof -
  have "c \<notin> set (decimal n)" if "\<not> is_digit c" for c n using decimal_digits [of n] that by blast
  then have "0x28 \<notin> set (decimal n)" "0x5B \<notin> set (decimal n)" "0x5D \<notin> set (decimal n)" for n
    by (simp_all add: is_digit_def word_le_nat_alt)
  then show ?thesis by (simp add: log_env_ok_def sample_log_env_def name_match_index)
qed

theorem lines_kept_in_day_witness:
  "\<exists>n'\<le>Suc (Suc 0). case consume_all sample_log_env [(\<lambda>j. 0, ascii ''ab''), (\<lambda>j. 1, ascii ''cd'')]
      (new_size_backend (ascii ''rtmp'') 3 0, []) of (b', d') \<Rightarrow>
    full_backups sample_log_env 0 (ascii ''rtmp'') 3 n' d' \<and>
    logged sample_log_env 0 (ascii ''rtmp'') n' d' = line (ascii ''ab'') @ line (ascii ''cd'')"
proof -
  have "can_open sample_log_env (generate_active_filepath (ascii ''rtmp''))" by (simp add: sample_log_env_def)
  moreover have "full_backups sample_log_env 0 (ascii ''rtmp'') 3 0 []"
    by (simp add: full_backups_def backups_of_def)
  moreover have "logged sample_log_env 0 (ascii ''rtmp'') 0 [] = []" by (simp add: logged_def log_content_def)
  ultimately show ?thesis
    using lines_kept_in_day [OF sample_log_env_ok [of "ascii ''rtmp''"], of 0 3 0 "[]"
      "[(\<lambda>j. 0, ascii ''ab''), (\<lambda>j. 1, ascii ''cd'')]"] by (simp add: local_day_def)
qed

subsection \<open>A change of the day\<close>

definition steady :: "log_env \<Rightarrow> ptime \<Rightarrow> size_backend \<times> log_disk \<Rightarrow> bool" where
  "steady env t s \<longleftrightarrow> (case s of (b, d) \<Rightarrow> current_date b = local_day t \<and>
     (file_open b \<longrightarrow> file_path b = generate_active_filepath (file_name_suffix b) \<and>
        characters_written b = length (log_content d (file_path b))))"

lemma append_log_twice [simp]: "append_log p b (append_log p c d) = append_log p (c @ b) d"
  by (induction p c d rule: append_log.induct) auto

lemma consume_steady:
  fixes b :: size_backend
  defines "active \<equiv> generate_active_filepath (file_name_suffix b)"
  assumes "steady env t (b, d)" and "local_day (now 0) = local_day t" and "can_open env active"
  shows "consume env now msg (b, d) =
    (let b' = b \<lparr> file_path := active, file_open := True,
         characters_written := length (log_content d active) + length msg + 1 \<rparr>;
         d' = append_log active (line msg) d
     in if rotation_size b \<le> characters_written b' then rotate_file env now 4 (b', d') else (b', d'))"
proof (cases "file_open b")
  case True
  then have same: "b \<lparr> file_path := active, file_open := True, characters_written := n \<rparr> =
      b \<lparr> characters_written := n \<rparr>" for n
    using assms(2) by (cases b) (simp add: steady_def active_def)
  show ?thesis
    using assms True unfolding same Let_def
    by (simp add: consume_def write_line_def steady_def Let_def)
next
  case False
  then show ?thesis
    using assms by (simp add: consume_def write_line_def steady_def Let_def)
qed

lemma small_lines:
  assumes "steady env t (b, d)" and "\<forall>(now, msg)\<in>set records. \<forall>j. local_day (now j) = local_day t"
    and "can_open env (generate_active_filepath (file_name_suffix b))"
    and "length (log_content d (generate_active_filepath (file_name_suffix b))) + length (record_lines records) < rotation_size b"
  shows "\<exists>b' d'. consume_all env records (b, d) = (b', d') \<and> steady env t (b', d') \<and>
    (\<forall>p. p \<noteq> generate_active_filepath (file_name_suffix b) \<longrightarrow> map_of d' p = map_of d p) \<and>
    log_content d' (generate_active_filepath (file_name_suffix b)) =
      log_content d (generate_active_filepath (file_name_suffix b)) @ record_lines records"
  using assms
proof (induction records arbitrary: b d)
  case (Cons e records)
  obtain now msg where e: "e = (now, msg)" by (cases e)
  let ?active = "generate_active_filepath (file_name_suffix b)"
  let ?b = "b \<lparr> file_path := ?active, file_open := True,
    characters_written := length (log_content d ?active) + length msg + 1 \<rparr>"
  let ?d = "append_log ?active (line msg) d"
  have step: "consume env now msg (b, d) = (?b, ?d)"
    using Cons.prems by (subst consume_steady [of env t]) (simp_all add: e Let_def)
  have steady: "steady env t (?b, ?d)" using Cons.prems(1) by (simp add: steady_def)
  show ?case using Cons.IH [OF steady] Cons.prems step by (fastforce simp: e)
qed simp

text \<open>The rotation replaces the first backup of the day when this is not full.\<close>

lemma rotate_replaces:
  assumes env: "log_env_ok env (file_name_suffix b)" and day: "\<forall>j. local_day (now j) = local_day t"
    and path: "file_path b = generate_active_filepath (file_name_suffix b)" "map_of d (file_path b) = Some a"
    and backups: "backups_of env t (file_name_suffix b) d = backup_path env t (file_name_suffix b) ` {..<n}"
    and small: "n = 0 \<or> n = 1 \<and> length (log_content d (backup_path env t (file_name_suffix b) 0)) < rotation_size b"
  shows "\<exists>d'. rotate_file env now i (b, d) =
      (b \<lparr> file_open := False, characters_written := 0, current_date := local_day t \<rparr>, d') \<and>
    backups_of env t (file_name_suffix b) d' = {backup_path env t (file_name_suffix b) 0} \<and>
    (\<forall>p. map_of d' p = (if p = backup_path env t (file_name_suffix b) 0 then Some a
      else if p = generate_active_filepath (file_name_suffix b) then None else map_of d p))"
proof -
  let ?first = "backup_path env t (file_name_suffix b) 0"
  have target: "generate_filepath env now i b d = ?first"
    using next_index [OF env backups, of "rotation_size b"] small
    by (auto simp: generate_filepath_in_day [OF env day])
  obtain d' where d': "rename_log (file_path b) ?first d = Some d'"
    and m: "\<And>x. map_of d' x = (if x = ?first then Some a else if x = file_path b then None else map_of d x)"
    using rename_log_Some [OF path(2), of ?first] by blast
  have "backups_of env t (file_name_suffix b) d' = insert ?first (backups_of env t (file_name_suffix b) d)"
    by (rule backups_of_rename [OF env, where a = a]) (simp add: m path)
  then have "backups_of env t (file_name_suffix b) d' = {?first}" using small backups by auto
  then show ?thesis
    using day d' m path(1) by (simp add: rotate_file_def rollover_without_max_def target)
qed

text \<open>The first record of a day is written as by the backend after its rotation.\<close>

lemma consume_new_day:
  assumes "current_date b \<noteq> local_day t" and "\<forall>j. local_day (now j) = local_day t"
  shows "consume env now msg (b, d) = consume env now msg (rotate_file env now 1
    (b \<lparr> file_path := generate_active_filepath (file_name_suffix b) \<rparr>, d))"
  using assms by (simp add: consume_def rotate_file_def Let_def)

text \<open>A day whose first backup is not full: the records up to the next rotation take its place.\<close>

lemma day_with_small_backup:
  assumes env: "log_env_ok env (file_name_suffix b)" and opens: "can_open env (generate_active_filepath (file_name_suffix b))"
    and steady: "steady env t (b, d)"
    and day: "\<forall>(now, msg)\<in>set (records @ [(now, msg)]). \<forall>j. local_day (now j) = local_day t"
    and disk: "log_content d (generate_active_filepath (file_name_suffix b)) = []"
      "backups_of env t (file_name_suffix b) d = {backup_path env t (file_name_suffix b) 0}"
      "length (log_content d (backup_path env t (file_name_suffix b) 0)) < rotation_size b"
    and size: "length (record_lines records) < rotation_size b"
      "rotation_size b \<le> length (record_lines (records @ [(now, msg)]))"
  shows "map_of (snd (consume_all env (records @ [(now, msg)]) (b, d))) p =
    (if p = backup_path env t (file_name_suffix b) 0 then Some (record_lines (records @ [(now, msg)]))
     else if p = generate_active_filepath (file_name_suffix b) then None else map_of d p)"
proof -
  let ?suf = "file_name_suffix b"
  let ?active = "generate_active_filepath ?suf" and ?first = "backup_path env t ?suf 0"
  obtain b' d' where small: "consume_all env records (b, d) = (b', d')" and steady': "steady env t (b', d')"
    and d': "\<And>p. p \<noteq> ?active \<Longrightarrow> map_of d' p = map_of d p" "log_content d' ?active = record_lines records"
    using small_lines [OF steady _ opens, of records] day disk(1) size(1) by auto
  have b': "file_name_suffix b' = ?suf" "rotation_size b' = rotation_size b"
    using consume_all_members [of env records "(b, d)", unfolded small] by simp_all
  let ?b = "b' \<lparr> file_path := ?active, file_open := True,
    characters_written := length (record_lines (records @ [(now, msg)])) \<rparr>"
  let ?d = "append_log ?active (line msg) d'"
  have last: "consume env now msg (b', d') = rotate_file env now 4 (?b, ?d)"
    using day opens size(2) by (subst consume_steady [OF steady']) (simp_all add: b' d' Let_def)
  have "backups_of env t ?suf ?d = {?first}"
    using disk(2) d'(1) by (simp add: backups_of_def generate_active_filepath_def)
  moreover have "length (log_content ?d ?first) < rotation_size b"
    using disk(3) d'(1) by (simp add: log_content_def)
  ultimately obtain d'' where "rotate_file env now 4 (?b, ?d) =
      (?b \<lparr> file_open := False, characters_written := 0, current_date := local_day t \<rparr>, d'')"
    "\<forall>p. map_of d'' p = (if p = ?first then Some (record_lines (records @ [(now, msg)]))
      else if p = ?active then None else map_of ?d p)"
    using rotate_replaces [of env ?b now t ?d "record_lines (records @ [(now, msg)])" 1 4] env day
    by (auto simp: b' d' lessThan_Suc)
  then show ?thesis using small last d'(1) by simp
qed

text \<open>C39: a change of the day makes the size-based backend lose log. The first record of the new day
finds an active file that is not full, and renames it to the first backup of that day. The next
rotation, by size, of the same day takes the same name again, because the index is only increased
past a file that has the rotation size. Then the first backup holds the lines of the new day alone,
there is no active file, every other file is as it was: what the active file held before the change
of the day is nowhere.\<close>

theorem day_change_loses_log:
  assumes env: "log_env_ok env (file_name_suffix b)" and opens: "can_open env (generate_active_filepath (file_name_suffix b))"
    and day: "current_date b \<noteq> local_day t"
      "\<forall>(now, msg)\<in>set (records @ [(now, msg)]). \<forall>j. local_day (now j) = local_day t"
    and old: "map_of d (generate_active_filepath (file_name_suffix b)) = Some old" "length old < rotation_size b"
      "backups_of env t (file_name_suffix b) d = {}"
    and size: "length (record_lines records) < rotation_size b"
      "rotation_size b \<le> length (record_lines (records @ [(now, msg)]))"
  shows "map_of (snd (consume_all env (records @ [(now, msg)]) (b, d))) p =
    (if p = backup_path env t (file_name_suffix b) 0 then Some (record_lines (records @ [(now, msg)]))
     else if p = generate_active_filepath (file_name_suffix b) then None else map_of d p)"
proof -
  let ?suf = "file_name_suffix b"
  let ?active = "generate_active_filepath ?suf" and ?first = "backup_path env t ?suf 0"
  let ?b = "b \<lparr> file_path := ?active \<rparr>"
  let ?b' = "?b \<lparr> file_open := False, characters_written := 0, current_date := local_day t \<rparr>"
  obtain now' msg' rest where all: "records @ [(now, msg)] = (now', msg') # rest"
    by (cases "records @ [(now, msg)]") auto
  then have day': "\<forall>j. local_day (now' j) = local_day t" using day(2) by auto
  obtain d' where d': "rotate_file env now' 1 (?b, d) = (?b', d')" "backups_of env t ?suf d' = {?first}"
    "\<And>p. map_of d' p = (if p = ?first then Some old else if p = ?active then None else map_of d p)"
    using rotate_replaces [OF _ day', of env ?b d old 0 1] env old by auto
  have "consume_all env (records @ [(now, msg)]) (b, d) = consume_all env (records @ [(now, msg)]) (?b', d')"
    using consume_new_day [OF day(1) day', of env msg' d, unfolded d'(1)] by (simp add: all)
  moreover have "map_of (snd (consume_all env (records @ [(now, msg)]) (?b', d'))) p =
    (if p = ?first then Some (record_lines (records @ [(now, msg)]))
     else if p = ?active then None else map_of d' p)"
    using day_with_small_backup [of env ?b' t d' records now msg p] env opens day(2) old(2) size
    by (simp add: steady_def d' log_content_def)
  ultimately show ?thesis by (simp add: d'(3))
qed

theorem day_change_loses_log_witness:
  "map_of (snd (consume_all sample_log_env [(\<lambda>j. 86400, ascii ''cd'')]
      (new_size_backend (ascii ''rtmp'') 3 0, [(generate_active_filepath (ascii ''rtmp''), ascii ''a'')])))
      (backup_path sample_log_env 86400 (ascii ''rtmp'') 0) = Some (line (ascii ''cd''))"
proof -
  let ?d = "[(generate_active_filepath (ascii ''rtmp''), ascii ''a'')]"
  have "can_open sample_log_env (generate_active_filepath (ascii ''rtmp''))" by (simp add: sample_log_env_def)
  moreover have "backups_of sample_log_env 86400 (ascii ''rtmp'') ?d = {}"
    by (simp add: backups_of_def generate_active_filepath_def)
  ultimately show ?thesis
    using day_change_loses_log [of sample_log_env "new_size_backend (ascii ''rtmp'') 3 0" 86400 "[]"
      "\<lambda>j. 86400" "ascii ''cd''" ?d "ascii ''a''" "backup_path sample_log_env 86400 (ascii ''rtmp'') 0"]
      sample_log_env_ok [of "ascii ''rtmp''"]
    by (simp add: new_size_backend_def local_day_def)
qed

end
