(* ===== verification/Log_Hours.thy ===== *)
theory Log_Hours
  imports Log_Files
begin

text \<open>
  The other backends of the log: \<open>cilog_backend\<close> and \<open>cilog_date_hour_backend\<close> of \<open>src/castislogger.h\<close>,
  which write to files with final names, and \<open>cilog_date_hour_based_backup_backend\<close> of
  \<open>src/cichannellogger.h\<close>, whose active file is renamed after an hour.

  Shown: all three are sinks. The first two only append, whatever the clock does; the third loses
  no line when time does not go back and the names of its files tell hours apart, but names a file after the hour before its rotation, which
  is not the hour of its lines when there was none for longer.
\<close>

subsection \<open>Files by size\<close>

text \<open>The members of \<open>cilog_backend\<close> are those of \<open>cilog_size_based_backup_backend\<close>.\<close>

type_synonym cilog_backend = size_backend

definition plain_name :: "bytes \<Rightarrow> bytes \<Rightarrow> bytes" where
  "plain_name filename_prefix suf = filename_prefix @ [0x5F] @ suf @ log_extension"

definition cilog_generate_filepath :: "log_env \<Rightarrow> readings \<Rightarrow> nat \<Rightarrow> cilog_backend \<Rightarrow> log_disk \<Rightarrow> log_path" where
  "cilog_generate_filepath env now i b d =
     (let filename_prefix = datetime_string_with_format env (now i) day_format 0;
          monthly_path = datetime_string_with_format env (now (i + 1)) month_format 0;
          next_index = scan_next_index env (rotation_size b) monthly_path
            (name_pattern filename_prefix (file_name_suffix b)) d
      in [monthly_path, if next_index > 0 then indexed_name filename_prefix next_index (file_name_suffix b)
            else plain_name filename_prefix (file_name_suffix b)])"

definition cilog_rotate_file :: "ptime \<Rightarrow> cilog_backend \<Rightarrow> cilog_backend" where
  "cilog_rotate_file now b =
     b \<lparr> file_open := False, characters_written := 0, current_date := local_day now \<rparr>"

definition cilog_write :: "readings \<Rightarrow> bytes \<Rightarrow> cilog_backend \<times> log_disk \<Rightarrow> cilog_backend \<times> log_disk" where
  "cilog_write now msg = (\<lambda>(b, d).
     let b = b \<lparr> characters_written := characters_written b + length msg + 1 \<rparr>
     in (if characters_written b \<ge> rotation_size b then cilog_rotate_file (now 4) b else b,
         append_log (file_path b) (line msg) d))"

definition cilog_consume :: "log_env \<Rightarrow> readings \<Rightarrow> bytes \<Rightarrow> cilog_backend \<times> log_disk \<Rightarrow> cilog_backend \<times> log_disk" where
  "cilog_consume env now msg = (\<lambda>(b, d).
     let b = (if current_date b \<noteq> local_day (now 0) then cilog_rotate_file (now 1) b else b)
     in if file_open b then cilog_write now msg (b, d)
        else let b = b \<lparr> file_path := cilog_generate_filepath env now 2 b d \<rparr>
             in if \<not> can_open env (file_path b) then (b, d)
                else cilog_write now msg
                  (b \<lparr> file_open := True, characters_written := length (log_content d (file_path b)) \<rparr>,
                   append_log (file_path b) [] d))"

subsection \<open>Files by hour\<close>

record hour_backend =
  hour_file_open :: bool
  hour_file_path :: log_path
  hour_name_suffix :: bytes
  current_date_hour :: bytes
  file_name_prefix_format :: bytes

definition new_hour_backend :: "log_env \<Rightarrow> bytes \<Rightarrow> bytes \<Rightarrow> ptime \<Rightarrow> hour_backend" where
  "new_hour_backend env suf format now = \<lparr> hour_file_open = False, hour_file_path = [],
     hour_name_suffix = suf, current_date_hour = get_current_date_hour env now,
     file_name_prefix_format = format \<rparr>"

definition ensure_prefix_format :: "hour_backend \<Rightarrow> hour_backend" where
  "ensure_prefix_format b = (if file_name_prefix_format b = []
     then b \<lparr> file_name_prefix_format := default_prefix_format \<rparr> else b)"

definition hour_path :: "log_env \<Rightarrow> readings \<Rightarrow> nat \<Rightarrow> hour_backend \<Rightarrow> int \<Rightarrow> log_path" where
  "hour_path env now i b hour =
     [datetime_string_with_format env (now (i + 1)) month_format hour,
      plain_name (datetime_string_with_format env (now i) (file_name_prefix_format b) hour) (hour_name_suffix b)]"

definition hour_generate_filepath :: "log_env \<Rightarrow> readings \<Rightarrow> nat \<Rightarrow> hour_backend \<Rightarrow> log_path \<times> hour_backend" where
  "hour_generate_filepath env now i b =
     (hour_path env now i (ensure_prefix_format b) 0, ensure_prefix_format b)"

definition hour_rotate_file :: "log_env \<Rightarrow> ptime \<Rightarrow> hour_backend \<Rightarrow> hour_backend" where
  "hour_rotate_file env now b =
     b \<lparr> hour_file_open := False, current_date_hour := get_current_date_hour env now \<rparr>"

definition hour_write :: "log_env \<Rightarrow> readings \<Rightarrow> bytes \<Rightarrow> hour_backend \<times> log_disk \<Rightarrow> hour_backend \<times> log_disk" where
  "hour_write env now msg = (\<lambda>(b, d).
     (if current_date_hour b \<noteq> get_current_date_hour env (now 4) then hour_rotate_file env (now 5) b else b,
      append_log (hour_file_path b) (line msg) d))"

definition hour_consume :: "log_env \<Rightarrow> readings \<Rightarrow> bytes \<Rightarrow> hour_backend \<times> log_disk \<Rightarrow> hour_backend \<times> log_disk" where
  "hour_consume env now msg = (\<lambda>(b, d).
     let b = (if current_date_hour b \<noteq> get_current_date_hour env (now 0)
              then hour_rotate_file env (now 1) b else b)
     in if hour_file_open b then hour_write env now msg (b, d)
        else let (path, b) = hour_generate_filepath env now 2 b; b = b \<lparr> hour_file_path := path \<rparr>
             in if \<not> can_open env path then (b, d)
                else hour_write env now msg (b \<lparr> hour_file_open := True \<rparr>, append_log path [] d))"

subsection \<open>Backups by hour\<close>

text \<open>\<open>rollover_without_max\<close> and \<open>rotate_file\<close> of \<open>cilog_date_hour_based_backup_backend\<close>: the name is made
  from the time an hour ago.\<close>

definition hour_rollover :: "log_env \<Rightarrow> readings \<Rightarrow> nat \<Rightarrow> hour_backend \<times> log_disk \<Rightarrow> hour_backend \<times> log_disk" where
  "hour_rollover env now i = (\<lambda>(b, d).
     let b = ensure_prefix_format b
     in (b, case rename_log (hour_file_path b) (hour_path env now i b (- 1)) d of None \<Rightarrow> d | Some d' \<Rightarrow> d'))"

definition hour_backup_rotate :: "log_env \<Rightarrow> readings \<Rightarrow> nat \<Rightarrow> hour_backend \<times> log_disk \<Rightarrow> hour_backend \<times> log_disk" where
  "hour_backup_rotate env now i = (\<lambda>(b, d).
     let (b, d) = hour_rollover env now i (b \<lparr> hour_file_open := False \<rparr>, d)
     in (b \<lparr> current_date_hour := get_current_date_hour env (now (i + 2)) \<rparr>, d))"

definition hour_backup_write :: "log_env \<Rightarrow> readings \<Rightarrow> bytes \<Rightarrow> hour_backend \<times> log_disk \<Rightarrow> hour_backend \<times> log_disk" where
  "hour_backup_write env now msg = (\<lambda>(b, d).
     let d = append_log (hour_file_path b) (line msg) d
     in if current_date_hour b \<noteq> get_current_date_hour env (now 4) then hour_backup_rotate env now 5 (b, d)
        else (b, d))"

definition hour_backup_consume ::
  "log_env \<Rightarrow> readings \<Rightarrow> bytes \<Rightarrow> hour_backend \<times> log_disk \<Rightarrow> hour_backend \<times> log_disk" where
  "hour_backup_consume env now msg = (\<lambda>(b, d).
     let active = generate_active_filepath (hour_name_suffix b);
         (b, d) = (if current_date_hour b \<noteq> get_current_date_hour env (now 0)
                   then hour_backup_rotate env now 1 (b \<lparr> hour_file_path := active \<rparr>, d) else (b, d))
     in if hour_file_open b then hour_backup_write env now msg (b, d)
        else if \<not> can_open env active then (b \<lparr> hour_file_path := active \<rparr>, d)
        else hour_backup_write env now msg
               (b \<lparr> hour_file_path := active, hour_file_open := True \<rparr>, append_log active [] d))"

subsection \<open>Sinks that only append\<close>

text \<open>The disk is the first one with lines at the ends of files, in the order of the records.\<close>

definition appended :: "log_disk \<Rightarrow> (log_path \<times> bytes) list \<Rightarrow> log_disk \<Rightarrow> bool" where
  "appended d ws d' \<longleftrightarrow> (\<forall>p. log_content d' p = log_content d p @ concat (map snd (filter (\<lambda>w. fst w = p) ws)))"

lemma appended_append_log: "appended d ws d' \<Longrightarrow> appended d (ws @ [(p, b)]) (append_log p b d')"
  by (simp add: appended_def)

definition append_sink :: "log_env \<Rightarrow> log_disk \<Rightarrow> bytes \<Rightarrow> log_disk \<Rightarrow> bool" where
  "append_sink env d log d' \<longleftrightarrow> (\<forall>p. can_open env p) \<and> (\<exists>ws. appended d ws d' \<and> concat (map snd ws) = log)"

lemma append_sink_step:
  assumes "append_sink env d log d1" and "\<exists>p. d2 = append_log p b d1"
  shows "append_sink env d (log @ b) d2"
proof -
  obtain ws p where "appended d ws d1" "concat (map snd ws) = log" "d2 = append_log p b d1"
    using assms by (auto simp: append_sink_def)
  then have "appended d (ws @ [(p, b)]) d2" "concat (map snd (ws @ [(p, b)])) = log @ b"
    using appended_append_log by simp_all
  then show ?thesis using assms(1) unfolding append_sink_def by blast
qed

lemma cilog_appends:
  "\<forall>p. can_open env p \<Longrightarrow> \<exists>p. snd (cilog_consume env now msg s) = append_log p (line msg) (snd s)"
  by (auto simp: cilog_consume_def cilog_write_def Let_def split: prod.splits)

lemma hour_appends:
  "\<forall>p. can_open env p \<Longrightarrow> \<exists>p. snd (hour_consume env now msg s) = append_log p (line msg) (snd s)"
  by (auto simp: hour_consume_def hour_write_def Let_def split: prod.splits)

lemma append_sink_consume:
  assumes "append_sink env d log d1"
  shows "append_sink env d (log @ line msg) (snd (cilog_consume env now msg (b, d1)))"
    and "append_sink env d (log @ line msg) (snd (hour_consume env now msg (h, d1)))"
proof -
  have "\<forall>p. can_open env p" using assms by (simp add: append_sink_def)
  note writes = cilog_appends [OF this, of now msg "(b, d1)"] hour_appends [OF this, of now msg "(h, d1)"]
  show "append_sink env d (log @ line msg) (snd (cilog_consume env now msg (b, d1)))"
    and "append_sink env d (log @ line msg) (snd (hour_consume env now msg (h, d1)))"
    using writes append_sink_step [OF assms] by simp_all
qed

interpretation plain: log_sink "\<lambda>(now, msg). cilog_consume env now msg" "\<lambda>(now, msg). line msg"
  "\<lambda>s e. True" "\<lambda>k log s. append_sink env d log (snd s)" for env d
  by unfold_locales (auto intro: append_sink_consume split: prod.splits)

interpretation hourly: log_sink "\<lambda>(now, msg). hour_consume env now msg" "\<lambda>(now, msg). line msg"
  "\<lambda>s e. True" "\<lambda>k log s. append_sink env d log (snd s)" for env d
  by unfold_locales (auto intro: append_sink_consume split: prod.splits)

subsection \<open>Backups by hour keep every line\<close>

definition hour_of :: "ptime \<Rightarrow> int" where
  "hour_of t = t div 3600"

text \<open>Names that tell hours apart.\<close>

definition hour_names :: "log_env \<Rightarrow> bytes \<Rightarrow> bool" where
  "hour_names env format \<longleftrightarrow>
     (\<forall>t t'. get_current_date_hour env t = get_current_date_hour env t' \<longleftrightarrow> hour_of t = hour_of t') \<and>
     (\<forall>t t'. print_time env format t = print_time env format t' \<longrightarrow> hour_of t = hour_of t')"

definition hour_backup_path :: "log_env \<Rightarrow> bytes \<Rightarrow> bytes \<Rightarrow> ptime \<Rightarrow> bytes \<Rightarrow> log_path" where
  "hour_backup_path env format suf t dir = [dir, plain_name (print_time env format (t - 3600)) suf]"

text \<open>No backup is named for the hours after this one.\<close>

definition no_later_backup :: "log_env \<Rightarrow> bytes \<Rightarrow> bytes \<Rightarrow> ptime \<Rightarrow> log_disk \<Rightarrow> bool" where
  "no_later_backup env format suf c d \<longleftrightarrow>
     (\<forall>t dir. hour_of c < hour_of t \<longrightarrow> map_of d (hour_backup_path env format suf t dir) = None)"

text \<open>The backups of rotations, each with the readings of the clock that name its file and its
directory, and the log in such files, in the order of their rotations, and the active file.\<close>

definition backup_files :: "log_env \<Rightarrow> bytes \<Rightarrow> bytes \<Rightarrow> (ptime \<times> ptime) list \<Rightarrow> log_path list" where
  "backup_files env format suf rs =
     map (\<lambda>(r, u). hour_backup_path env format suf r (print_time env month_format (u - 3600))) rs"

text \<open>Each rotation is in a later hour than the one before, and than the first hour.\<close>

definition hours_rise :: "int \<Rightarrow> (ptime \<times> ptime) list \<Rightarrow> bool" where
  "hours_rise first rs \<longleftrightarrow> sorted_wrt (<) (first # map (\<lambda>(r, u). hour_of r) rs) \<and> (\<forall>(r, u)\<in>set rs. r \<le> u)"

definition logged_in :: "log_path list \<Rightarrow> bytes \<Rightarrow> log_disk \<Rightarrow> bytes" where
  "logged_in ps suf d = concat (map (log_content d) ps) @ log_content d (generate_active_filepath suf)"

definition hour_holds :: "log_env \<Rightarrow> int \<Rightarrow> ptime \<Rightarrow> bytes \<Rightarrow> hour_backend \<times> log_disk \<Rightarrow> bool" where
  "hour_holds env first c log s \<longleftrightarrow> (case s of (b, d) \<Rightarrow>
     file_name_prefix_format b \<noteq> [] \<and> hour_names env (file_name_prefix_format b) \<and>
     current_date_hour b = get_current_date_hour env c \<and>
     no_later_backup env (file_name_prefix_format b) (hour_name_suffix b) c d \<and>
     (hour_file_open b \<longrightarrow> hour_file_path b = generate_active_filepath (hour_name_suffix b)) \<and>
     first \<le> hour_of c \<and>
     (\<exists>rs. hours_rise first rs \<and> (\<forall>(r, u)\<in>set rs. hour_of r \<le> hour_of c) \<and>
        logged_in (backup_files env (file_name_prefix_format b) (hour_name_suffix b) rs) (hour_name_suffix b) d = log))"

lemma hour_target:
  "hour_path env now i b (- 1) = hour_backup_path env (file_name_prefix_format b) (hour_name_suffix b) (now i)
     (print_time env month_format (now (i + 1) - 3600))"
  by (simp add: hour_path_def hour_backup_path_def datetime_string_with_format_def hours_def)

lemma no_later_append:
  assumes "no_later_backup env format suf c d"
  shows "no_later_backup env format suf c (append_log (generate_active_filepath suf') b d)"
  using assms by (simp add: no_later_backup_def hour_backup_path_def generate_active_filepath_def)

lemma logged_in_append:
  assumes "generate_active_filepath suf \<notin> set ps"
  shows "logged_in ps suf (append_log (generate_active_filepath suf) b d) = logged_in ps suf d @ b"
proof -
  have "log_content (append_log (generate_active_filepath suf) b d) p = log_content d p" if "p \<in> set ps" for p
    using assms that by auto
  then show ?thesis by (simp add: logged_in_def cong: map_cong)
qed

lemma logged_in_renamed:
  assumes "generate_active_filepath suf \<notin> set ps" "q \<notin> set ps" and "map_of d (generate_active_filepath suf) = Some a"
    and "generate_active_filepath suf \<noteq> q"
    and c: "\<And>x. log_content d' x = (if x = q then a else if x = generate_active_filepath suf then [] else log_content d x)"
  shows "logged_in (ps @ [q]) suf d' = logged_in ps suf d"
proof -
  have "log_content d' p = log_content d p" if "p \<in> set ps" for p
    using assms(1,2) that by (auto simp: c)
  then have "concat (map (log_content d') ps) = concat (map (log_content d) ps)"
    by (intro arg_cong [where f = concat] map_cong refl)
  moreover have "log_content d (generate_active_filepath suf) = a" by (simp add: log_content_def assms(3))
  ultimately show ?thesis
    using assms(4) by (simp add: logged_in_def c [of q] c [of "generate_active_filepath suf"])
qed

lemma hour_of_mono: "s \<le> t \<Longrightarrow> hour_of s \<le> hour_of t"
  by (simp add: hour_of_def zdiv_mono1)

lemma no_later_later:
  "no_later_backup env format suf c d \<Longrightarrow> hour_of c \<le> hour_of c' \<Longrightarrow> no_later_backup env format suf c' d"
  by (auto simp: no_later_backup_def)

lemma hour_names_tell:
  assumes "hour_names env format"
  shows "get_current_date_hour env t = get_current_date_hour env t' \<longleftrightarrow> hour_of t = hour_of t'"
    and "print_time env format t = print_time env format t' \<Longrightarrow> hour_of t = hour_of t'"
  using assms unfolding hour_names_def by blast+

lemma hour_holds_cases:
  assumes "hour_holds env first c log (b, d)"
  shows "file_name_prefix_format b \<noteq> []" and "hour_names env (file_name_prefix_format b)"
    and "current_date_hour b = get_current_date_hour env c"
    and "no_later_backup env (file_name_prefix_format b) (hour_name_suffix b) c d"
    and "hour_file_open b \<Longrightarrow> hour_file_path b = generate_active_filepath (hour_name_suffix b)"
    and "first \<le> hour_of c"
    and "\<exists>rs. hours_rise first rs \<and> (\<forall>(r, u)\<in>set rs. hour_of r \<le> hour_of c) \<and>
      logged_in (backup_files env (file_name_prefix_format b) (hour_name_suffix b) rs) (hour_name_suffix b) d = log"
  using assms by (simp_all add: hour_holds_def)

lemma hour_holdsI:
  assumes "file_name_prefix_format b \<noteq> []" and "hour_names env (file_name_prefix_format b)"
    and "current_date_hour b = get_current_date_hour env c"
    and "no_later_backup env (file_name_prefix_format b) (hour_name_suffix b) c d"
    and "hour_file_open b \<Longrightarrow> hour_file_path b = generate_active_filepath (hour_name_suffix b)"
    and "first \<le> hour_of c" and "hours_rise first rs" and "\<forall>(r, u)\<in>set rs. hour_of r \<le> hour_of c"
    and "logged_in (backup_files env (file_name_prefix_format b) (hour_name_suffix b) rs) (hour_name_suffix b) d = log"
  shows "hour_holds env first c log (b, d)"
  using assms unfolding hour_holds_def by blast

lemma hour_before: "hour_of (t - 3600) = hour_of t - 1"
  using div_mult_self1 [of 3600 t "-1"] by (simp add: hour_of_def)

lemma hour_backup_path_same:
  assumes "hour_names env format"
    and "hour_backup_path env format suf t dir = hour_backup_path env format suf t' dir'"
  shows "hour_of t = hour_of t'"
proof -
  have "print_time env format (t - 3600) = print_time env format (t' - 3600)"
    using assms(2) by (simp add: hour_backup_path_def plain_name_def)
  then have "hour_of (t - 3600) = hour_of (t' - 3600)" by (rule hour_names_tell(2) [OF assms(1)])
  then show ?thesis by (simp add: hour_before)
qed

lemma active_no_backup [simp]:
  "generate_active_filepath suf \<notin> set (backup_files env format suf rs)"
  by (auto simp: backup_files_def hour_backup_path_def generate_active_filepath_def)

text \<open>A rotation in a later hour takes a new name.\<close>

lemma backup_files_next:
  assumes "hour_names env format" and "hours_rise first rs" and "\<forall>(r, u)\<in>set rs. hour_of r \<le> hour_of c"
    and "first \<le> hour_of c" and "hour_of c < hour_of r" and "r \<le> u"
  shows "hours_rise first (rs @ [(r, u)])"
    and "hour_backup_path env format suf r dir \<notin> set (backup_files env format suf rs)"
proof -
  show "hours_rise first (rs @ [(r, u)])"
    using assms(2-6) by (fastforce simp: hours_rise_def sorted_wrt_append)
  show "hour_backup_path env format suf r dir \<notin> set (backup_files env format suf rs)"
    using assms(3,5) by (auto simp: backup_files_def dest!: hour_backup_path_same [OF assms(1)])
qed

lemma backup_files_distinct:
  assumes "hour_names env format" and "hours_rise first rs"
  shows "distinct (backup_files env format suf rs)"
proof -
  have "distinct (map (\<lambda>(r, u). hour_of r) rs)"
    using assms(2) by (simp add: hours_rise_def strict_sorted_iff)
  then have inj: "inj_on (\<lambda>(r, u). hour_of r) (set rs)" and rs: "distinct rs" by (simp_all add: distinct_map)
  have "inj_on (\<lambda>(r, u). hour_backup_path env format suf r (print_time env month_format (u - 3600))) (set rs)"
  proof (rule inj_onI, clarify)
    fix r u r' u'
    assume mem: "(r, u) \<in> set rs" "(r', u') \<in> set rs"
      and same: "hour_backup_path env format suf r (print_time env month_format (u - 3600)) =
        hour_backup_path env format suf r' (print_time env month_format (u' - 3600))"
    show "r = r' \<and> u = u'"
      using inj_onD [OF inj, of "(r, u)" "(r', u')"] mem hour_backup_path_same [OF assms(1) same] by simp
  qed
  then show ?thesis by (simp add: backup_files_def distinct_map rs)
qed

lemma hour_rotated:
  assumes holds: "hour_holds env first c log (b, d)" and path: "hour_file_path b = generate_active_filepath (hour_name_suffix b)"
    and later: "hour_of c < hour_of (now i)" and mono: "mono now"
  shows "hour_holds env first (now (i + 2)) log (hour_backup_rotate env now i (b, d))"
proof -
  let ?format = "file_name_prefix_format b" and ?suf = "hour_name_suffix b"
  define q where "q = hour_path env now i b (- 1)"
  note format = hour_holds_cases(1) [OF holds] and names = hour_holds_cases(2) [OF holds]
    and none = hour_holds_cases(4) [OF holds] and first = hour_holds_cases(6) [OF holds]
  have hours: "hour_of (now i) \<le> hour_of (now (i + 2))" using mono by (intro hour_of_mono) (simp add: monoD)
  obtain rs where rs: "hours_rise first rs" "\<forall>(r, u)\<in>set rs. hour_of r \<le> hour_of c"
    "logged_in (backup_files env ?format ?suf rs) ?suf d = log"
    using hour_holds_cases(7) [OF holds] by blast
  have ordered: "now i \<le> now (i + 1)" using mono by (simp add: monoD)
  note further = backup_files_next [OF names rs(1,2) first later ordered]
  let ?rs = "rs @ [(now i, now (i + 1))]"
  have q: "map_of d q = None" "generate_active_filepath ?suf \<noteq> q" "q \<notin> set (backup_files env ?format ?suf rs)"
    "backup_files env ?format ?suf ?rs = backup_files env ?format ?suf rs @ [q]"
    using later none further(2)
    by (simp_all add: q_def hour_target no_later_backup_def backup_files_def)
      (simp add: hour_backup_path_def generate_active_filepath_def)
  have rotated: "hour_backup_rotate env now i (b, d) =
      (b \<lparr> hour_file_open := False, current_date_hour := get_current_date_hour env (now (i + 2)) \<rparr>,
       case rename_log (hour_file_path b) q d of None \<Rightarrow> d | Some d' \<Rightarrow> d')"
    using format by (simp add: hour_backup_rotate_def hour_rollover_def ensure_prefix_format_def q_def hour_path_def)
  show ?thesis
  proof (cases "map_of d (hour_file_path b)")
    case None
    then have "rename_log (hour_file_path b) q d = None" by (simp add: rename_log_def)
    moreover have "\<forall>(r, u)\<in>set rs. hour_of r \<le> hour_of (now (i + 2))"
      using rs(2) later hours by fastforce
    ultimately show ?thesis
      unfolding rotated using format names no_later_later [OF none] later hours rs(1,3) first
      by (intro hour_holdsI [where rs = rs]) auto
  next
    case (Some a)
    then obtain d' where d': "rename_log (hour_file_path b) q d = Some d'"
      and m: "\<And>x. map_of d' x = (if x = q then Some a else if x = hour_file_path b then None else map_of d x)"
      and c: "\<And>x. log_content d' x = (if x = q then a else if x = hour_file_path b then [] else log_content d x)"
      using rename_log_Some [of d _ a q] by blast
    have "logged_in (backup_files env ?format ?suf ?rs) ?suf d' = log"
      using logged_in_renamed [of ?suf "backup_files env ?format ?suf rs" q d a d'] Some q c rs(3) by (simp add: path)
    moreover have "no_later_backup env ?format ?suf (now (i + 2)) d'"
      unfolding no_later_backup_def
    proof (intro allI impI)
      fix t dir
      assume t: "hour_of (now (i + 2)) < hour_of t"
      then have "hour_backup_path env ?format ?suf t dir \<noteq> q"
        using hours hour_backup_path_same [OF names, of ?suf t dir "now i"] by (auto simp: q_def hour_target)
      then show "map_of d' (hour_backup_path env ?format ?suf t dir) = None"
        using none t later hours by (simp add: m no_later_backup_def)
    qed
    moreover have "\<forall>(r, u)\<in>set ?rs. hour_of r \<le> hour_of (now (i + 2))"
      using rs(2) later hours by fastforce
    ultimately show ?thesis
      unfolding rotated d' using names format further(1) first later hours
      by (intro hour_holdsI [where rs = ?rs]) auto
  qed
qed

lemma hour_rotates_later:
  assumes "hour_holds env first c log (b, d)" and "current_date_hour b \<noteq> get_current_date_hour env t" and "c \<le> t"
  shows "hour_of c < hour_of t"
  using hour_of_mono [OF assms(3)] assms(2) hour_holds_cases(3) [OF assms(1)]
    hour_names_tell(1) [OF hour_holds_cases(2) [OF assms(1)], of c t] by simp

lemma hour_backup_write_holds:
  assumes "hour_holds env first c log (b, d)" and "hour_file_open b" and "mono now" and "c \<le> now 4"
  shows "\<exists>c'\<le>now 7. hour_holds env first c' (log @ line msg) (hour_backup_write env now msg (b, d))"
proof -
  let ?d = "append_log (hour_file_path b) (line msg) d"
  have path: "hour_file_path b = generate_active_filepath (hour_name_suffix b)"
    using hour_holds_cases(5) [OF assms(1,2)] .
  obtain rs where "hours_rise first rs" "\<forall>(r, u)\<in>set rs. hour_of r \<le> hour_of c"
    "logged_in (backup_files env (file_name_prefix_format b) (hour_name_suffix b) rs) (hour_name_suffix b) d = log"
    using hour_holds_cases(7) [OF assms(1)] by blast
  then have held: "hour_holds env first c (log @ line msg) (b, ?d)"
    using hour_holds_cases(1-6) [OF assms(1)]
    by (intro hour_holdsI [where rs = rs]) (simp_all add: path no_later_append logged_in_append)
  show ?thesis
  proof (cases "current_date_hour b = get_current_date_hour env (now 4)")
    case True
    then show ?thesis using held assms(3,4) monoD [OF assms(3), of 4 7] by (auto simp: hour_backup_write_def intro!: exI [of _ c])
  next
    case False
    have "hour_of c < hour_of (now 5)"
      using hour_rotates_later [OF held False assms(4)] hour_of_mono [of "now 4" "now 5"] monoD [OF assms(3), of 4 5] by simp
    then show ?thesis
      using hour_rotated [OF held path _ assms(3), of 5] False by (auto simp: hour_backup_write_def intro!: exI [of _ "now 7"])
  qed
qed

lemma hour_holds_members:
  assumes "hour_holds env first c log (b, d)"
  shows "hour_holds env first c log (b \<lparr> hour_file_path := generate_active_filepath (hour_name_suffix b) \<rparr>, d)"
    and "hour_holds env first c log (b \<lparr> hour_file_path := generate_active_filepath (hour_name_suffix b),
      hour_file_open := True \<rparr>, append_log (generate_active_filepath (hour_name_suffix b)) [] d)"
proof -
  obtain rs where rs: "hours_rise first rs" "\<forall>(r, u)\<in>set rs. hour_of r \<le> hour_of c"
    "logged_in (backup_files env (file_name_prefix_format b) (hour_name_suffix b) rs) (hour_name_suffix b) d = log"
    using hour_holds_cases(7) [OF assms] by blast
  note cases = hour_holds_cases(1-4,6) [OF assms]
  show "hour_holds env first c log (b \<lparr> hour_file_path := generate_active_filepath (hour_name_suffix b) \<rparr>, d)"
    using cases rs by (intro hour_holdsI [where rs = rs]) simp_all
  show "hour_holds env first c log (b \<lparr> hour_file_path := generate_active_filepath (hour_name_suffix b),
      hour_file_open := True \<rparr>, append_log (generate_active_filepath (hour_name_suffix b)) [] d)"
    using cases rs by (intro hour_holdsI [where rs = rs]) (simp_all add: no_later_append logged_in_append)
qed

lemma hour_backup_open_holds:
  assumes "hour_holds env first c log (b, d)" and "mono now" and "c \<le> now 4"
  shows "\<exists>c'\<le>now 7. hour_holds env first c' (log @ line msg)
    (if hour_file_open b then hour_backup_write env now msg (b, d)
     else hour_backup_write env now msg (b \<lparr> hour_file_path := generate_active_filepath (hour_name_suffix b),
       hour_file_open := True \<rparr>, append_log (generate_active_filepath (hour_name_suffix b)) [] d))"
  using hour_backup_write_holds [OF assms(1) _ assms(2,3), of msg]
    hour_backup_write_holds [OF hour_holds_members(2) [OF assms(1)] _ assms(2,3), of msg] by simp

lemma hour_backup_suffix [simp]:
  "hour_name_suffix (fst (hour_backup_rotate env now i s)) = hour_name_suffix (fst s)"
  "hour_name_suffix (fst (hour_backup_consume env now msg s)) = hour_name_suffix (fst s)"
  by (simp_all add: hour_backup_consume_def hour_backup_write_def hour_backup_rotate_def hour_rollover_def
    ensure_prefix_format_def Let_def split: prod.splits)

lemma hour_backup_formats:
  assumes "file_name_prefix_format (fst s) \<noteq> []"
  shows "file_name_prefix_format (fst (hour_backup_rotate env now i s)) = file_name_prefix_format (fst s)"
    and "file_name_prefix_format (fst (hour_backup_write env now msg s)) = file_name_prefix_format (fst s)"
  using assms by (auto simp: hour_backup_write_def hour_backup_rotate_def hour_rollover_def
    ensure_prefix_format_def Let_def split: prod.splits)

lemma hour_backup_format:
  assumes "file_name_prefix_format (fst s) \<noteq> []"
  shows "file_name_prefix_format (fst (hour_backup_consume env now msg s)) = file_name_prefix_format (fst s)"
proof -
  obtain b d where s: "s = (b, d)" by (cases s)
  let ?rotated = "hour_backup_rotate env now 1 (b \<lparr> hour_file_path := generate_active_filepath (hour_name_suffix b) \<rparr>, d)"
  obtain b' d' where r: "(if current_date_hour b \<noteq> get_current_date_hour env (now 0) then ?rotated else (b, d)) = (b', d')"
    by fastforce
  have "file_name_prefix_format (fst ?rotated) = file_name_prefix_format b"
    using hour_backup_formats(1) assms by (simp add: s)
  then have "file_name_prefix_format b' = file_name_prefix_format b" using r by (auto split: if_splits)
  then show ?thesis
    using assms unfolding s hour_backup_consume_def case_prod_conv Let_def r
    by (simp add: hour_backup_formats(2))
qed

lemma hour_backup_consume_holds:
  assumes held: "hour_holds env first c log (b, d)" and mono: "mono now" and "c \<le> now 0"
    and opens: "can_open env (generate_active_filepath (hour_name_suffix b))"
  shows "\<exists>c'\<le>now 7. hour_holds env first c' (log @ line msg) (hour_backup_consume env now msg (b, d))"
proof (cases "current_date_hour b = get_current_date_hour env (now 0)")
  case True
  have "c \<le> now 4" using assms(3) monoD [OF mono, of 0 4] by simp
  then show ?thesis
    using hour_backup_open_holds [OF held mono, of msg] opens True
    by (cases "hour_file_open b") (simp_all add: hour_backup_consume_def Let_def)
next
  case False
  let ?b = "b \<lparr> hour_file_path := generate_active_filepath (hour_name_suffix b) \<rparr>"
  obtain b' d' where rotated: "hour_backup_rotate env now 1 (?b, d) = (b', d')"
    by (cases "hour_backup_rotate env now 1 (?b, d)")
  have suffix: "hour_name_suffix b' = hour_name_suffix b"
    using hour_backup_suffix(1) [of env now 1 "(?b, d)", unfolded rotated] by simp
  have "hour_of c < hour_of (now 1)"
    using hour_rotates_later [OF held False assms(3)] hour_of_mono [of "now 0" "now 1"] monoD [OF mono, of 0 1] by simp
  then have "hour_holds env first (now 3) log (b', d')"
    using hour_rotated [OF hour_holds_members(1) [OF held], of now 1, unfolded rotated] mono
    by (simp add: numeral_3_eq_3)
  then show ?thesis
    using hour_backup_open_holds [OF _ mono, of env first "now 3" log b' d' msg] monoD [OF mono, of 3 4] opens False
    by (cases "hour_file_open b'") (simp_all add: hour_backup_consume_def rotated [unfolded One_nat_def] suffix Let_def)
qed

text \<open>The sink, with the last reading of the clock so far.\<close>

definition hour_sink :: "log_env \<Rightarrow> int \<Rightarrow> bytes \<Rightarrow> ptime \<times> hour_backend \<times> log_disk \<Rightarrow> bool" where
  "hour_sink env first log = (\<lambda>(t, s). can_open env (generate_active_filepath (hour_name_suffix (fst s))) \<and>
     (\<exists>c\<le>t. hour_holds env first c log s))"

definition hour_step :: "log_env \<Rightarrow> readings \<times> bytes \<Rightarrow> ptime \<times> hour_backend \<times> log_disk \<Rightarrow> ptime \<times> hour_backend \<times> log_disk" where
  "hour_step env = (\<lambda>(now, msg) (t, s). (now 7, hour_backup_consume env now msg s))"

interpretation by_hour: log_sink "hour_step env" "\<lambda>(now, msg). line msg"
  "\<lambda>(t, s) (now, msg). t \<le> now 0 \<and> mono now" "\<lambda>k log. hour_sink env first log" for env first
proof
  fix k :: nat and log s and e :: "readings \<times> bytes"
  assume held: "hour_sink env first log s" and e: "(case s of (t, s) \<Rightarrow> \<lambda>(now, msg). t \<le> now 0 \<and> mono now) e"
  obtain now msg t b d where s: "e = (now, msg)" "s = (t, b, d)" by (cases e; cases s)
  obtain c where "c \<le> t" "hour_holds env first c log (b, d)" using held by (auto simp: hour_sink_def s)
  then show "hour_sink env first (log @ (case e of (now, msg) \<Rightarrow> line msg)) (hour_step env e s)"
    using hour_backup_consume_holds [of env first c log b d now msg] held e by (auto simp: hour_sink_def hour_step_def s)
qed

fun readings_follow :: "ptime \<Rightarrow> (readings \<times> bytes) list \<Rightarrow> bool" where
  "readings_follow t [] \<longleftrightarrow> True"
| "readings_follow t ((now, msg) # records) \<longleftrightarrow> t \<le> now 0 \<and> mono now \<and> readings_follow (now 7) records"

abbreviation hour_consume_all :: "log_env \<Rightarrow> (readings \<times> bytes) list \<Rightarrow> hour_backend \<times> log_disk \<Rightarrow> hour_backend \<times> log_disk" where
  "hour_consume_all env \<equiv> fold (\<lambda>(now, msg). hour_backup_consume env now msg)"

lemma hour_step_simps [simp]: "hour_step env (now, msg) (t, s) = (now 7, hour_backup_consume env now msg s)"
  by (simp add: hour_step_def)

lemma hour_steps: "snd (fold (hour_step env) records (t, s)) = hour_consume_all env records s"
proof (induction records arbitrary: t s)
  case (Cons e records)
  then show ?case by (cases e) simp
qed simp

lemma readings_admissible: "readings_follow t records \<Longrightarrow> by_hour.admissible_all env (t, s) records"
proof (induction records arbitrary: t s)
  case (Cons e records)
  then show ?case by (cases e) simp
qed simp

lemma hour_consume_all_members:
  assumes "file_name_prefix_format (fst s) \<noteq> []"
  shows "hour_name_suffix (fst (hour_consume_all env records s)) = hour_name_suffix (fst s) \<and>
    file_name_prefix_format (fst (hour_consume_all env records s)) = file_name_prefix_format (fst s)"
  using assms
proof (induction records arbitrary: s)
  case (Cons e records)
  then show ?case
    using Cons.IH [of "hour_backup_consume env (fst e) (snd e) s"] hour_backup_format [OF Cons.prems]
    by (cases e) simp
qed simp

text \<open>C26: the hourly backend keeps every line while time does not go back, if the format of file names
tells hours apart, no file is named yet like a backup of a later hour, and the active file can be
opened. What was in the active file before and the lines of the records, in order, are then in the
backups of the rotations, in the order of the rotations, and in the active file. The rotations are
in rising hours, all later than the hour of the start, and the backup of each has the name of the
hour before the rotation, in the directory of the month an hour ago. The backups are different
files.\<close>

theorem lines_kept_by_hour:
  assumes "hour_names env format" and "format \<noteq> []" and "can_open env (generate_active_filepath suf)"
    and "no_later_backup env format suf t d" and "readings_follow t records"
  shows "\<exists>rs. hours_rise (hour_of t) rs \<and> distinct (backup_files env format suf rs) \<and>
    logged_in (backup_files env format suf rs) suf
        (snd (hour_consume_all env records (new_hour_backend env suf format t, d))) =
      log_content d (generate_active_filepath suf) @ record_lines records"
proof -
  let ?s = "(new_hour_backend env suf format t, d)"
  have "hour_sink env (hour_of t) (log_content d (generate_active_filepath suf)) (t, ?s)"
    using assms(1-4) by (auto simp: hour_sink_def new_hour_backend_def logged_in_def backup_files_def hours_rise_def
      intro!: exI [of _ t] hour_holdsI [where rs = "[]"])
  then have "hour_sink env (hour_of t) (log_content d (generate_active_filepath suf) @ record_lines records)
      (fold (hour_step env) records (t, ?s))"
    by (rule by_hour.all_held) (rule readings_admissible [OF assms(5)])
  moreover obtain t' b' d' where final: "fold (hour_step env) records (t, ?s) = (t', b', d')"
    by (metis prod_cases3)
  moreover from this have result: "hour_consume_all env records ?s = (b', d')"
    using hour_steps [of env records t ?s] by simp
  ultimately obtain c where
    "hour_holds env (hour_of t) c (log_content d (generate_active_filepath suf) @ record_lines records) (b', d')"
    by (auto simp: hour_sink_def)
  moreover have "hour_name_suffix b' = suf" "file_name_prefix_format b' = format"
    using hour_consume_all_members [of ?s env records, unfolded result] assms(2)
    by (simp_all add: new_hour_backend_def)
  ultimately obtain rs where "hours_rise (hour_of t) rs"
    "logged_in (backup_files env format suf rs) suf d' =
      log_content d (generate_active_filepath suf) @ record_lines records"
    using hour_holds_cases(7) [of env "hour_of t" c _ b' d'] by auto
  then show ?thesis using backup_files_distinct [OF assms(1)] by (auto simp: result)
qed

text \<open>A disk in memory with numbers of hours as names.\<close>

definition sample_hour_env :: log_env where
  "sample_hour_env = \<lparr> print_time = \<lambda>format t. decimal (nat (if 0 \<le> hour_of t then 2 * hour_of t else - 2 * hour_of t - 1)),
     regex_match = name_match, directory_order = id, can_open = \<lambda>p. True \<rparr>"

lemma sample_hour_names: "hour_names sample_hour_env format"
proof -
  have "nat (if 0 \<le> i then 2 * i else - 2 * i - 1) = nat (if 0 \<le> j then 2 * j else - 2 * j - 1) \<longleftrightarrow> i = j" for i j :: int
    by (cases "0 \<le> i"; cases "0 \<le> j"; simp add: eq_nat_nat_iff; presburger)
  then show ?thesis
    by (simp add: hour_names_def sample_hour_env_def get_current_date_hour_def datetime_string_with_format_def hours_def)
qed

theorem lines_kept_by_hour_witness:
  "\<exists>rs. hours_rise 0 rs \<and> logged_in (backup_files sample_hour_env default_prefix_format (ascii ''rtmp'') rs) (ascii ''rtmp'')
      (snd (hour_consume_all sample_hour_env [(\<lambda>j. 0, ascii ''ab''), (\<lambda>j. 7200, ascii ''cd'')]
      (new_hour_backend sample_hour_env (ascii ''rtmp'') default_prefix_format 0, []))) =
    line (ascii ''ab'') @ line (ascii ''cd'')"
  using lines_kept_by_hour [OF sample_hour_names, of default_prefix_format "ascii ''rtmp''" 0 "[]"
      "[(\<lambda>j. 0, ascii ''ab''), (\<lambda>j. 7200, ascii ''cd'')]"]
  by (auto simp: default_prefix_format_def ascii_def sample_hour_env_def no_later_backup_def log_content_def mono_def hour_of_def)

end
