(* ===== verification/Log_Lines.thy ===== *)
theory Log_Lines
  imports Log_Hours
begin

text \<open>
  The lines of the log and the sinks of its core: the formatters that \<open>src/castislogger.h\<close>,
  \<open>src/cichannellogger.h\<close> and \<open>src/cihttpaccesslogger.h\<close> set, the filters by channel, and the sinks
  that \<open>src/rtmpmodulelogger.h\<close> and \<open>main.cpp\<close> add. Boost's part is an argument: the printing of a
  time (\<open>print_time\<close> of \<open>log_env\<close>), of the scope of a record, and \<open>csv_decor\<close>.

  Shown: a record is written to the sinks of its channel only; the log of the program holds the
  lines of its channel, in order; the formatter of the access log prints what
  \<open>HttpAccess::to_string\<close> does.
\<close>

subsection \<open>The access log\<close>

record http_access =
  remote_addr :: bytes
  remote_ident :: bytes
  user_name :: bytes
  request_time :: bytes
  access_request_line :: bytes
  access_status :: u32
  content_length :: u64
  referer :: bytes
  user_agent :: bytes

definition kDelimiter :: bytes where "kDelimiter = [0x20]"
definition kQuotes :: bytes where "kQuotes = [0x22]"
definition kEmpty :: bytes where "kEmpty = [0x2D]"

definition request_line :: "bytes \<Rightarrow> bytes \<Rightarrow> u32 \<Rightarrow> u32 \<Rightarrow> bytes" where
  "request_line method uri version_major version_minor = method @ kDelimiter @ uri @ kDelimiter @
     ascii ''HTTP/'' @ decimal (unat version_major) @ ascii ''.'' @ decimal (unat version_minor)"

definition http_access_to_string :: "http_access \<Rightarrow> bytes" where
  "http_access_to_string a =
     (if remote_addr a = [] then kEmpty else remote_addr a) @ kDelimiter @
     (if remote_ident a = [] then kEmpty else remote_ident a) @ kDelimiter @
     (if user_name a = [] then kEmpty else user_name a) @ kDelimiter @
     (if request_time a = [] then kEmpty else request_time a) @ kDelimiter @
     kQuotes @ (if access_request_line a = [] then kEmpty else access_request_line a) @ kQuotes @ kDelimiter @
     (if access_status a \<le> 0 then kEmpty else decimal (unat (access_status a))) @ kDelimiter @
     (if content_length a \<le> 0 then kEmpty else decimal (unat (content_length a))) @ kDelimiter @
     kQuotes @ (if referer a = [] then kEmpty else referer a) @ kQuotes @ kDelimiter @
     kQuotes @ (if user_agent a = [] then kEmpty else user_agent a) @ kQuotes"

text \<open>How the attributes that \<open>HTTPACCESSLOG\<close> adds to a record are printed.\<close>

definition print_unsigned :: "u32 \<Rightarrow> bytes" where
  "print_unsigned v = (if v \<le> 0 then kEmpty else decimal (unat v))"

definition print_size :: "u64 \<Rightarrow> bytes" where
  "print_size v = (if v \<le> 0 then kEmpty else decimal (unat v))"

definition print_string :: "bytes \<Rightarrow> bytes" where
  "print_string v = (if v = [] then kEmpty else v)"

definition access_formatter :: "http_access \<Rightarrow> bytes" where
  "access_formatter a = print_string (remote_addr a) @ kDelimiter @ print_string (remote_ident a) @ kDelimiter @
     print_string (user_name a) @ kDelimiter @ print_string (request_time a) @ kDelimiter @
     kQuotes @ print_string (access_request_line a) @ kQuotes @ kDelimiter @
     print_unsigned (access_status a) @ kDelimiter @ print_size (content_length a) @ kDelimiter @
     kQuotes @ print_string (referer a) @ kQuotes @ kDelimiter @ kQuotes @ print_string (user_agent a) @ kQuotes"

lemma access_formatter_to_string: "access_formatter a = http_access_to_string a"
  by (simp add: access_formatter_def http_access_to_string_def print_string_def print_unsigned_def print_size_def)

subsection \<open>Records\<close>

datatype severity_level = Foo | Debug | Report | Info | Success | Warning | Error | Fail | Exception | Critical

fun severity_number :: "severity_level \<Rightarrow> nat" where
  "severity_number Foo = 0" | "severity_number Debug = 1" | "severity_number Report = 2"
| "severity_number Info = 3" | "severity_number Success = 4" | "severity_number Warning = 5"
| "severity_number Error = 6" | "severity_number Fail = 7" | "severity_number Exception = 8"
| "severity_number Critical = 9"

definition severity_strings :: "bytes list" where
  "severity_strings = map ascii [''Foo'', ''Debug'', ''Report'', ''Information'', ''Success'', ''Warning'',
     ''Error'', ''Fail'', ''Exception'', ''Critical'']"

definition severity_text :: "severity_level \<Rightarrow> bytes" where
  "severity_text level = (if severity_number level < length severity_strings
     then severity_strings ! severity_number level else decimal (severity_number level))"

text \<open>The attributes of a record; \<open>access\<close> is only there in the channel of the access log, by \<open>HTTPACCESSLOG\<close>.\<close>

record log_record =
  time_stamp :: ptime
  severity :: severity_level
  channel :: "bytes option"
  scopes :: "bytes \<Rightarrow> bytes"
  smessage :: bytes
  access :: http_access

subsection \<open>Formatters\<close>

definition comma :: bytes where "comma = [0x2C]"
definition quote :: bytes where "quote = [0x22]"

definition time_stamp_format :: bytes where "time_stamp_format = ascii ''%Y-%m-%d,%H:%M:%S.%f''"

definition line_start :: "log_env \<Rightarrow> bytes \<Rightarrow> bytes \<Rightarrow> log_record \<Rightarrow> bytes" where
  "line_start env app_name app_version rec = app_name @ comma @ app_version @ comma @
     print_time env time_stamp_format (time_stamp rec) @ comma @ severity_text (severity rec) @ comma"

text \<open>The formatter of the loggers without a channel: the macro \<open>CILOG\<close> has put the place in front of the message.\<close>

definition plain_formatter :: "log_env \<Rightarrow> bytes \<Rightarrow> bytes \<Rightarrow> log_record \<Rightarrow> bytes" where
  "plain_formatter env app_name app_version rec = line_start env app_name app_version rec @ smessage rec"

definition channel_formatter ::
  "log_env \<Rightarrow> (bytes \<Rightarrow> bytes) \<Rightarrow> bytes \<Rightarrow> bytes \<Rightarrow> bool \<Rightarrow> bool \<Rightarrow> log_record \<Rightarrow> bytes" where
  "channel_formatter env csv_decor app_name app_version with_func_scope csv_format rec =
     (let fs = (if with_func_scope then ascii ''%F::%c:%l'' else ascii ''%F::%C:%l'')
      in line_start env app_name app_version rec @
         (if csv_format
          then quote @ csv_decor (scopes rec fs) @ quote @ comma @ comma @ quote @ csv_decor (smessage rec) @ quote
          else scopes rec fs @ comma @ comma @ smessage rec))"

subsection \<open>The core and its sinks\<close>

datatype log_backend = Size_Backup size_backend | Size_Files cilog_backend
  | Hour_Backup hour_backend | Hour_Files hour_backend

fun consume_backend :: "log_env \<Rightarrow> readings \<Rightarrow> bytes \<Rightarrow> log_backend \<times> log_disk \<Rightarrow> log_backend \<times> log_disk" where
  "consume_backend env now msg (Size_Backup b, d) = map_prod Size_Backup id (consume env now msg (b, d))"
| "consume_backend env now msg (Size_Files b, d) = map_prod Size_Files id (cilog_consume env now msg (b, d))"
| "consume_backend env now msg (Hour_Backup b, d) = map_prod Hour_Backup id (hour_backup_consume env now msg (b, d))"
| "consume_backend env now msg (Hour_Files b, d) = map_prod Hour_Files id (hour_consume env now msg (b, d))"

record log_sink_frontend =
  sink_filter :: "bytes option \<Rightarrow> bool"
  sink_formatter :: "log_record \<Rightarrow> bytes"
  sink_backend :: log_backend

type_synonym log_core = "log_sink_frontend list"

definition default_rotation_size :: nat where
  "default_rotation_size = 100 * 100 * 1024"

definition add_sink :: "(bytes option \<Rightarrow> bool) \<Rightarrow> (log_record \<Rightarrow> bytes) \<Rightarrow> log_backend \<Rightarrow> log_core \<Rightarrow> log_core" where
  "add_sink accepts formatter backend core =
     core @ [\<lparr> sink_filter = accepts, sink_formatter = formatter, sink_backend = backend \<rparr>]"

text \<open>\<open>init_async_logger\<close> differs in the thread that writes only.\<close>

definition init_logger :: "log_env \<Rightarrow> bytes \<Rightarrow> bytes \<Rightarrow> nat \<Rightarrow> ptime \<Rightarrow> log_core \<Rightarrow> log_core" where
  "init_logger env app_name app_version limit now = add_sink (\<lambda>c. c = None)
     (plain_formatter env app_name app_version) (Size_Files (new_size_backend app_name limit now))"

definition init_async_date_hour_logger :: "log_env \<Rightarrow> bytes \<Rightarrow> bytes \<Rightarrow> bytes \<Rightarrow> ptime \<Rightarrow> log_core \<Rightarrow> log_core" where
  "init_async_date_hour_logger env app_name app_version format now = add_sink (\<lambda>c. c = None)
     (plain_formatter env app_name app_version) (Hour_Files (new_hour_backend env app_name format now))"

definition init_async_channel_logger ::
  "log_env \<Rightarrow> (bytes \<Rightarrow> bytes) \<Rightarrow> bytes \<Rightarrow> bytes \<Rightarrow> bytes \<Rightarrow> nat \<Rightarrow> bool \<Rightarrow> bool \<Rightarrow> ptime \<Rightarrow> log_core \<Rightarrow> log_core" where
  "init_async_channel_logger env csv_decor app_name app_version channel_name limit with_func_scope csv_format now =
     add_sink (\<lambda>c. c = Some channel_name)
       (channel_formatter env csv_decor app_name app_version with_func_scope csv_format)
       (Size_Backup (new_size_backend app_name limit now))"

definition init_async_date_hour_channel_logger ::
  "log_env \<Rightarrow> (bytes \<Rightarrow> bytes) \<Rightarrow> bytes \<Rightarrow> bytes \<Rightarrow> bytes \<Rightarrow> bytes \<Rightarrow> bool \<Rightarrow> bool \<Rightarrow> ptime \<Rightarrow> log_core \<Rightarrow> log_core" where
  "init_async_date_hour_channel_logger env csv_decor app_name app_version channel_name format with_func_scope csv_format now =
     add_sink (\<lambda>c. c = Some channel_name)
       (channel_formatter env csv_decor app_name app_version with_func_scope csv_format)
       (Hour_Backup (new_hour_backend env app_name format now))"

definition init_httpaccess_logger :: "bytes \<Rightarrow> nat \<Rightarrow> ptime \<Rightarrow> log_core \<Rightarrow> log_core" where
  "init_httpaccess_logger file_name limit now = add_sink (\<lambda>c. c = Some (ascii ''ACCESS''))
     (\<lambda>rec. access_formatter (access rec)) (Size_Backup (new_size_backend file_name limit now))"

definition rtmp_channel :: bytes where "rtmp_channel = ascii ''RTMP''"

definition init_rtmpmodule_logger ::
  "log_env \<Rightarrow> (bytes \<Rightarrow> bytes) \<Rightarrow> bytes \<Rightarrow> bytes \<Rightarrow> nat \<Rightarrow> ptime \<Rightarrow> log_core \<Rightarrow> log_core" where
  "init_rtmpmodule_logger env csv_decor app_name app_version limit =
     init_async_channel_logger env csv_decor app_name app_version rtmp_channel limit False False"

definition init_rtmpmodule_date_hour_logger ::
  "log_env \<Rightarrow> (bytes \<Rightarrow> bytes) \<Rightarrow> bytes \<Rightarrow> bytes \<Rightarrow> bytes \<Rightarrow> ptime \<Rightarrow> log_core \<Rightarrow> log_core" where
  "init_rtmpmodule_date_hour_logger env csv_decor app_name app_version format =
     init_async_date_hour_channel_logger env csv_decor app_name app_version rtmp_channel format False False"

text \<open>The logger of \<open>main\<close>, made with the default size and removed at the end.\<close>

definition main_logger :: "log_env \<Rightarrow> (bytes \<Rightarrow> bytes) \<Rightarrow> bytes \<Rightarrow> ptime \<Rightarrow> log_core" where
  "main_logger env csv_decor version now =
     init_rtmpmodule_logger env csv_decor (ascii ''rtmp-module'') version default_rotation_size now []"

text \<open>The core gives a record to every sink whose filter accepts it; each writes its own file.\<close>

fun push_record :: "log_env \<Rightarrow> readings \<Rightarrow> log_record \<Rightarrow> log_core \<times> log_disk \<Rightarrow> log_core \<times> log_disk" where
  "push_record env now rec ([], d) = ([], d)"
| "push_record env now rec (sink # sinks, d) =
     (let (b, d) = (if sink_filter sink (channel rec)
                    then consume_backend env now (sink_formatter sink rec) (sink_backend sink, d)
                    else (sink_backend sink, d));
          (sinks, d) = push_record env now rec (sinks, d)
      in (sink \<lparr> sink_backend := b \<rparr> # sinks, d))"

definition stop_logger :: "nat \<Rightarrow> log_core \<Rightarrow> log_core" where
  "stop_logger async_sink core = take async_sink core @ drop (Suc async_sink) core"

subsection \<open>The log of the program\<close>

abbreviation push_all :: "log_env \<Rightarrow> (readings \<times> log_record) list \<Rightarrow> log_core \<times> log_disk \<Rightarrow> log_core \<times> log_disk" where
  "push_all env \<equiv> fold (\<lambda>(now, rec). push_record env now rec)"

text \<open>What the sink of one channel consumes.\<close>

definition channel_lines ::
  "log_sink_frontend \<Rightarrow> (readings \<times> log_record) list \<Rightarrow> (readings \<times> bytes) list" where
  "channel_lines sink recs = map (\<lambda>(now, rec). (now, sink_formatter sink rec))
     (filter (\<lambda>(now, rec). sink_filter sink (channel rec)) recs)"

lemma other_channel_ignored:
  "\<forall>sink\<in>set sinks. \<not> sink_filter sink (channel rec) \<Longrightarrow> push_record env now rec (sinks, d) = (sinks, d)"
  by (induction sinks arbitrary: d) auto

lemma single_sink:
  assumes "sink_backend sink = Size_Backup b"
  shows "snd (push_all env recs ([sink], d)) = snd (consume_all env (channel_lines sink recs) (b, d))"
  using assms
proof (induction recs arbitrary: sink b d)
  case Nil
  then show ?case by (simp add: channel_lines_def)
next
  case (Cons e recs)
  obtain now rec where e: "e = (now, rec)" by (cases e)
  have "channel_lines (sink \<lparr> sink_backend := x \<rparr>) recs = channel_lines sink recs" for x
    by (simp add: channel_lines_def)
  then have further: "snd (push_all env recs ([sink \<lparr> sink_backend := Size_Backup x \<rparr>], d)) =
      snd (consume_all env (channel_lines sink recs) (x, d))" for x d
    using Cons.IH [of "sink \<lparr> sink_backend := Size_Backup x \<rparr>" x] by simp
  obtain b' d' where "consume env now (sink_formatter sink rec) (b, d) = (b', d')"
    by (cases "consume env now (sink_formatter sink rec) (b, d)")
  then show ?case
    using further Cons.prems by (auto simp: e channel_lines_def Let_def)
qed

text \<open>C25: the log of the program holds the records of its channel and no others. From an empty
directory, for at most \<open>2 ^ 31\<close> records that are all logged on the day of the start, while the
active file can be opened, and with names of files that their pattern matches, which
\<open>rtmp-module\<close> makes: the backups in the order of their numbers, and the active file after them,
are the formatted records of channel \<open>RTMP\<close> in the order in which they were logged.\<close>

theorem program_log:
  assumes "log_env_ok env (ascii ''rtmp-module'')" and "can_open env (generate_active_filepath (ascii ''rtmp-module''))"
    and "length recs \<le> 2 ^ 31" and "\<forall>(now, rec)\<in>set recs. \<forall>j. local_day (now j) = local_day t"
  shows "\<exists>n. logged env t (ascii ''rtmp-module'') n (snd (push_all env recs (main_logger env csv_decor version t, []))) =
    concat (map (\<lambda>(now, rec). line (channel_formatter env csv_decor (ascii ''rtmp-module'') version False False rec))
      (filter (\<lambda>(now, rec). channel rec = Some rtmp_channel) recs))"
proof -
  let ?name = "ascii ''rtmp-module''"
  define sink where "sink = hd (main_logger env csv_decor version t)"
  then have sink: "main_logger env csv_decor version t = [sink]"
    and parts: "sink_filter sink = (\<lambda>c. c = Some rtmp_channel)"
      "sink_formatter sink = channel_formatter env csv_decor ?name version False False"
      "sink_backend sink = Size_Backup (new_size_backend ?name default_rotation_size t)"
    by (simp_all add: main_logger_def init_rtmpmodule_logger_def init_async_channel_logger_def add_sink_def)
  let ?lines = "channel_lines sink recs"
  have "full_backups env t ?name default_rotation_size 0 []" by (simp add: full_backups_def backups_of_def)
  moreover have "0 + length ?lines \<le> 2 ^ 31"
    using le_trans [OF length_filter_le assms(3)] by (simp add: channel_lines_def)
  moreover have "\<forall>(now, msg)\<in>set ?lines. \<forall>j. local_day (now j) = local_day t"
    using assms(4) by (auto simp: channel_lines_def)
  moreover have "logged env t ?name 0 [] = []" by (simp add: logged_def log_content_def)
  ultimately obtain n where "logged env t ?name n (snd (consume_all env ?lines (new_size_backend ?name default_rotation_size t, []))) = record_lines ?lines"
    using lines_held [OF assms(1,2), of t default_rotation_size 0 "[]" ?lines] by (auto simp: parts)
  moreover have "record_lines ?lines = concat (map (\<lambda>(now, rec). line (sink_formatter sink rec))
      (filter (\<lambda>(now, rec). channel rec = Some rtmp_channel) recs))"
    by (auto simp: channel_lines_def parts intro!: arg_cong [where f = concat] map_cong)
  ultimately show ?thesis
    by (auto simp: sink single_sink [OF parts(3)] parts)
qed

definition sample_record :: "bytes option \<Rightarrow> bytes \<Rightarrow> log_record" where
  "sample_record c msg = \<lparr> time_stamp = 0, severity = Info, channel = c, scopes = \<lambda>fs. ascii ''main.cpp::main:17'',
     smessage = msg, access = \<lparr> remote_addr = [], remote_ident = [], user_name = [], request_time = [],
       access_request_line = [], access_status = 0, content_length = 0, referer = [], user_agent = [] \<rparr> \<rparr>"

theorem program_log_witness:
  "\<exists>n. logged sample_log_env 0 (ascii ''rtmp-module'') n
      (snd (push_all sample_log_env [(\<lambda>j. 0, sample_record (Some rtmp_channel) (ascii ''started'')),
        (\<lambda>j. 0, sample_record None (ascii ''other''))] (main_logger sample_log_env id (ascii ''1.0'') 0, []))) =
    ascii ''rtmp-module,1.0,0,Information,main.cpp::main:17,,started'' @ [0x0A]"
proof -
  have "channel_formatter sample_log_env id (ascii ''rtmp-module'') (ascii ''1.0'') False False
      (sample_record (Some rtmp_channel) (ascii ''started'')) =
    ascii ''rtmp-module,1.0,0,Information,main.cpp::main:17,,started''"
    by (simp add: channel_formatter_def line_start_def sample_record_def sample_log_env_def comma_def
      severity_text_def severity_strings_def local_day_def ascii_def decimal.simps)
  moreover have "can_open sample_log_env (generate_active_filepath (ascii ''rtmp-module''))"
    by (simp add: sample_log_env_def)
  ultimately show ?thesis
    using program_log [OF sample_log_env_ok, of "[(\<lambda>j. 0, sample_record (Some rtmp_channel) (ascii ''started'')),
        (\<lambda>j. 0, sample_record None (ascii ''other''))]" 0 id "ascii ''1.0''"]
    by (simp add: sample_record_def rtmp_channel_def)
qed

end
