(* ===== verification/Descriptions.thy ===== *)
theory Descriptions
  imports Flv_Message
begin

text \<open>
  The texts that the program logs about its data: the hexadecimal dumps of \<open>common/StringUtil.cpp\<close> and
  \<open>flv_util.cpp\<close>, the \<open>ToString\<close> functions of \<open>parsingflv.cpp\<close>, which look up names in tables, the
  \<open>to_string\<close> functions of \<open>flv_message.cpp\<close>, and the functions of \<open>flv_util.cpp\<close> on single bytes.
  An index outside a table, and \<open>back()\<close> of an empty list, are \<open>Outside\<close>.

  Shown: a dump is read back to the bytes; the descriptions of the headers that the parsers accept
  stay inside the tables, although the test \<open>index > size\<close> does not ensure it; the description of a
  context does not when no frame is queued, as after the first configuration.
\<close>

subsection \<open>Single bytes of a buffer\<close>

definition get_1byte :: "bytes \<Rightarrow> byte access" where
  "get_1byte src = (case src of a # _ \<Rightarrow> Ok a | _ \<Rightarrow> Outside)"

definition get_3byte :: "bytes \<Rightarrow> u32 access" where
  "get_3byte src = (case src of
     a # b # c # _ \<Rightarrow> Ok (push_bit 16 (ucast a) OR push_bit 8 (ucast b) OR ucast c) | _ \<Rightarrow> Outside)"

definition get_4byte :: "bytes \<Rightarrow> u32 access" where
  "get_4byte src = (case src of
     a # b # c # d # _ \<Rightarrow> Ok (push_bit 24 (ucast a) OR push_bit 16 (ucast b) OR push_bit 8 (ucast c) OR ucast d)
   | _ \<Rightarrow> Outside)"

lemma gets_are_reads:
  "get_1byte s = bind_access (read_1byte s) (\<lambda>(v, _). Ok v)"
  "get_3byte s = bind_access (read_3byte s) (\<lambda>(v, _). Ok v)"
  "get_4byte s = bind_access (read_4byte s) (\<lambda>(v, _). Ok v)"
  by (simp_all add: get_1byte_def get_3byte_def get_4byte_def read_1byte_def read_3byte_def read_4byte_def
    split: list.split)

definition get_last_byte :: "bytes \<Rightarrow> byte access" where
  "get_last_byte buffer = (if buffer = [] then Outside else Ok (last buffer))"

definition put_last_byte :: "bytes \<Rightarrow> byte \<Rightarrow> bytes access" where
  "put_last_byte buffer value = (if buffer = [] then Outside else Ok (buffer[length buffer - 1 := value]))"

text \<open>The loops that store values from the start of a buffer.\<close>

fun put_loop :: "nat \<Rightarrow> bytes \<Rightarrow> bytes \<Rightarrow> bytes access" where
  "put_loop n [] buffer = Ok buffer"
| "put_loop n (value # vals) buffer =
     (if n < length buffer then put_loop (n + 1) vals (buffer[n := value]) else Outside)"

definition put_same_nbyte :: "bytes \<Rightarrow> byte \<Rightarrow> nat \<Rightarrow> bytes access" where
  "put_same_nbyte buffer value n = put_loop 0 (replicate n value) buffer"

definition put_nbyte :: "bytes \<Rightarrow> bytes \<Rightarrow> bytes access" where
  "put_nbyte buffer value = put_loop 0 value buffer"

definition skip :: "bytes \<Rightarrow> nat \<Rightarrow> bytes access" where
  "skip buffer skip_len = (if skip_len \<le> length buffer then Ok (drop skip_len buffer) else Outside)"

definition string_of_u32 :: "u32 \<Rightarrow> bytes" where
  "string_of_u32 value = [ucast (drop_bit 24 (value AND 0xff000000)), ucast (drop_bit 16 (value AND 0x00ff0000)),
     ucast (drop_bit 8 (value AND 0x0000ff00)), ucast (value AND 0x000000ff)]"

text \<open>\<open>memcpy\<close> on the little endian host, and the four bytes backwards.\<close>

definition to_vector2 :: "u32 \<Rightarrow> bytes" where
  "to_vector2 value = (let temp = le32 value in [temp ! 3, temp ! 2, temp ! 1, temp ! 0])"

lemma put_loop_eq:
  "n \<le> length buffer \<Longrightarrow> put_loop n vals buffer =
    (if n + length vals \<le> length buffer
     then Ok (take n buffer @ vals @ drop (n + length vals) buffer) else Outside)"
proof (induction n vals buffer rule: put_loop.induct)
  case (2 n v vals buffer)
  then show ?case
    by (auto simp: take_Suc_conv_app_nth nth_list_update drop_update_cancel take_update_cancel)
qed simp

text \<open>The start code of \<open>replace_nalu_start_code_from_mp4_to_ts\<close> is stored by two of these functions.\<close>

lemma start_code_stored:
  assumes "0 < n" and "length buffer = n"
  shows "bind_access (put_same_nbyte buffer 0 (n - 1)) (\<lambda>buffer. put_last_byte buffer 1) = Ok (start_code n)"
proof -
  obtain b where "drop (n - 1) buffer = [b]"
    using assms by (metis Cons_nth_drop_Suc One_nat_def Suc_pred diff_less drop_all le_refl zero_less_one)
  then show ?thesis
    using assms by (simp add: put_same_nbyte_def put_loop_eq put_last_byte_def start_code_def list_update_append)
qed

lemma same_bytes: "to_vector2 v = to_vector_32 v" "string_of_u32 v = to_vector_32 v"
  by (simp add: to_vector_be(3) to_vector2_def le32_def be32_def)
    (simp only: string_of_u32_def to_vector_32_def)

subsection \<open>Hexadecimal dumps\<close>

definition hex_digit :: "nat \<Rightarrow> byte" where
  "hex_digit d = (if d < 10 then of_nat (48 + d) else of_nat (55 + d))"

definition lower_hex_digit :: "nat \<Rightarrow> byte" where
  "lower_hex_digit d = (if d < 10 then of_nat (48 + d) else of_nat (87 + d))"

definition to_hex_byte :: "byte \<Rightarrow> bytes" where
  "to_hex_byte ch = [hex_digit (unat ch div 16), hex_digit (unat ch mod 16)]"

text \<open>\<open>get_unsigned\<close> and \<open>to_uchar\<close> of a \<open>char\<close> leave its bits; the bytes of \<open>get_hex_format\<close> end with a space.\<close>

definition get_hex_format :: "bytes \<Rightarrow> bytes" where
  "get_hex_format value = concat (map (\<lambda>b. [lower_hex_digit (unat b div 16), lower_hex_digit (unat b mod 16), 32]) value)"

text \<open>The constants \<open>kLF\<close> and \<open>kBK\<close>, and the loop over the bytes that are shown.\<close>

definition kLF :: nat where "kLF = 16"
definition kBK :: nat where "kBK = 1"

fun to_hex_loop :: "nat \<Rightarrow> nat \<Rightarrow> bytes \<Rightarrow> bytes" where
  "to_hex_loop n shown [] = []"
| "to_hex_loop n shown (b # bs) = to_hex_byte b @
     (if (n + 1) mod kBK = 0 \<and> n + 1 < shown then [32] else []) @
     (if (n + 1) mod kLF = 0 \<and> n + 1 < shown then [10] else []) @ to_hex_loop (n + 1) shown bs"

definition shown_note :: "nat \<Rightarrow> nat \<Rightarrow> bytes" where
  "shown_note showing_max_len buffer_len =
     (if showing_max_len < buffer_len
      then ascii ''only '' @ decimal showing_max_len @ ascii '' characters showing'' @ ascii '' out of '' @
        decimal buffer_len @ [10] else [])"

definition to_hex :: "bytes \<Rightarrow> nat \<Rightarrow> bytes" where
  "to_hex buffer showing_max_len = (let shown = min showing_max_len (length buffer)
     in shown_note showing_max_len (length buffer) @ to_hex_loop 0 shown (take shown buffer))"

text \<open>The variants for integers go from the highest byte to the lowest.\<close>

definition to_hex_u32 :: "u32 \<Rightarrow> bytes" where
  "to_hex_u32 value = concat (map (\<lambda>n. to_hex_byte (ucast (drop_bit (8 * (n - 1)) (value AND push_bit (8 * (n - 1)) 0xFF))) @
     (if (n + 1) mod kBK = 0 \<and> n - 1 > 0 then [32] else []) @
     (if (n + 1) mod kLF = 0 \<and> n - 1 > 0 then [10] else [])) [4, 3, 2, 1])"

definition to_hex_u16 :: "u16 \<Rightarrow> bytes" where
  "to_hex_u16 value = concat (map (\<lambda>n. to_hex_byte (ucast (drop_bit (8 * (n - 1)) (value AND push_bit (8 * (n - 1)) 0xFF))) @
     (if (n + 1) mod kBK = 0 \<and> n - 1 > 0 then [32] else []) @
     (if (n + 1) mod kLF = 0 \<and> n - 1 > 0 then [10] else [])) [2, 1])"

text \<open>A reader of dumps, from the format: pairs of digits, blanks ignored.\<close>

definition unhex_digit :: "byte \<Rightarrow> nat" where
  "unhex_digit c = (if c < 65 then unat c - 48 else if c < 97 then unat c - 55 else unat c - 87)"

fun unhex_pairs :: "bytes \<Rightarrow> bytes" where
  "unhex_pairs (a # b # s) = of_nat (16 * unhex_digit a + unhex_digit b) # unhex_pairs s"
| "unhex_pairs _ = []"

definition read_hex :: "bytes \<Rightarrow> bytes" where
  "read_hex s = unhex_pairs (filter (\<lambda>c. c \<noteq> 32 \<and> c \<noteq> 10) s)"

lemma unat_small_byte: "n < 256 \<Longrightarrow> unat (of_nat n :: byte) = n"
  by (simp add: unat_of_nat)

lemma hex_digits:
  assumes "d < 16"
  shows "unhex_digit (hex_digit d) = d" and "unhex_digit (lower_hex_digit d) = d"
    and "hex_digit d \<noteq> 32 \<and> hex_digit d \<noteq> 10" and "lower_hex_digit d \<noteq> 32 \<and> lower_hex_digit d \<noteq> 10"
proof -
  have "\<forall>d<16. unhex_digit (hex_digit d) = d \<and> unhex_digit (lower_hex_digit d) = d \<and>
      (hex_digit d \<noteq> 32 \<and> hex_digit d \<noteq> 10) \<and> (lower_hex_digit d \<noteq> 32 \<and> lower_hex_digit d \<noteq> 10)"
    by code_simp
  with assms show "unhex_digit (hex_digit d) = d" and "unhex_digit (lower_hex_digit d) = d"
    and "hex_digit d \<noteq> 32 \<and> hex_digit d \<noteq> 10" and "lower_hex_digit d \<noteq> 32 \<and> lower_hex_digit d \<noteq> 10"
    by blast+
qed

lemma byte_nibbles: "of_nat (16 * (unat b div 16) + unat b mod 16) = (b :: byte)" "unat b div 16 < 16"
proof -
  have "unat b < 256" by (rule order_less_le_trans [OF unsigned_less]) simp
  then show "of_nat (16 * (unat b div 16) + unat b mod 16) = (b :: byte)" "unat b div 16 < 16"
    by (simp_all add: mult.commute less_mult_imp_div_less)
qed

lemma read_hex_loop: "read_hex (to_hex_loop n shown bs) = bs"
proof (induction bs arbitrary: n)
  case (Cons b bs)
  have "read_hex (to_hex_loop n shown (b # bs)) = b # read_hex (to_hex_loop (n + 1) shown bs)"
    using byte_nibbles [of b] hex_digits [of "unat b div 16"] hex_digits [of "unat b mod 16"]
    by (simp add: read_hex_def to_hex_byte_def)
  then show ?case using Cons.IH by simp
qed (simp add: read_hex_def)

lemma read_hex_format: "read_hex (get_hex_format bs) = bs"
proof (induction bs)
  case (Cons b bs)
  have "read_hex (get_hex_format (b # bs)) = b # read_hex (get_hex_format bs)"
    using byte_nibbles [of b] hex_digits [of "unat b div 16"] hex_digits [of "unat b mod 16"]
    by (simp add: read_hex_def get_hex_format_def)
  then show ?case using Cons.IH by simp
qed (simp add: read_hex_def get_hex_format_def)

text \<open>Every dump of a buffer within the limit, and every dump of an integer, is read back.\<close>

lemma hex_dumps_read:
  "length bs \<le> showing_max_len \<Longrightarrow> read_hex (to_hex bs showing_max_len) = bs"
  "read_hex (to_hex_u32 v) = be32 v" "read_hex (to_hex_u16 w) = be16 w"
proof -
  show "length bs \<le> showing_max_len \<Longrightarrow> read_hex (to_hex bs showing_max_len) = bs"
    using read_hex_loop by (simp add: to_hex_def shown_note_def min_absorb2)
  have "to_hex_u32 v = to_hex_loop 0 4 (to_vector_32 v)"
    by (simp add: to_hex_u32_def to_vector_32_def kBK_def kLF_def)
  then show "read_hex (to_hex_u32 v) = be32 v" by (simp add: read_hex_loop to_vector_be)
  have "to_hex_u16 w = to_hex_loop 0 2 (to_vector_16 w)"
    by (simp add: to_hex_u16_def to_vector_16_def kBK_def kLF_def)
  then show "read_hex (to_hex_u16 w) = be16 w" by (simp add: read_hex_loop to_vector_be)
qed

subsection \<open>Tables\<close>

text \<open>A name at an index of a table. The functions for audio test \<open>index > size\<close> first.\<close>

definition entry :: "bytes list \<Rightarrow> nat \<Rightarrow> bytes access" where
  "entry table index = (if index < length table then Ok (table ! index) else Outside)"

definition name_in :: "bytes list \<Rightarrow> nat \<Rightarrow> bytes access" where
  "name_in table index = (if index > length table then Ok [] else entry table index)"

definition kSoundFormat :: "bytes list" where
  "kSoundFormat = map ascii ['''', '''', ''MP3'', '''', '''', '''', '''', '''', '''', '''', ''AAC'', '''',
     '''', '''', ''MP3-8khz'', '''']"

definition kSoundRate :: "bytes list" where
  "kSoundRate = map ascii [''5.5khz'', ''11khz'', ''22khz'', ''44khz'']"

definition kSoundSize :: "bytes list" where "kSoundSize = map ascii [''8bit'', ''16bit'']"
definition kSoundType :: "bytes list" where "kSoundType = map ascii [''Mono'', ''Stereo'']"

definition kAACPacketType :: "bytes list" where
  "kAACPacketType = map ascii [''AACSequenceHeader'', ''AACRaw'']"

definition labelled :: "string \<Rightarrow> bytes \<Rightarrow> nat \<Rightarrow> bytes" where
  "labelled label name v = ascii label @ ascii ''['' @ name @ ascii '':'' @ decimal v @ ascii '']''"

definition aac_audio_data_to_string :: "aac_audio_data \<Rightarrow> bytes access" where
  "aac_audio_data_to_string a =
     bind_access (name_in kSoundFormat (unat (sound_format a))) (\<lambda>sf.
     bind_access (name_in kSoundRate (unat (sound_rate a))) (\<lambda>sr.
     bind_access (name_in kSoundSize (unat (sound_size a))) (\<lambda>ss.
     bind_access (name_in kSoundType (unat (sound_type a))) (\<lambda>st.
     bind_access (name_in kAACPacketType (unat (aac_packet_type a))) (\<lambda>ap.
       Ok (labelled ''sound_format'' sf (unat (sound_format a)) @
         labelled '',sountd_rate'' sr (unat (sound_rate a)) @
         labelled '',sound_size'' ss (unat (sound_size a)) @
         labelled '',sound_type'' st (unat (sound_type a)) @
         labelled '',aac_packet_type'' ap (unat (aac_packet_type a))))))))"

definition kAudioObjectType :: "bytes list" where
  "kAudioObjectType = map ascii [''Null'', ''AACMain'', ''AACLC'', ''AACSSR'', ''AACLTP'', ''SBR'', ''AACScalable'',
     ''TwinVQ'', ''CELP'', ''HXVC'', '''', '''', ''TTSI'', ''MainSynthesis'', ''WavetableSynthesis'',
     ''GeneralMIDI'', ''AlgorithmicSynthesis'', ''ERAAC'', '''', ''ERAACTLP'', ''ERAACScalable'', ''ERTwinVQ'',
     ''ERBSAC'', ''ERAACLD'', ''ERCELP'', ''ERHVXC'', ''ERHILN'', ''ERParametric'', ''SSC'', ''PS'',
     ''MPEGSurround'', '''']"

definition audio_specific_config_to_string :: "audio_specific_config \<Rightarrow> bytes access" where
  "audio_specific_config_to_string c =
     bind_access (name_in kAudioObjectType (unat (auio_object_type c))) (\<lambda>aot.
       let index = sampling_frequency_index c; channels = channel_configuration c;
           sf = (if index \<le> 12 \<or> index = 15 then decimal (unat (sampling_frequency c)) @ ascii ''Hz'' else []);
           ch = (if 1 \<le> channels \<and> channels < 8 then decimal (unat (channel_count c)) @ ascii ''channel(s)'' else [])
       in Ok (labelled ''audio_object_type'' aot (unat (auio_object_type c)) @
         labelled '',sampling_frequency'' sf (unat index) @ labelled '',channel_count'' ch (unat channels)))"

definition kFrameType :: "bytes list" where
  "kFrameType = map ascii [''keyFrame'', ''interFrame'', '''', '''', '''']"

definition kCodecId :: "bytes list" where
  "kCodecId = map ascii [''JPEG'', ''H.263'', ''SV'', ''On2VP6'', ''On2VP6Alpha'', ''SV2'', ''AVC'']"

definition kAVCPacketType :: "bytes list" where
  "kAVCPacketType = map ascii [''AVCSequenceHeader'', ''AVCNALU'', ''AVCEOS'']"

definition avc_video_data_to_string :: "avc_video_data \<Rightarrow> bytes access" where
  "avc_video_data_to_string v =
     (let name = \<lambda>table index. if index < length table then entry table index else Ok [] in
      bind_access (name kFrameType (unat (frame_type v))) (\<lambda>ft.
      bind_access (name kCodecId (unat (codec_id v))) (\<lambda>ci.
      bind_access (name kAVCPacketType (unat (avc_packet_type v))) (\<lambda>ap.
        Ok (ft @ ascii '','' @ ci @ ascii '','' @ ap)))))"

definition avc_decoder_config_to_string :: "avc_decoder_config \<Rightarrow> bytes" where
  "avc_decoder_config_to_string c = []"

text \<open>Every video tag has a description.\<close>

lemma video_description: "\<exists>s. avc_video_data_to_string v = Ok s"
  by (simp add: avc_video_data_to_string_def entry_def Let_def)

text \<open>An audio tag has none when the type of its packet is 2.\<close>

lemma audio_description_outside:
  "sound_format a \<le> 15 \<Longrightarrow> sound_rate a \<le> 3 \<Longrightarrow> sound_size a \<le> 1 \<Longrightarrow> sound_type a \<le> 1 \<Longrightarrow>
    aac_packet_type a = 2 \<Longrightarrow> aac_audio_data_to_string a = Outside"
  by (simp add: aac_audio_data_to_string_def name_in_def entry_def kSoundFormat_def kSoundRate_def
    kSoundSize_def kSoundType_def kAACPacketType_def word_le_nat_alt)

lemma aac_audio_data_of_bounds:
  "unat (sound_format (aac_audio_data_of v)) < 16" "unat (sound_rate (aac_audio_data_of v)) < 4"
  "unat (sound_size (aac_audio_data_of v)) < 2" "unat (sound_type (aac_audio_data_of v)) < 2"
proof -
  have le: "unat (x AND m) \<le> unat m" for x m :: byte
    by (simp add: word_and_le1 flip: word_le_nat_alt)
  have "drop_bit 4 ((x :: byte) AND 0xF0) < 16" for x
  proof -
    have "unat (x AND 0xF0) \<le> 240" using le [of x "0xF0"] by simp
    then have "drop_bit 4 (unat (x AND 0xF0)) < 16" by (simp add: drop_bit_eq_div del: unsigned_and_eq)
    then show ?thesis by (simp only: word_less_nat_alt unat_drop_bit_eq) simp
  qed
  then show "unat (sound_format (aac_audio_data_of v)) < 16"
    by (simp add: aac_audio_data_of_def word_less_nat_alt Let_def)
  have "drop_bit 2 (0x0C :: byte) = 3" "drop_bit 1 (0x02 :: byte) = 1" by code_simp+
  then show "unat (sound_rate (aac_audio_data_of v)) < 4" "unat (sound_size (aac_audio_data_of v)) < 2"
    "unat (sound_type (aac_audio_data_of v)) < 2"
    using le [of "high_byte v" 3] le [of "high_byte v" 1] by (simp_all add: aac_audio_data_of_def Let_def)
qed

lemma audio_description_inside:
  assumes "aac_packet_type (aac_audio_data_of v) < 2"
  shows "\<exists>s. aac_audio_data_to_string (aac_audio_data_of v) = Ok s"
proof -
  have "unat (aac_packet_type (aac_audio_data_of v)) < 2" using assms by (simp add: word_less_nat_alt)
  then show ?thesis
    using aac_audio_data_of_bounds [of v]
    by (simp add: aac_audio_data_to_string_def name_in_def entry_def kSoundFormat_def kSoundRate_def
      kSoundSize_def kSoundType_def kAACPacketType_def)
qed

lemma parsed_audio_data:
  "ParseAACSequenceHeader buffer = Ok (ad, c) \<Longrightarrow> (\<exists>v. ad = aac_audio_data_of v) \<and> aac_packet_type ad = 0 \<and>
    auio_object_type c < 31"
  "ParseAACRaw buffer = Ok (ad, es) \<Longrightarrow> (\<exists>v. ad = aac_audio_data_of v) \<and> aac_packet_type ad = 1"
  by (auto simp: ParseAACSequenceHeader_def ParseAACRaw_def Let_def bind_access_Ok check_Ok)

subsection \<open>The log of audio messages\<close>

text \<open>What \<open>process_flv_es_message\<close> logs about a configuration and about a raw message, if its second parser accepts them.\<close>

definition audio_config_log :: "bytes \<Rightarrow> bytes option access" where
  "audio_config_log buffer = try_access (ParseAACSequenceHeader buffer)
     (\<lambda>(audio_data, config). bind_access (aac_audio_data_to_string audio_data) (\<lambda>a.
        bind_access (audio_specific_config_to_string config) (\<lambda>c.
          Ok (Some (ascii ''flv_audio_data['' @ a @ ascii ''],flv_audio_spec_config['' @ c @ ascii '']'')))))
     (Ok None)"

definition audio_raw_log :: "bytes \<Rightarrow> bytes option access" where
  "audio_raw_log buffer = try_access (ParseAACRaw buffer)
     (\<lambda>(audio_data, audio_raw). bind_access (aac_audio_data_to_string audio_data) (\<lambda>a.
        Ok (Some (ascii ''flv_audio_data['' @ a @ ascii ''],flv_audio_raw['' @ to_hex audio_raw 32 @ ascii '']''))))
     (Ok None)"

lemma read_bits_inside: "pos + n \<le> 8 * length data \<Longrightarrow> \<exists>v. read_bits data pos n = Ok (v, pos + n)"
  by (simp add: read_bits_def read_bits_loop_value)

lemma parse_aac_inside: "ParseAACSequenceHeader buffer \<noteq> Outside" "ParseAACRaw buffer \<noteq> Outside"
proof -
  have "ParseAACSequenceHeader (a # b # s) \<noteq> Outside" for a b s
  proof (cases "4 \<le> length s")
    case True
    obtain v5 v9 v13 where "read_bits s 0 5 = Ok (v5, 5)" "read_bits s 5 4 = Ok (v9, 9)" "read_bits s 9 4 = Ok (v13, 13)"
      using True read_bits_inside [of 0 5 s] read_bits_inside [of 5 4 s] read_bits_inside [of 9 4 s] by auto
    moreover have "\<exists>v w. read_bits s 9 24 = Ok (v, 33) \<and> read_bits s 33 4 = Ok (w, 37)" if "8 \<le> length s"
      using that read_bits_inside [of 9 24 s] read_bits_inside [of 33 4 s] by auto
    ultimately show ?thesis by (auto simp: ParseAACSequenceHeader_def Let_def check_def split: if_splits)
  qed (simp add: ParseAACSequenceHeader_def Let_def check_def)
  then show "ParseAACSequenceHeader buffer \<noteq> Outside"
    by (cases buffer; cases "tl buffer") (auto simp: ParseAACSequenceHeader_def)
  show "ParseAACRaw buffer \<noteq> Outside"
    by (auto simp: ParseAACRaw_def Let_def check_def read_nbyte_def split: list.split)
qed

text \<open>C27: logging an audio message never reads outside the message or the tables of names: the parsers
that the log uses stay inside every buffer, and the headers that they accept have types that are in
the tables, although the tests of the \<open>ToString\<close> functions let an index through that is the size of
its table.\<close>

theorem audio_log_inside: "audio_config_log buffer \<noteq> Outside \<and> audio_raw_log buffer \<noteq> Outside"
proof
  show "audio_config_log buffer \<noteq> Outside"
  proof (cases "ParseAACSequenceHeader buffer")
    case (Ok r)
    obtain ad c where r: "r = (ad, c)" by (cases r)
    note parsed = parsed_audio_data(1) [OF Ok [unfolded r]]
    then have "unat (auio_object_type c) < 31" by (simp add: word_less_nat_alt)
    then have "\<exists>s. audio_specific_config_to_string c = Ok s"
      by (simp add: audio_specific_config_to_string_def name_in_def entry_def kAudioObjectType_def Let_def)
    moreover have "\<exists>s. aac_audio_data_to_string ad = Ok s"
      using parsed audio_description_inside by fastforce
    ultimately show ?thesis by (auto simp: audio_config_log_def Ok r)
  qed (simp_all add: audio_config_log_def parse_aac_inside)
  show "audio_raw_log buffer \<noteq> Outside"
  proof (cases "ParseAACRaw buffer")
    case (Ok r)
    obtain ad es where r: "r = (ad, es)" by (cases r)
    have "\<exists>s. aac_audio_data_to_string ad = Ok s"
      using parsed_audio_data(2) [OF Ok [unfolded r]] audio_description_inside by fastforce
    then show ?thesis by (auto simp: audio_raw_log_def Ok r)
  qed (simp_all add: audio_raw_log_def parse_aac_inside)
qed

subsection \<open>Frames and contexts\<close>

definition field :: "string \<Rightarrow> bytes \<Rightarrow> bytes" where
  "field label v = ascii label @ ascii ''['' @ v @ ascii '']''"

definition video_frame_to_string :: "u64 \<Rightarrow> video_frame \<Rightarrow> bytes" where
  "video_frame_to_string time frame = field ''timestamp'' (decimal (unat time)) @ ascii '','' @
     field ''cts'' (decimal (unat (cts frame))) @ ascii '','' @ field ''keyframe'' [keyframe frame] @ ascii '','' @
     field ''codec_id'' [frame_codec_id frame]"

definition media_types :: "bytes list" where
  "media_types = map ascii [''unknown'', ''video'', ''audio'']"

definition media_es_to_string :: "media_es \<Rightarrow> bytes" where
  "media_es_to_string es = field ''frameNumber'' (decimal (unat (es_frame_number es))) @ ascii '','' @
     field ''type'' (media_types ! unat (track_of (es_type es))) @ ascii '','' @
     field ''isKeyFrame'' (decimal (unat (is_key_frame es))) @ ascii '','' @
     field ''dts'' (decimal (unat (dts es))) @ ascii '','' @ field ''pts'' (decimal (unat (pts es))) @ ascii '','' @
     field ''size'' (decimal (unat (es_size es))) @ ascii '','' @ [10] @ field ''media_data'' (to_hex (es_data es) 16)"

fun publish_state_text :: "publish_state_t \<Rightarrow> bytes" where
  "publish_state_text Begin = ascii ''begin''"
| "publish_state_text Init = ascii ''init''"
| "publish_state_text Publishing = ascii ''publishing''"
| "publish_state_text End = ascii ''end''"

text \<open>\<open>context->media_es_.back()\<close> of a list without elements is not defined; the frames that are there are not null.\<close>

definition es_context_to_string :: "es_context \<Rightarrow> bytes access" where
  "es_context_to_string context =
     bind_access (if media_es_list context = [] then Outside else Ok (ascii ''es_frame_data exist'')) (\<lambda>frames.
       Ok (field ''publish_id'' (publish_id context) @ ascii '','' @
         field ''publish_state'' (publish_state_text (publish_state context)) @ ascii '','' @
         field ''frame_number'' (decimal (unat (frame_number context))) @ ascii '','' @
         field ''video_frame_number'' (decimal (unat (video_frame_number context))) @ ascii '','' @
         field ''audio_frame_number'' (decimal (unat (audio_frame_number context))) @ ascii '','' @ frames))"

text \<open>C40: after a configuration has been processed with no frame in the queue, as at the start of every
publication and whenever all frames have been posted, the description of the context that
\<open>publish_to_streamer\<close> logs next takes the last element of an empty list.\<close>

theorem config_log_reads_empty_list:
  assumes "media_es_list context = []"
    and "message_type = FLV_AUDIO_ES \<and> IsAACSequenceHeader buffer = Ok () \<or>
      message_type = FLV_VIDEO_ES \<and> IsAVCSequenceHeader buffer = Ok ()"
    and "process_flv_es_message context message_type time buffer = Ok (r, context')"
  shows "es_context_to_string context' = Outside"
proof -
  have "media_es_list context' = []"
    using assms by (auto simp: process_flv_es_message_def FLV_AUDIO_ES_def FLV_VIDEO_ES_def process_audio_config_def
      process_video_config_def set_audio_config_def set_video_config_def try_access_def split: access.splits)
  then show ?thesis by (simp add: es_context_to_string_def)
qed

theorem config_log_reads_empty_list_witness:
  "\<exists>context'. process_flv_es_message new_es_context 8 0 aac_config_example = Ok (True, context') \<and>
    es_context_to_string context' = Outside"
proof -
  have "IsAACSequenceHeader aac_config_example = Ok ()" by code_simp
  moreover have "process_audio_config new_es_context aac_config_example =
      Ok (True, set_audio_config new_es_context 44100 2)"
    by code_simp
  ultimately have "process_flv_es_message new_es_context FLV_AUDIO_ES 0 aac_config_example =
      Ok (True, set_audio_config new_es_context 44100 2)"
    by (simp add: process_flv_es_message_def)
  then show ?thesis
    using config_log_reads_empty_list [of new_es_context FLV_AUDIO_ES aac_config_example 0]
      \<open>IsAACSequenceHeader aac_config_example = Ok ()\<close>
    by (simp add: FLV_AUDIO_ES_def new_es_context_def)
qed

subsection \<open>Files that are read for debugging\<close>

text \<open>\<open>None\<close> is a file that cannot be opened. What is printed is left out, but for the description of the context.\<close>

definition read_flv_es_dump_file :: "es_context \<Rightarrow> bytes option \<Rightarrow> (bool \<times> es_context) access" where
  "read_flv_es_dump_file context file = (case file of
      None \<Rightarrow> Ok (False, context)
    | Some buffer \<Rightarrow> bind_access (process_flv_es_dump_message context buffer) (\<lambda>(ret, context).
        bind_access (es_context_to_string context) (\<lambda>_. Ok (True, context))))"

definition dump_directory :: bytes where
  "dump_directory = ascii ''/data/project/git/rtmp-module/build/dump/flv_es''"

definition dump_path :: "nat \<Rightarrow> bytes" where
  "dump_path index = dump_directory @ ascii ''/'' @ ascii ''flv_es.dump'' @ ascii ''.'' @ decimal index"

fun read_dumps :: "(bytes \<Rightarrow> bytes option) \<Rightarrow> es_context \<Rightarrow> nat list \<Rightarrow> es_context access" where
  "read_dumps files context [] = Ok context"
| "read_dumps files context (index # indices) =
     bind_access (read_flv_es_dump_file context (files (dump_path index))) (\<lambda>(ret, context).
       read_dumps files context indices)"

text \<open>The loop \<open>index <= end\<close> over an \<open>unsigned\<close> does not end when \<open>end\<close> is the greatest one.\<close>

definition read_flv_es_dump :: "(bytes \<Rightarrow> bytes option) \<Rightarrow> es_context \<Rightarrow> u32 \<Rightarrow> u32 \<Rightarrow> es_context access option" where
  "read_flv_es_dump files context start end_index =
     (if end_index = - 1 then None
      else Some (read_dumps files context [unat start..<unat end_index + 1]))"

definition parsing_flv :: "bytes option \<Rightarrow> bool access" where
  "parsing_flv file = (case file of
      None \<Rightarrow> Ok False
    | Some buffer \<Rightarrow> try_access (get_first_sps_and_first_pps_from_avc_sequence_header buffer) (\<lambda>_. Ok True)
        (try_access (get_video buffer) (\<lambda>_. Ok True) (Ok False)))"

text \<open>Files that are missing are passed over; a sequence of dumps is replayed one after the other.\<close>

lemma read_dumps_missing:
  "(\<And>i. i \<in> set indices \<Longrightarrow> files (dump_path i) = None) \<Longrightarrow> read_dumps files context indices = Ok context"
  by (induction indices) (simp_all add: read_flv_es_dump_file_def)

lemma read_dumps_append:
  "read_dumps files c (ks @ js) = bind_access (read_dumps files c ks) (\<lambda>d. read_dumps files d js)"
proof (induction ks arbitrary: c)
  case (Cons i ks)
  then show ?case by (cases "read_flv_es_dump_file c (files (dump_path i))") auto
qed simp

end
