(* ===== verification/Encrypt_Util.thy ===== *)
theory Encrypt_Util
  imports Handshake Flv_Util
begin

text \<open>
  The HMAC of the handshake, \<open>common/EncryptUtil.cpp\<close>. With the HMAC of OpenSSL, \<open>encrypt\<close> copies its
  result over the start of \<open>digest\<close>; the preprocessor has a branch without it, which computes the
  same from \<open>SHA256\<close>, the argument \<open>sha256\<close>, in buffers of a fixed size. A copy past the end of a
  buffer is \<open>Outside\<close>. \<open>EVP_MAX_MD_SIZE\<close> is defined by the headers of OpenSSL, so that the first
  branch is compiled.

  Shown: the second branch is HMAC as RFC 2104 defines it for texts of at most 960 bytes; for longer
  ones, as those of the handshake, it writes past its buffer.
\<close>

definition copy_at :: "nat \<Rightarrow> bytes \<Rightarrow> bytes \<Rightarrow> bytes access" where
  "copy_at offset src dst = (if offset + length src \<le> length dst
     then Ok (take offset dst @ src @ drop (offset + length src) dst) else Outside)"

definition encrypt :: "hmac \<Rightarrow> bytes \<Rightarrow> bytes \<Rightarrow> bytes \<Rightarrow> bytes access" where
  "encrypt hmac text_bytes key digest = copy_at 0 (hmac key text_bytes) digest"

definition SHA256_DIGEST_LENGTH :: nat where "SHA256_DIGEST_LENGTH = 32"

definition short_key :: "(bytes \<Rightarrow> bytes) \<Rightarrow> bytes \<Rightarrow> bytes" where
  "short_key sha256 key = (if length key > 64 then take SHA256_DIGEST_LENGTH (sha256 key) else key)"

text \<open>The loop that combines the first 64 of the 65 bytes of a pad with its constant.\<close>

definition xor_pad :: "byte \<Rightarrow> bytes \<Rightarrow> bytes" where
  "xor_pad c k_pad = map (\<lambda>b. b XOR c) (take 64 k_pad) @ drop 64 k_pad"

definition hash_padded :: "(bytes \<Rightarrow> bytes) \<Rightarrow> bytes \<Rightarrow> bytes \<Rightarrow> bytes access" where
  "hash_padded sha256 k_pad message =
     bind_access (copy_at 0 (take 64 k_pad) (replicate 1024 0)) (\<lambda>buffer.
     bind_access (copy_at 64 message buffer) (\<lambda>buffer. Ok (sha256 (take (64 + length message) buffer))))"

definition encrypt_without_hmac :: "(bytes \<Rightarrow> bytes) \<Rightarrow> bytes \<Rightarrow> bytes \<Rightarrow> bytes \<Rightarrow> bytes access" where
  "encrypt_without_hmac sha256 text_bytes key digest =
     (let key = short_key sha256 key in
      bind_access (copy_at 0 key (replicate 65 0)) (\<lambda>k_ipad.
      bind_access (copy_at 0 key (replicate 65 0)) (\<lambda>k_opad.
      bind_access (hash_padded sha256 (xor_pad 0x36 k_ipad) text_bytes) (\<lambda>tk2.
      bind_access (hash_padded sha256 (xor_pad 0x5c k_opad) (take SHA256_DIGEST_LENGTH tk2)) (\<lambda>result.
        copy_at 0 result digest)))))"

subsection \<open>HMAC\<close>

text \<open>RFC 2104, with blocks of 64 bytes.\<close>

definition block_key :: "(bytes \<Rightarrow> bytes) \<Rightarrow> bytes \<Rightarrow> bytes" where
  "block_key sha256 key = (let k = (if length key > 64 then sha256 key else key)
     in k @ replicate (64 - length k) 0)"

definition rfc_hmac :: "(bytes \<Rightarrow> bytes) \<Rightarrow> hmac" where
  "rfc_hmac sha256 key message =
     sha256 (map (\<lambda>b. b XOR 0x5c) (block_key sha256 key) @
       sha256 (map (\<lambda>b. b XOR 0x36) (block_key sha256 key) @ message))"

lemma hash_padded_eq:
  assumes "length k_pad = 65"
  shows "hash_padded sha256 k_pad message =
    (if length message \<le> 960 then Ok (sha256 (take 64 k_pad @ message)) else Outside)"
  using assms by (simp add: hash_padded_def copy_at_def)

lemma pad_eq:
  assumes "length (short_key sha256 key) \<le> 64" and "\<And>x. length (sha256 x) = 32"
  shows "\<exists>k_pad. copy_at 0 (short_key sha256 key) (replicate 65 0) = Ok k_pad \<and> length k_pad = 65 \<and>
    (\<forall>c. length (xor_pad c k_pad) = 65 \<and> take 64 (xor_pad c k_pad) = map (\<lambda>b. b XOR c) (block_key sha256 key))"
proof -
  let ?k = "short_key sha256 key"
  have "block_key sha256 key = ?k @ replicate (64 - length ?k) 0"
    using assms(2) by (simp add: block_key_def short_key_def SHA256_DIGEST_LENGTH_def)
  then show ?thesis
    using assms(1) by (simp add: copy_at_def xor_pad_def)
qed

lemma encrypt_without_hmac_eq:
  assumes "\<And>x. length (sha256 x) = 32"
  shows "encrypt_without_hmac sha256 message key digest =
    (if length message \<le> 960 then encrypt (rfc_hmac sha256) message key digest else Outside)"
proof -
  have "length (short_key sha256 key) \<le> 64"
    using assms by (simp add: short_key_def SHA256_DIGEST_LENGTH_def)
  then obtain k_pad where "copy_at 0 (short_key sha256 key) (replicate 65 0) = Ok k_pad"
    "\<And>c. length (xor_pad c k_pad) = 65"
    "\<And>c. take 64 (xor_pad c k_pad) = map (\<lambda>b. b XOR c) (block_key sha256 key)"
    using pad_eq assms by metis
  then show ?thesis
    using assms by (simp add: encrypt_without_hmac_def hash_padded_eq encrypt_def rfc_hmac_def SHA256_DIGEST_LENGTH_def)
qed

text \<open>The two branches differ in the handshake: what a digest signs has 1504 bytes.\<close>

lemma handshake_text_too_long:
  assumes "\<And>x. length (sha256 x) = 32" and "length buf = HANDSHAKE_MSG_LENGTH"
  shows "encrypt_without_hmac sha256 (without_digest buf (get_digest_offset buf scheme)) key digest = Outside"
proof -
  have "length (without_digest buf (get_digest_offset buf scheme)) = HANDSHAKE_MSG_LENGTH - 32"
    using digest_offset_range(2) [of buf scheme] assms(2) by (simp add: without_digest_def)
  then show ?thesis
    by (simp add: encrypt_without_hmac_eq [OF assms(1)] HANDSHAKE_MSG_LENGTH_def)
qed

end
